(* ===== verification/Json.thy ===== *)
theory Json
  imports Prelude
begin

text \<open>
  What the sources use of Go's \<^verbatim>\<open>encoding/json\<close>: JSON documents, \<open>json.Marshal\<close> of a
  document (\<open>print_json\<close>), the syntax check and parse that \<open>json.Unmarshal\<close> starts with
  (\<open>parse_json\<close>), and the assignment of a document to a typed variable (the \<open>dec_\<dots>\<close>
  functions, which return the new value and whether every part had the right type:
  Go keeps decoding after a type mismatch and reports the first one at the end).

  Conventions of the library that the model keeps: \<open>null\<close> leaves a value as it is; an object
  key matches a field case-insensitively; the last duplicate wins; an integer field refuses
  a number written with a fraction or an exponent and a number out of its range; \<open><\<close>, \<open>>\<close>
  and \<open>&\<close> are escaped.  Strings are byte strings taken to be valid UTF-8.
\<close>

datatype json =
    JNull
  | JBool bool
  | JInt int              \<comment> \<open>a number literal without fraction or exponent\<close>
  | JReal string          \<comment> \<open>any other number literal, as written\<close>
  | JStr string
  | JArr "json list"
  | JObj "(string \<times> json) list"

section \<open>Characters\<close>

abbreviation chr_quote :: char where "chr_quote \<equiv> CHR 0x22"
abbreviation chr_backslash :: char where "chr_backslash \<equiv> CHR 0x5C"
abbreviation chr_newline :: char where "chr_newline \<equiv> CHR 0x0A"

abbreviation byte :: "char \<Rightarrow> nat" where "byte c \<equiv> of_char c"

definition is_digit :: "char \<Rightarrow> bool" where
  "is_digit c \<longleftrightarrow> 48 \<le> byte c \<and> byte c \<le> 57"

definition is_space :: "char \<Rightarrow> bool" where
  "is_space c \<longleftrightarrow> byte c = 32 \<or> byte c = 9 \<or> byte c = 10 \<or> byte c = 13"

definition lower :: "char \<Rightarrow> char" where
  "lower c = (if 65 \<le> byte c \<and> byte c \<le> 90 then char_of (byte c + 32) else c)"

definition hex_digit :: "nat \<Rightarrow> char" where
  "hex_digit n = char_of (if n < 10 then 48 + n else 87 + n)"

definition hex_value :: "char \<Rightarrow> nat option" where
  "hex_value c =
     (let b = byte c in
      if 48 \<le> b \<and> b \<le> 57 then Some (b - 48)
      else if 65 \<le> b \<and> b \<le> 70 then Some (b - 55)
      else if 97 \<le> b \<and> b \<le> 102 then Some (b - 87)
      else None)"

section \<open>Numbers\<close>

fun show_nat :: "nat \<Rightarrow> string" where
  "show_nat n = (if n < 10 then [char_of (48 + n)] else show_nat (n div 10) @ [char_of (48 + n mod 10)])"

declare show_nat.simps [simp del]

definition show_int :: "int \<Rightarrow> string" where
  "show_int i = (if i < 0 then CHR ''-'' # show_nat (nat (- i)) else show_nat (nat i))"

definition read_nat :: "string \<Rightarrow> nat" where
  "read_nat s = foldl (\<lambda>a c. 10 * a + (byte c - 48)) 0 s"

section \<open>Printing\<close>

definition esc_char :: "char \<Rightarrow> string" where
  "esc_char c =
     (let b = byte c in
      if b = 0x22 \<or> b = 0x5C then [chr_backslash, c]
      else if b = 8 then [chr_backslash, CHR ''b'']
      else if b = 12 then [chr_backslash, CHR ''f'']
      else if b = 10 then [chr_backslash, CHR ''n'']
      else if b = 13 then [chr_backslash, CHR ''r'']
      else if b = 9 then [chr_backslash, CHR ''t'']
      else if b < 0x20 \<or> b = 0x3C \<or> b = 0x3E \<or> b = 0x26
      then [chr_backslash, CHR ''u'', CHR ''0'', CHR ''0'', hex_digit (b div 16), hex_digit (b mod 16)]
      else [c])"

definition print_str :: "string \<Rightarrow> string" where
  "print_str s = chr_quote # concat (map esc_char s) @ [chr_quote]"

fun join :: "string \<Rightarrow> string list \<Rightarrow> string" where
  "join sep [] = []"
| "join sep [x] = x"
| "join sep (x # y # xs) = x @ sep @ join sep (y # xs)"

fun print_json :: "json \<Rightarrow> string" where
  "print_json JNull = ''null''"
| "print_json (JBool b) = (if b then ''true'' else ''false'')"
| "print_json (JInt i) = show_int i"
| "print_json (JReal l) = l"
| "print_json (JStr s) = print_str s"
| "print_json (JArr xs) = ''['' @ join '','' (map print_json xs) @ '']''"
| "print_json (JObj kvs) =
     ''{'' @ join '','' (map (\<lambda>(k, v). print_str k @ '':'' @ print_json v) kvs) @ ''}''"

section \<open>Parsing\<close>

fun skip_ws :: "string \<Rightarrow> string" where
  "skip_ws [] = []"
| "skip_ws (c # cs) = (if is_space c then skip_ws cs else c # cs)"

fun expect :: "string \<Rightarrow> string \<Rightarrow> string option" where
  "expect [] s = Some s"
| "expect (k # ks) [] = None"
| "expect (k # ks) (c # cs) = (if c = k then expect ks cs else None)"

definition hex4 :: "char \<Rightarrow> char \<Rightarrow> char \<Rightarrow> char \<Rightarrow> nat option" where
  "hex4 a b c d = do {
     w \<leftarrow> hex_value a; x \<leftarrow> hex_value b; y \<leftarrow> hex_value c; z \<leftarrow> hex_value d;
     Some (((w * 16 + x) * 16 + y) * 16 + z) }"

definition utf8 :: "nat \<Rightarrow> string" where
  "utf8 n =
     (if n < 0x80 then [char_of n]
      else if n < 0x800 then [char_of (0xC0 + n div 64), char_of (0x80 + n mod 64)]
      else if n < 0x10000 then
        [char_of (0xE0 + n div 4096), char_of (0x80 + n div 64 mod 64), char_of (0x80 + n mod 64)]
      else
        [char_of (0xF0 + n div 262144), char_of (0x80 + n div 4096 mod 64),
         char_of (0x80 + n div 64 mod 64), char_of (0x80 + n mod 64)])"

text \<open>The character an escape letter stands for.\<close>

definition unescape :: "char \<Rightarrow> char option" where
  "unescape e =
     (if e = chr_quote \<or> e = chr_backslash \<or> e = CHR ''/'' then Some e
      else if e = CHR ''b'' then Some (char_of (8::nat))
      else if e = CHR ''f'' then Some (char_of (12::nat))
      else if e = CHR ''n'' then Some (char_of (10::nat))
      else if e = CHR ''r'' then Some (char_of (13::nat))
      else if e = CHR ''t'' then Some (char_of (9::nat))
      else None)"

text \<open>
  The rest of a string after its opening quote.  A surrogate pair is one code point, a lone
  surrogate is U+FFFD.
\<close>

fun parse_str :: "string \<Rightarrow> (string \<times> string) option" where
  "parse_str [] = None"
| "parse_str (c # cs) =
     (if c = chr_quote then Some ([], cs)
      else if c = chr_backslash then
        (case cs of
           [] \<Rightarrow> None
         | e # cs' \<Rightarrow>
             if e = CHR ''u'' then
               (case cs' of
                  h1 # h2 # h3 # h4 # r \<Rightarrow>
                    (case hex4 h1 h2 h3 h4 of
                       None \<Rightarrow> None
                     | Some n \<Rightarrow>
                         if 0xD800 \<le> n \<and> n < 0xDC00 then
                           (case r of
                              b # u # l1 # l2 # l3 # l4 # r' \<Rightarrow>
                                (if b = chr_backslash \<and> u = CHR ''u'' then
                                   (case hex4 l1 l2 l3 l4 of
                                      None \<Rightarrow> None
                                    | Some m \<Rightarrow>
                                        if 0xDC00 \<le> m \<and> m < 0xE000
                                        then map_option (map_prod ((@) (utf8 (0x10000 + (n - 0xD800) * 1024 + (m - 0xDC00)))) id) (parse_str r')
                                        else map_option (map_prod ((@) (utf8 0xFFFD)) id) (parse_str r))
                                 else map_option (map_prod ((@) (utf8 0xFFFD)) id) (parse_str r))
                            | _ \<Rightarrow> map_option (map_prod ((@) (utf8 0xFFFD)) id) (parse_str r))
                         else if 0xDC00 \<le> n \<and> n < 0xE000
                         then map_option (map_prod ((@) (utf8 0xFFFD)) id) (parse_str r)
                         else map_option (map_prod ((@) (utf8 n)) id) (parse_str r))
                | _ \<Rightarrow> None)
             else
               (case unescape e of
                  None \<Rightarrow> None
                | Some x \<Rightarrow> map_option (map_prod ((#) x) id) (parse_str cs')))
      else if byte c < 0x20 then None
      else map_option (map_prod ((#) c) id) (parse_str cs))"

text \<open>
  A number literal: optional minus, an integer part without leading zeros, then an optional
  fraction and an optional exponent.
\<close>

definition digits :: "string \<Rightarrow> string \<times> string" where
  "digits s = (takeWhile is_digit s, dropWhile is_digit s)"

definition parse_frac :: "string \<Rightarrow> (string \<times> string) option" where
  "parse_frac s =
     (case s of
        c # r \<Rightarrow>
          (if c = CHR ''.'' then
             (case digits r of (ds, r') \<Rightarrow> if ds = [] then None else Some (c # ds, r'))
           else Some ([], s))
      | [] \<Rightarrow> Some ([], s))"

definition parse_exp :: "string \<Rightarrow> (string \<times> string) option" where
  "parse_exp s =
     (case s of
        c # r \<Rightarrow>
          (if c = CHR ''e'' \<or> c = CHR ''E'' then
             (let sgn = (case r of x # _ \<Rightarrow> if x = CHR ''+'' \<or> x = CHR ''-'' then [x] else [] | [] \<Rightarrow> [])
              in case digits (drop (length sgn) r) of
                   (ds, r') \<Rightarrow> if ds = [] then None else Some (c # sgn @ ds, r'))
           else Some ([], s))
      | [] \<Rightarrow> Some ([], s))"

definition parse_num :: "string \<Rightarrow> (json \<times> string) option" where
  "parse_num s =
     (let neg = (case s of c # _ \<Rightarrow> c = CHR ''-'' | [] \<Rightarrow> False);
          (ds, r) = digits (if neg then tl s else s)
      in if ds = [] \<or> (1 < length ds \<and> hd ds = CHR ''0'') then None
         else do {
           (fr, r1) \<leftarrow> parse_frac r;
           (ex, r2) \<leftarrow> parse_exp r1;
           Some (if fr = [] \<and> ex = []
                 then JInt (if neg then - int (read_nat ds) else int (read_nat ds))
                 else JReal ((if neg then ''-'' else []) @ ds @ fr @ ex), r2) })"

text \<open>
  Every call spends one unit of fuel and consumes a character, so the length of the text is
  enough fuel.
\<close>

fun parse_value :: "nat \<Rightarrow> string \<Rightarrow> (json \<times> string) option"
and parse_elems :: "nat \<Rightarrow> string \<Rightarrow> (json list \<times> string) option"
and parse_members :: "nat \<Rightarrow> string \<Rightarrow> ((string \<times> json) list \<times> string) option" where
  "parse_value 0 s = None"
| "parse_value (Suc n) s =
     (case s of
        [] \<Rightarrow> None
      | c # cs \<Rightarrow>
          if c = chr_quote then do { (t, r) \<leftarrow> parse_str cs; Some (JStr t, r) }
          else if c = CHR ''['' then
            (case skip_ws cs of
               [] \<Rightarrow> None
             | d # r \<Rightarrow> if d = CHR '']'' then Some (JArr [], r)
                        else do { (xs, r') \<leftarrow> parse_elems n (d # r); Some (JArr xs, r') })
          else if c = CHR ''{'' then
            (case skip_ws cs of
               [] \<Rightarrow> None
             | d # r \<Rightarrow> if d = CHR ''}'' then Some (JObj [], r)
                        else do { (kvs, r') \<leftarrow> parse_members n (d # r); Some (JObj kvs, r') })
          else if c = CHR ''n'' then do { r \<leftarrow> expect ''null'' s; Some (JNull, r) }
          else if c = CHR ''t'' then do { r \<leftarrow> expect ''true'' s; Some (JBool True, r) }
          else if c = CHR ''f'' then do { r \<leftarrow> expect ''false'' s; Some (JBool False, r) }
          else parse_num s)"
| "parse_elems 0 s = None"
| "parse_elems (Suc n) s = do {
     (x, r) \<leftarrow> parse_value n s;
     (case skip_ws r of
        [] \<Rightarrow> None
      | d # r' \<Rightarrow>
          if d = CHR '']'' then Some ([x], r')
          else if d = CHR '','' then do { (xs, r'') \<leftarrow> parse_elems n (skip_ws r'); Some (x # xs, r'') }
          else None) }"
| "parse_members 0 s = None"
| "parse_members (Suc n) s = do {
     r0 \<leftarrow> expect [chr_quote] s;
     (k, r1) \<leftarrow> parse_str r0;
     r2 \<leftarrow> expect '':'' (skip_ws r1);
     (v, r) \<leftarrow> parse_value n (skip_ws r2);
     (case skip_ws r of
        [] \<Rightarrow> None
      | d # r' \<Rightarrow>
          if d = CHR ''}'' then Some ([(k, v)], r')
          else if d = CHR '','' then do { (kvs, r'') \<leftarrow> parse_members n (skip_ws r'); Some ((k, v) # kvs, r'') }
          else None) }"

definition parse_json :: "string \<Rightarrow> json option" where
  "parse_json s = do {
     (j, r) \<leftarrow> parse_value (Suc (length s)) (skip_ws s);
     if skip_ws r = [] then Some j else None }"


section \<open>Reading back what was printed\<close>

text \<open>Where a number literal must end.\<close>

definition num_end :: "string \<Rightarrow> bool" where
  "num_end s =
     (case s of [] \<Rightarrow> True
      | c # _ \<Rightarrow> \<not> is_digit c \<and> c \<noteq> CHR ''.'' \<and> c \<noteq> CHR ''e'' \<and> c \<noteq> CHR ''E'')"

lemma num_end_simps [simp]:
  "num_end []" "num_end (CHR '','' # s)" "num_end (CHR '']'' # s)" "num_end (CHR ''}'' # s)"
  "num_end (chr_newline # s)"
  by (simp_all add: num_end_def is_digit_def)

lemma digits_append:
  assumes "num_end rest" "digits s = (a, b)"
  shows "digits (s @ rest) = (a, b @ rest)"
proof (cases "b = []")
  case True
  with assms(2) have "\<forall>c\<in>set s. is_digit c" "a = s"
    by (auto simp: digits_def dropWhile_eq_Nil_conv takeWhile_eq_all_conv)
  moreover have "takeWhile is_digit rest = []" "dropWhile is_digit rest = rest"
    using assms(1) by (auto simp: num_end_def split: list.splits)
  ultimately show ?thesis
    using True by (simp add: digits_def takeWhile_append2 dropWhile_append2)
next
  case False
  with assms(2) obtain c where "c \<in> set s" "\<not> is_digit c"
    by (auto simp: digits_def dropWhile_eq_Nil_conv)
  then show ?thesis
    using assms(2) by (auto simp: digits_def takeWhile_append1 dropWhile_append1)
qed

lemma parse_frac_append:
  assumes "num_end rest" "parse_frac s = Some (f, r)"
  shows "parse_frac (s @ rest) = Some (f, r @ rest)"
proof (cases s)
  case Nil
  with assms show ?thesis by (auto simp: parse_frac_def num_end_def split: list.splits)
next
  case (Cons c cs)
  obtain a b where "digits cs = (a, b)" by fastforce
  with assms Cons show ?thesis
    by (auto simp: parse_frac_def digits_append split: if_splits)
qed

lemma parse_exp_append:
  assumes "num_end rest" "parse_exp s = Some (f, r)"
  shows "parse_exp (s @ rest) = Some (f, r @ rest)"
proof (cases s)
  case Nil
  with assms show ?thesis by (auto simp: parse_exp_def num_end_def split: list.splits)
next
  case (Cons c cs)
  show ?thesis
  proof (cases "c = CHR ''e'' \<or> c = CHR ''E''")
    case False
    with assms Cons show ?thesis by (auto simp: parse_exp_def)
  next
    case True
    have "cs \<noteq> []"
      using assms(2) Cons True by (auto simp: parse_exp_def digits_def)
    then obtain x xs where cs: "cs = x # xs" by (cases cs) auto
    obtain a b where ab: "digits (if x = CHR ''+'' \<or> x = CHR ''-'' then xs else cs) = (a, b)"
      by fastforce
    from digits_append [OF assms(1) ab] assms(2) ab True Cons cs show ?thesis
      by (auto simp: parse_exp_def split: if_splits)
  qed
qed

lemma parse_num_append:
  assumes "num_end rest" "parse_num s = Some (j, r)"
  shows "parse_num (s @ rest) = Some (j, r @ rest)"
proof -
  have "s \<noteq> []"
    using assms(2) by (auto simp: parse_num_def digits_def)
  then obtain c cs where s: "s = c # cs" by (cases s) auto
  obtain a b where ab: "digits (if c = CHR ''-'' then cs else s) = (a, b)" by fastforce
  with s have ab': "digits (if c = CHR ''-'' then cs @ rest else c # cs @ rest) = (a, b @ rest)"
    using digits_append [OF assms(1), of "if c = CHR ''-'' then cs else s"] by (auto split: if_splits)
  from assms(2) s ab obtain fr r1 ex where
    "parse_frac b = Some (fr, r1)" "parse_exp r1 = Some (ex, r)"
    by (auto simp: parse_num_def Let_def split: Option.bind_splits if_splits)
  with assms s ab ab' show ?thesis
    by (auto simp: parse_num_def Let_def parse_frac_append parse_exp_append split: if_splits)
qed

lemma show_nat_digits: "c \<in> set (show_nat n) \<Longrightarrow> is_digit c"
proof (induction n rule: show_nat.induct)
  case (1 n)
  then show ?case
    by (subst (asm) show_nat.simps) (auto simp: is_digit_def split: if_splits)
qed

lemma show_nat_nonempty [simp]: "show_nat n \<noteq> []"
  by (subst show_nat.simps) simp

lemma show_nat_hd: "0 < n \<Longrightarrow> hd (show_nat n) \<noteq> CHR ''0''"
proof (induction n rule: show_nat.induct)
  case (1 n)
  have "char_of (48 + n) \<noteq> CHR ''0''" if "n < 10"
  proof
    assume "char_of (48 + n) = CHR ''0''"
    then have "byte (char_of (48 + n)) = byte (CHR ''0'')" by simp
    with that "1.prems" show False by (simp add: of_char_of)
  qed
  with 1 show ?case
    by (subst show_nat.simps) (auto simp: hd_append)
qed

lemma read_show_nat [simp]: "read_nat (show_nat n) = n"
proof (induction n rule: show_nat.induct)
  case (1 n)
  show ?case
  proof (cases "n < 10")
    case True
    then show ?thesis by (subst show_nat.simps) (simp add: read_nat_def)
  next
    case False
    with 1 show ?thesis
      by (subst show_nat.simps) (simp add: read_nat_def)
  qed
qed

lemma digits_show_nat: "num_end rest \<Longrightarrow> digits (show_nat n @ rest) = (show_nat n, rest)"
proof -
  assume "num_end rest"
  moreover have "digits (show_nat n) = (show_nat n, [])"
    by (auto simp: digits_def takeWhile_eq_all_conv dropWhile_eq_Nil_conv dest: show_nat_digits)
  ultimately show ?thesis using digits_append by fastforce
qed

lemma parse_frac_end: "num_end r \<Longrightarrow> parse_frac r = Some ([], r)"
  by (auto simp: parse_frac_def num_end_def split: list.splits)

lemma parse_exp_end: "num_end r \<Longrightarrow> parse_exp r = Some ([], r)"
  by (auto simp: parse_exp_def num_end_def split: list.splits)

lemma show_nat_hd_digit: "is_digit (hd (show_nat n))"
  using show_nat_digits [of "hd (show_nat n)" n] by simp

lemma show_nat_leading: "1 < length (show_nat n) \<Longrightarrow> hd (show_nat n) \<noteq> CHR ''0''"
  by (cases "n = 0") (auto simp: show_nat_hd show_nat.simps [of 0])

lemma parse_show_nat:
  assumes "num_end rest"
  shows "parse_num (show_nat n @ rest) = Some (JInt (int n), rest)"
proof -
  obtain c cs where c: "show_nat n = c # cs" by (cases "show_nat n") auto
  with show_nat_hd_digit [of n] have "c \<noteq> CHR ''-''" by (auto simp: is_digit_def)
  with c assms show ?thesis
    using digits_show_nat [OF assms, of n] show_nat_leading [of n] read_show_nat [of n]
    by (cases "cs = []") (auto simp: parse_num_def Let_def parse_frac_end parse_exp_end)
qed

lemma parse_show_int: "num_end rest \<Longrightarrow> parse_num (show_int i @ rest) = Some (JInt i, rest)"
proof (cases "i < 0")
  case True
  assume e: "num_end rest"
  show ?thesis
    using True digits_show_nat [OF e, of "nat (- i)"] show_nat_leading [of "nat (- i)"]
    by (simp add: show_int_def parse_num_def Let_def parse_frac_end [OF e] parse_exp_end [OF e])
next
  case False
  assume "num_end rest"
  with False show ?thesis by (simp add: show_int_def parse_show_nat)
qed

lemma hex_value_digit: "n < 16 \<Longrightarrow> hex_value (hex_digit n) = Some n"
  by (auto simp: hex_value_def hex_digit_def Let_def)

lemma parse_esc_char:
  "parse_str (esc_char c @ r) = map_option (map_prod ((#) c) id) (parse_str r)"
proof -
  have eqI: "c = char_of n" if "byte c = n" for n
    using that by auto
  consider "byte c \<in> {0x22, 0x5C, 8, 12, 10, 13, 9}"
    | "byte c \<notin> {0x22, 0x5C, 8, 12, 10, 13, 9}" "byte c < 0x20 \<or> byte c = 0x3C \<or> byte c = 0x3E \<or> byte c = 0x26"
    | "byte c \<notin> {0x22, 0x5C}" "0x20 \<le> byte c" "byte c \<notin> {0x3C, 0x3E, 0x26}"
    by fastforce
  then show ?thesis
  proof cases
    case 1
    then show ?thesis
      by (auto dest!: eqI simp: esc_char_def unescape_def char_of_def bit_iff_odd)
  next
    case 2
    have b: "byte c < 128" using 2(2) by auto
    have hex: "hex4 CHR ''0'' CHR ''0'' (hex_digit (byte c div 16)) (hex_digit (byte c mod 16)) = Some (byte c)"
      using b by (simp add: hex4_def hex_value_digit) (simp add: hex_value_def)
    have one: "(@) [c] = (#) c" by (rule ext) simp
    from 2 hex b show ?thesis
      by (auto simp: esc_char_def Let_def utf8_def one)
  next
    case 3
    then have "c \<noteq> chr_quote" "c \<noteq> chr_backslash" by auto
    with 3 show ?thesis by (auto simp: esc_char_def Let_def)
  qed
qed

lemma parse_print_str: "parse_str (concat (map esc_char s) @ chr_quote # r) = Some (s, r)"
  by (induction s) (simp_all add: parse_esc_char del: parse_str.simps(2), simp)

text \<open>Documents Go can hold: a non-integer number is a literal of the grammar.\<close>

fun wf_json :: "json \<Rightarrow> bool" where
  "wf_json (JReal l) = (parse_num l = Some (JReal l, []))"
| "wf_json (JArr xs) = list_all wf_json xs"
| "wf_json (JObj kvs) = list_all (\<lambda>(k, v). wf_json v) kvs"
| "wf_json _ = True"

text \<open>The first character of a value decides how it is read.\<close>

lemma parse_num_start:
  assumes "parse_num s = Some x"
  obtains c cs where "s = c # cs" "c = CHR ''-'' \<or> is_digit c"
proof (cases s)
  case Nil
  with assms show ?thesis by (simp add: parse_num_def digits_def)
next
  case (Cons c cs)
  with assms that show ?thesis
    by (auto simp: parse_num_def digits_def Let_def split: if_splits)
qed

definition value_start :: "string \<Rightarrow> bool" where
  "value_start s = (case s of [] \<Rightarrow> False | c # _ \<Rightarrow> \<not> is_space c \<and> c \<noteq> CHR '']'' \<and> c \<noteq> CHR ''}'')"

lemma value_start_append: "value_start s \<Longrightarrow> value_start (s @ r)"
  by (cases s) (auto simp: value_start_def)

lemma value_start_ws [simp]: "value_start s \<Longrightarrow> skip_ws (s @ r) = s @ r"
  by (cases s) (auto simp: value_start_def)

lemma num_value_start: "parse_num s = Some x \<Longrightarrow> value_start s"
  by (erule parse_num_start) (auto simp: value_start_def is_space_def is_digit_def)

lemma print_str_start: "value_start (print_str s)"
  by (simp add: print_str_def value_start_def is_space_def)

lemma print_json_start: "wf_json j \<Longrightarrow> value_start (print_json j)"
proof (cases j)
  case (JInt i)
  then show ?thesis using parse_show_int [of "[]" i] num_value_start by simp
next
  case (JReal l)
  moreover assume "wf_json j"
  ultimately show ?thesis by (auto intro: num_value_start)
qed (auto simp: value_start_def is_space_def print_str_def)

lemma parse_value_num:
  assumes "parse_num s = Some (j, [])" "num_end r" "0 < n"
  shows "parse_value n (s @ r) = Some (j, r)"
proof -
  obtain c cs where s: "s = c # cs" "c = CHR ''-'' \<or> is_digit c"
    using parse_num_start [OF assms(1)] by blast
  obtain m where n: "n = Suc m" using assms(3) by (cases n) auto
  have "parse_num (s @ r) = Some (j, r)"
    using parse_num_append [OF assms(2,1)] by simp
  moreover have "c \<noteq> chr_quote \<and> c \<noteq> CHR ''['' \<and> c \<noteq> CHR ''{'' \<and> c \<noteq> CHR ''n'' \<and> c \<noteq> CHR ''t'' \<and> c \<noteq> CHR ''f''"
    using s(2) by (elim disjE) (simp, auto simp: is_digit_def)
  ultimately show ?thesis
    unfolding n s(1) parse_value.simps append_Cons list.case
    by (simp del: parse_value.simps)
qed

text \<open>
  Elements and members after the opening bracket, each with the round trip of its values as a
  hypothesis.
\<close>

lemma parse_elems_print:
  assumes "xs \<noteq> []" "length (join '','' (map print_json xs)) + 1 \<le> n"
    "\<And>x r m. x \<in> set xs \<Longrightarrow> num_end r \<Longrightarrow> length (print_json x) \<le> m \<Longrightarrow>
       parse_value m (print_json x @ r) = Some (x, r)"
    "\<And>x. x \<in> set xs \<Longrightarrow> value_start (print_json x)"
  shows "parse_elems n (join '','' (map print_json xs) @ '']'' @ r) = Some (xs, r)"
  using assms
proof (induction xs arbitrary: n)
  case Nil
  then show ?case by simp
next
  case (Cons x xs)
  obtain m where n: "n = Suc m" using Cons.prems(2) by (cases n) auto
  show ?case
  proof (cases xs)
    case Nil
    have "parse_value m (print_json x @ '']'' @ r) = Some (x, '']'' @ r)"
      by (rule Cons.prems(3)) (use Cons.prems(2) n Nil in auto)
    with Nil n show ?thesis by (simp add: is_space_def)
  next
    case (Cons y ys)
    let ?t = "join '','' (map print_json xs) @ '']'' @ r"
    have "parse_value m (print_json x @ '','' @ ?t) = Some (x, '','' @ ?t)"
      by (rule Cons.prems(3)) (use Cons.prems(2) n Cons in auto)
    moreover have "parse_elems m ?t = Some (xs, r)"
      by (rule Cons.IH) (use Cons.prems n Cons in auto)
    moreover have "skip_ws ?t = ?t"
    proof -
      have "value_start (print_json y)" using Cons.prems(4) Cons by simp
      then have "value_start (join '','' (map print_json xs))"
        using Cons by (cases ys) (auto intro: value_start_append)
      then show ?thesis by (rule value_start_ws)
    qed
    ultimately show ?thesis using n Cons by (simp add: is_space_def)
  qed
qed

lemma parse_members_print:
  assumes "kvs \<noteq> []"
    "length (join '','' (map (\<lambda>(k, v). print_str k @ '':'' @ print_json v) kvs)) + 1 \<le> n"
    "\<And>k x r m. (k, x) \<in> set kvs \<Longrightarrow> num_end r \<Longrightarrow> length (print_json x) \<le> m \<Longrightarrow>
       parse_value m (print_json x @ r) = Some (x, r)"
    "\<And>k x. (k, x) \<in> set kvs \<Longrightarrow> value_start (print_json x)"
  shows "parse_members n (join '','' (map (\<lambda>(k, v). print_str k @ '':'' @ print_json v) kvs) @ ''}'' @ r)
         = Some (kvs, r)"
  using assms
proof (induction kvs arbitrary: n)
  case Nil
  then show ?case by simp
next
  case (Cons kv kvs)
  obtain k x where kv: "kv = (k, x)" by (cases kv)
  obtain m where n: "n = Suc m" using Cons.prems(2) by (cases n) auto
  have vs: "skip_ws (print_json x @ t) = print_json x @ t" for t
    using Cons.prems(4) [of k x] kv by simp
  have str: "parse_str (concat (map esc_char k) @ chr_quote # t) = Some (k, t)" for t
    by (rule parse_print_str)
  show ?case
  proof (cases kvs)
    case Nil
    have "parse_value m (print_json x @ ''}'' @ r) = Some (x, ''}'' @ r)"
      by (rule Cons.prems(3) [of k]) (use Cons.prems(2) n Nil kv in auto)
    with Nil n kv vs str show ?thesis by (simp add: is_space_def print_str_def)
  next
    case (Cons y ys)
    let ?t = "join '','' (map (\<lambda>(k, v). print_str k @ '':'' @ print_json v) kvs) @ ''}'' @ r"
    have "parse_value m (print_json x @ '','' @ ?t) = Some (x, '','' @ ?t)"
      by (rule Cons.prems(3) [of k]) (use Cons.prems(2) n Cons kv in auto)
    moreover have "parse_members m ?t = Some (kvs, r)"
    proof (rule Cons.IH)
      show "parse_value m' (print_json x' @ r') = Some (x', r')"
        if "(k', x') \<in> set kvs" "num_end r'" "length (print_json x') \<le> m'" for k' x' r' m'
        by (rule Cons.prems(3) [of k' x' r' m']) (use that in auto)
      show "value_start (print_json x')" if "(k', x') \<in> set kvs" for k' x'
        by (rule Cons.prems(4) [of k' x']) (use that in auto)
    qed (use Cons.prems(2) n Cons kv in auto)
    moreover have "skip_ws ?t = ?t"
      using Cons by (cases y; cases ys) (auto simp: print_str_def is_space_def)
    ultimately show ?thesis using n Cons kv vs str by (simp add: is_space_def print_str_def)
  qed
qed

lemma parse_print_value:
  "wf_json j \<Longrightarrow> num_end r \<Longrightarrow> length (print_json j) \<le> n \<Longrightarrow>
   parse_value n (print_json j @ r) = Some (j, r)"
proof (induction j arbitrary: r n)
  case (JInt i)
  have "0 < length (show_int i)" by (simp add: show_int_def)
  with JInt.prems(3) have "0 < n" by (simp del: length_greater_0_conv)
  with JInt show ?case
    using parse_value_num [of "show_int i" "JInt i" r n] parse_show_int [of "[]" i] by simp
next
  case (JReal l)
  have "0 < n" using JReal by (auto elim: parse_num_start)
  with JReal show ?case using parse_value_num by simp
next
  case (JStr s)
  then obtain m where "n = Suc m" by (cases n) (auto simp: print_str_def)
  then show ?case by (simp add: print_str_def parse_print_str)
next
  case (JArr xs)
  then obtain m where n: "n = Suc m" by (cases n) auto
  show ?case
  proof (cases xs)
    case Nil
    then show ?thesis using n by (simp add: is_space_def)
  next
    case (Cons y ys)
    have st: "value_start (print_json x)" if "x \<in> set xs" for x
      using that JArr.prems(1) by (auto simp: list_all_iff print_json_start)
    have "parse_elems m (join '','' (map print_json xs) @ '']'' @ r) = Some (xs, r)"
      using JArr.prems n Cons st
      by (intro parse_elems_print JArr.IH) (auto simp: list_all_iff)
    moreover have "value_start (join '','' (map print_json xs))"
      using st [of y] Cons by (cases ys) (auto intro: value_start_append)
    then obtain c t where "join '','' (map print_json xs) = c # t" "\<not> is_space c" "c \<noteq> CHR '']''"
      by (auto simp: value_start_def split: list.splits)
    ultimately show ?thesis using n by simp
  qed
next
  case (JObj kvs)
  then obtain m where n: "n = Suc m" by (cases n) auto
  show ?case
  proof (cases kvs)
    case Nil
    then show ?thesis using n by (simp add: is_space_def)
  next
    case (Cons y ys)
    let ?p = "\<lambda>(k, v). print_str k @ '':'' @ print_json v"
    have st: "value_start (print_json x)" if "(k, x) \<in> set kvs" for k x
      using that JObj.prems(1) by (force simp: list_all_iff intro: print_json_start)
    have "parse_members m (join '','' (map ?p kvs) @ ''}'' @ r) = Some (kvs, r)"
    proof (rule parse_members_print)
      fix k x r' m'
      assume "(k, x) \<in> set kvs" "num_end r'" "length (print_json x) \<le> m'"
      with JObj.prems(1) show "parse_value m' (print_json x @ r') = Some (x, r')"
        by (intro JObj.IH [of "(k, x)" x]) (auto simp: list_all_iff)
    qed (use JObj.prems n Cons st in auto)
    moreover obtain t where "join '','' (map ?p kvs) = chr_quote # t"
      using Cons by (cases y; cases ys) (auto simp: print_str_def)
    ultimately show ?thesis using n by (simp add: is_space_def)
  qed
next
  case JNull
  then obtain m where "n = Suc m" by (cases n) auto
  then show ?case by simp
next
  case (JBool b)
  then obtain m where "n = Suc m" by (cases n) (auto split: if_splits)
  then show ?case by simp
qed

lemma parse_print_json [codec]: "wf_json j \<Longrightarrow> parse_json (print_json j) = Some j"
  using parse_print_value [of j "[]" "Suc (length (print_json j))"] print_json_start [of j]
    value_start_ws [of "print_json j" "[]"]
  by (simp add: parse_json_def)

text \<open>The text of a document holds no line break, so a line of a file holds one document.\<close>

lemma esc_char_no_newline: "chr_newline \<notin> set (esc_char c)"
  by (auto simp: esc_char_def Let_def hex_digit_def dest: arg_cong [where f = byte])

lemma print_str_no_newline: "chr_newline \<notin> set (print_str s)"
  by (auto simp: print_str_def esc_char_no_newline)

lemma show_nat_no_newline: "chr_newline \<notin> set (show_nat n)"
  by (auto simp: is_digit_def dest: show_nat_digits)

lemma join_set: "set (join sep xs) \<subseteq> set sep \<union> (\<Union>x\<in>set xs. set x)"
  by (induction sep xs rule: join.induct) auto

lemma parse_num_chars:
  assumes "parse_num s = Some (JReal l, r)"
  shows "chr_newline \<notin> set l"
proof -
  have d: "digits t = (a, b) \<Longrightarrow> c \<in> set a \<Longrightarrow> is_digit c" for t a b c
    by (auto simp: digits_def dest: set_takeWhileD)
  have n: "digits t = (a, b) \<Longrightarrow> chr_newline \<notin> set a" for t a b
    using d by (fastforce simp: is_digit_def)
  have f: "parse_frac t = Some (a, b) \<Longrightarrow> chr_newline \<notin> set a" for t a b
    by (auto simp: parse_frac_def split: list.splits if_splits prod.splits dest: n)
  have e: "parse_exp t = Some (a, b) \<Longrightarrow> chr_newline \<notin> set a" for t a b
    by (auto simp: parse_exp_def Let_def split: list.splits if_splits prod.splits dest: n)
  from assms show ?thesis
    by (auto simp: parse_num_def Let_def split: prod.splits if_splits Option.bind_splits dest: n f e)
qed

lemma print_json_no_newline: "wf_json j \<Longrightarrow> chr_newline \<notin> set (print_json j)"
proof (induction j)
  case (JReal l)
  then show ?case by (auto dest: parse_num_chars)
next
  case (JArr xs)
  then show ?case
    using join_set [of "'',''" "map print_json xs"] by (auto simp: list_all_iff)
next
  case (JObj kvs)
  have "chr_newline \<notin> set (print_json v)" if "(k, v) \<in> set kvs" for k v
    using JObj.IH [of "(k, v)" v] JObj.prems that by (auto simp: list_all_iff)
  then show ?case
    using join_set [of "'',''" "map (\<lambda>(k, v). print_str k @ '':'' @ print_json v) kvs"]
    by (fastforce simp: print_str_no_newline)
qed (auto simp: show_int_def show_nat_no_newline print_str_no_newline)

section \<open>Typed decoding\<close>

type_synonym 'a dec = "json \<Rightarrow> 'a \<Rightarrow> 'a \<times> bool"

fun dec_string :: "string dec" where
  "dec_string (JStr s) d = (s, True)"
| "dec_string JNull d = (d, True)"
| "dec_string _ d = (d, False)"

fun dec_bool :: "bool dec" where
  "dec_bool (JBool b) d = (b, True)"
| "dec_bool JNull d = (d, True)"
| "dec_bool _ d = (d, False)"

fun dec_uint64 :: "nat dec" where
  "dec_uint64 (JInt i) d = (if 0 \<le> i \<and> i < 2 ^ 64 then (nat i, True) else (d, False))"
| "dec_uint64 JNull d = (d, True)"
| "dec_uint64 _ d = (d, False)"

fun dec_int64 :: "int dec" where
  "dec_int64 (JInt i) d = (if - (2 ^ 63) \<le> i \<and> i < 2 ^ 63 then (i, True) else (d, False))"
| "dec_int64 JNull d = (d, True)"
| "dec_int64 _ d = (d, False)"

text \<open>A \<open>json.RawMessage\<close> keeps the document it is given, \<open>null\<close> included.\<close>

fun dec_raw :: "json option dec" where
  "dec_raw j d = (Some j, True)"

fun dec_list :: "'a \<Rightarrow> 'a dec \<Rightarrow> 'a list dec" where
  "dec_list z e (JArr xs) d = (map (\<lambda>x. fst (e x z)) xs, list_all (\<lambda>x. snd (e x z)) xs)"
| "dec_list z e JNull d = ([], True)"
| "dec_list z e _ d = (d, False)"

fun dec_ptr :: "'a \<Rightarrow> 'a dec \<Rightarrow> 'a option dec" where
  "dec_ptr z e JNull d = (None, True)"
| "dec_ptr z e j d = (case e j (case d of None \<Rightarrow> z | Some v \<Rightarrow> v) of (v, ok) \<Rightarrow> (Some v, ok))"

definition key_eq :: "string \<Rightarrow> string \<Rightarrow> bool" where
  "key_eq a b \<longleftrightarrow> map lower a = map lower b"

text \<open>All entries of an object that match a field, in order, each over the value before it.\<close>

fun dec_fold :: "string \<Rightarrow> 'a dec \<Rightarrow> (string \<times> json) list \<Rightarrow> 'a \<times> bool \<Rightarrow> 'a \<times> bool" where
  "dec_fold n e [] st = st"
| "dec_fold n e ((k, j) # kvs) (v, ok) =
     dec_fold n e kvs (if key_eq k n then (case e j v of (v', ok') \<Rightarrow> (v', ok \<and> ok')) else (v, ok))"

definition dec_field :: "string \<Rightarrow> 'a dec \<Rightarrow> (string \<times> json) list \<Rightarrow> 'a \<Rightarrow> 'a \<times> bool" where
  "dec_field n e kvs d = dec_fold n e kvs (d, True)"

fun dec_struct :: "((string \<times> json) list \<Rightarrow> 'a \<Rightarrow> 'a \<times> bool) \<Rightarrow> 'a dec" where
  "dec_struct f (JObj kvs) d = f kvs d"
| "dec_struct f JNull d = (d, True)"
| "dec_struct f _ d = (d, False)"

definition unmarshal :: "'a dec \<Rightarrow> string \<Rightarrow> 'a \<Rightarrow> 'a \<times> bool" where
  "unmarshal e s d = (case parse_json s of None \<Rightarrow> (d, False) | Some j \<Rightarrow> e j d)"

text \<open>A \<open>map[string]json.RawMessage\<close>: exact keys, the last duplicate wins.\<close>

fun obj_fields :: "json \<Rightarrow> (string, json) gomap" where
  "obj_fields (JObj kvs) = foldl (\<lambda>m (k, v). AList.update k v m) [] kvs"
| "obj_fields _ = []"

text \<open>Fields written with \<open>omitempty\<close>.\<close>

definition omit :: "bool \<Rightarrow> string \<Rightarrow> json \<Rightarrow> (string \<times> json) list" where
  "omit b k j = (if b then [] else [(k, j)])"

lemma dec_fold_append: "dec_fold n e (xs @ ys) st = dec_fold n e ys (dec_fold n e xs st)"
proof (induction xs arbitrary: st)
  case (Cons x xs)
  then show ?case by (cases x; cases st) simp
qed simp

lemma dec_fold_omit:
  "dec_fold n e (omit b k j) (v, ok) =
     (if b \<or> \<not> key_eq k n then (v, ok) else (case e j v of (v', ok') \<Rightarrow> (v', ok \<and> ok')))"
  by (simp add: omit_def)

lemmas dec_simps = dec_field_def dec_fold_append dec_fold_omit

end
