(* ===== verification/Base64.thy ===== *)
theory Base64
  imports Json
begin

text \<open>
  How \<^verbatim>\<open>encoding/json\<close> writes a \<open>[]byte\<close>: the standard base64 alphabet with padding, in
  a JSON string.  \<open>dec_bytes\<close> decodes it; the only fact the components use is that it gives
  the bytes back.
\<close>

definition b64_char :: "nat \<Rightarrow> char" where
  "b64_char n =
     char_of (if n < 26 then 65 + n else if n < 52 then 71 + n
              else if n < 62 then n - 4 else if n = 62 then 43 else 47)"

definition b64_value :: "char \<Rightarrow> nat option" where
  "b64_value c =
     (let b = byte c in
      if 65 \<le> b \<and> b \<le> 90 then Some (b - 65)
      else if 97 \<le> b \<and> b \<le> 122 then Some (b - 71)
      else if 48 \<le> b \<and> b \<le> 57 then Some (b + 4)
      else if b = 43 then Some 62
      else if b = 47 then Some 63
      else None)"

fun b64_encode :: "bytes \<Rightarrow> string" where
  "b64_encode [] = []"
| "b64_encode [a] =
     [b64_char (byte a div 4), b64_char (byte a mod 4 * 16), CHR ''='', CHR ''='']"
| "b64_encode [a, b] =
     [b64_char (byte a div 4), b64_char (byte a mod 4 * 16 + byte b div 16),
      b64_char (byte b mod 16 * 4), CHR ''='']"
| "b64_encode (a # b # c # r) =
     b64_char (byte a div 4) # b64_char (byte a mod 4 * 16 + byte b div 16) #
     b64_char (byte b mod 16 * 4 + byte c div 64) # b64_char (byte c mod 64) # b64_encode r"

fun b64_decode :: "string \<Rightarrow> bytes option" where
  "b64_decode [] = Some []"
| "b64_decode (w # x # y # z # r) = do {
     m \<leftarrow> b64_value w; n \<leftarrow> b64_value x;
     if z = CHR ''='' \<and> r = [] then
       (if y = CHR ''='' then Some [char_of (m * 4 + n div 16)]
        else do {
          p \<leftarrow> b64_value y;
          Some [char_of (m * 4 + n div 16), char_of (n mod 16 * 16 + p div 4)] })
     else do {
       p \<leftarrow> b64_value y; q \<leftarrow> b64_value z; t \<leftarrow> b64_decode r;
       Some (char_of (m * 4 + n div 16) # char_of (n mod 16 * 16 + p div 4) # char_of (p mod 4 * 64 + q) # t) } }"
| "b64_decode _ = None"

fun dec_bytes :: "bytes dec" where
  "dec_bytes (JStr s) d = (case b64_decode s of None \<Rightarrow> (d, False) | Some b \<Rightarrow> (b, True))"
| "dec_bytes JNull d = ([], True)"
| "dec_bytes _ d = (d, False)"

lemma b64_value_char [simp]: "n < 64 \<Longrightarrow> b64_value (b64_char n) = Some n"
  by (auto simp: b64_value_def b64_char_def Let_def)

lemma b64_char_not_pad: "n < 64 \<Longrightarrow> b64_char n \<noteq> CHR ''=''"
  using b64_value_char [of n] by (auto simp: b64_value_def)

lemma byte_bounds [simp]:
  "byte a div 4 < 64" "byte a mod 4 * 16 < 64" "byte a mod 4 * 16 + byte b div 16 < 64"
  "byte b mod 16 * 4 < 64" "byte b mod 16 * 4 + byte c div 64 < 64" "byte c mod 64 < (64::nat)"
  using nat_of_char_less_256 [of a] nat_of_char_less_256 [of b] nat_of_char_less_256 [of c]
  by (linarith | simp)+

lemma byte_parts [simp]:
  "byte b div 16 div 16 = (0::nat)" "byte c div 64 div 4 = (0::nat)"
  "byte b div 16 mod 16 = (byte b div 16 :: nat)" "byte c div 64 mod 4 = (byte c div 64 :: nat)"
  "byte b div 16 < (16::nat)" "byte c div 64 < (4::nat)"
proof -
  show "byte b div 16 < (16::nat)" "byte c div 64 < (4::nat)"
    using nat_of_char_less_256 [of b] nat_of_char_less_256 [of c] by linarith+
  then show "byte b div 16 div 16 = (0::nat)" "byte c div 64 div 4 = (0::nat)"
    "byte b div 16 mod 16 = (byte b div 16 :: nat)" "byte c div 64 mod 4 = (byte c div 64 :: nat)"
    by simp_all
qed

lemma b64_decode_encode [simp, codec]: "b64_decode (b64_encode s) = Some s"
proof (induction s rule: b64_encode.induct)
  case (4 a b c r)
  then show ?case
    using b64_char_not_pad [of "byte c mod 64"] by (simp flip: add.assoc)
qed (simp_all add: b64_char_not_pad flip: add.assoc)

lemma dec_bytes_encode [codec]: "dec_bytes (JStr (b64_encode s)) d = (s, True)"
  by simp

end
