(* ===== verification/Core.thy ===== *)
theory Core
  imports Base64
begin

text \<open>
  Package \<^verbatim>\<open>internal/core\<close>: the events of a conversation and the state reduced from them,
  commands and receipts, the history checkpoint, and the two policies on pending requests.
  Every struct is a record with the field order of the source; \<open>X_json\<close> is what
  \<open>json.Marshal\<close> writes for it (struct tags included) and \<open>dec_X\<close> how \<open>json.Unmarshal\<close>
  assigns it.  A \<open>json.RawMessage\<close> is the document it holds, \<open>None\<close> when empty.
\<close>

section \<open>Events\<close>

record response_metadata =
  rm_model :: string
  rm_effort :: string
  rm_model_source :: string
  rm_effort_source :: string
  rm_turn :: string
  rm_phase :: string
  rm_completion :: string

record event =
  ev_session :: string
  ev_run :: string
  ev_seq :: nat
  ev_time :: int
  ev_kind :: string
  ev_text :: string
  ev_request :: string
  ev_payload :: "json option"
  ev_raw :: bytes
  ev_response :: "response_metadata option"

definition zero_metadata :: response_metadata where
  "zero_metadata = \<lparr>rm_model = [], rm_effort = [], rm_model_source = [], rm_effort_source = [],
     rm_turn = [], rm_phase = [], rm_completion = []\<rparr>"

definition zero_event :: event where
  "zero_event = \<lparr>ev_session = [], ev_run = [], ev_seq = 0, ev_time = 0, ev_kind = [], ev_text = [],
     ev_request = [], ev_payload = None, ev_raw = [], ev_response = None\<rparr>"

definition metadata_json :: "response_metadata \<Rightarrow> json" where
  "metadata_json m = JObj (
     omit (rm_model m = []) ''model'' (JStr (rm_model m)) @
     omit (rm_effort m = []) ''effort'' (JStr (rm_effort m)) @
     omit (rm_model_source m = []) ''model_source'' (JStr (rm_model_source m)) @
     omit (rm_effort_source m = []) ''effort_source'' (JStr (rm_effort_source m)) @
     omit (rm_turn m = []) ''turn_id'' (JStr (rm_turn m)) @
     omit (rm_phase m = []) ''phase'' (JStr (rm_phase m)) @
     omit (rm_completion m = []) ''completion_json'' (JStr (rm_completion m)))"

definition dec_metadata :: "response_metadata dec" where
  "dec_metadata = dec_struct (\<lambda>kvs m.
     let (a, oka) = dec_field ''model'' dec_string kvs (rm_model m);
         (b, okb) = dec_field ''effort'' dec_string kvs (rm_effort m);
         (c, okc) = dec_field ''model_source'' dec_string kvs (rm_model_source m);
         (d, okd) = dec_field ''effort_source'' dec_string kvs (rm_effort_source m);
         (e, oke) = dec_field ''turn_id'' dec_string kvs (rm_turn m);
         (f, okf) = dec_field ''phase'' dec_string kvs (rm_phase m);
         (g, okg) = dec_field ''completion_json'' dec_string kvs (rm_completion m)
     in (\<lparr>rm_model = a, rm_effort = b, rm_model_source = c, rm_effort_source = d, rm_turn = e,
          rm_phase = f, rm_completion = g\<rparr>, oka \<and> okb \<and> okc \<and> okd \<and> oke \<and> okf \<and> okg))"

definition event_json :: "event \<Rightarrow> json" where
  "event_json e = JObj (
     [(''session_id'', JStr (ev_session e)), (''run_id'', JStr (ev_run e)),
      (''seq'', JInt (int (ev_seq e))), (''time_ms'', JInt (ev_time e)), (''kind'', JStr (ev_kind e))] @
     omit (ev_text e = []) ''text'' (JStr (ev_text e)) @
     omit (ev_request e = []) ''request_id'' (JStr (ev_request e)) @
     (case ev_payload e of None \<Rightarrow> [] | Some p \<Rightarrow> [(''payload'', p)]) @
     omit (ev_raw e = []) ''raw'' (JStr (b64_encode (ev_raw e))) @
     (case ev_response e of None \<Rightarrow> [] | Some m \<Rightarrow> [(''response'', metadata_json m)]))"

definition dec_event :: "event dec" where
  "dec_event = dec_struct (\<lambda>kvs v.
     let (a, oka) = dec_field ''session_id'' dec_string kvs (ev_session v);
         (b, okb) = dec_field ''run_id'' dec_string kvs (ev_run v);
         (c, okc) = dec_field ''seq'' dec_uint64 kvs (ev_seq v);
         (d, okd) = dec_field ''time_ms'' dec_int64 kvs (ev_time v);
         (e, oke) = dec_field ''kind'' dec_string kvs (ev_kind v);
         (f, okf) = dec_field ''text'' dec_string kvs (ev_text v);
         (g, okg) = dec_field ''request_id'' dec_string kvs (ev_request v);
         (h, okh) = dec_field ''payload'' dec_raw kvs (ev_payload v);
         (i, oki) = dec_field ''raw'' dec_bytes kvs (ev_raw v);
         (j, okj) = dec_field ''response'' (dec_ptr zero_metadata dec_metadata) kvs (ev_response v)
     in (\<lparr>ev_session = a, ev_run = b, ev_seq = c, ev_time = d, ev_kind = e, ev_text = f,
          ev_request = g, ev_payload = h, ev_raw = i, ev_response = j\<rparr>,
         oka \<and> okb \<and> okc \<and> okd \<and> oke \<and> okf \<and> okg \<and> okh \<and> oki \<and> okj))"

section \<open>The reduced state of a conversation\<close>

record snapshot =
  sn_permission :: string
  sn_state :: string
  sn_run :: string
  sn_vendor :: string
  sn_last :: nat
  sn_pending :: "event list"
  sn_queued :: string
  sn_queued_id :: string

definition zero_snapshot :: snapshot where
  "zero_snapshot = \<lparr>sn_permission = [], sn_state = [], sn_run = [], sn_vendor = [], sn_last = 0,
     sn_pending = [], sn_queued = [], sn_queued_id = []\<rparr>"

text \<open>An empty \<open>Pending\<close> is a nil slice, which is written \<open>null\<close>.\<close>

definition events_json :: "event list \<Rightarrow> json" where
  "events_json es = (if es = [] then JNull else JArr (map event_json es))"

definition snapshot_json :: "snapshot \<Rightarrow> json" where
  "snapshot_json s = JObj (
     [(''permission_mode'', JStr (sn_permission s)), (''state'', JStr (sn_state s)),
      (''run_id'', JStr (sn_run s)), (''vendor_id'', JStr (sn_vendor s)),
      (''last_seq'', JInt (int (sn_last s))), (''pending'', events_json (sn_pending s))] @
     omit (sn_queued s = []) ''queued'' (JStr (sn_queued s)) @
     omit (sn_queued_id s = []) ''queued_id'' (JStr (sn_queued_id s)))"

definition dec_snapshot :: "snapshot dec" where
  "dec_snapshot = dec_struct (\<lambda>kvs v.
     let (a, oka) = dec_field ''permission_mode'' dec_string kvs (sn_permission v);
         (b, okb) = dec_field ''state'' dec_string kvs (sn_state v);
         (c, okc) = dec_field ''run_id'' dec_string kvs (sn_run v);
         (d, okd) = dec_field ''vendor_id'' dec_string kvs (sn_vendor v);
         (e, oke) = dec_field ''last_seq'' dec_uint64 kvs (sn_last v);
         (f, okf) = dec_field ''pending'' (dec_list zero_event dec_event) kvs (sn_pending v);
         (g, okg) = dec_field ''queued'' dec_string kvs (sn_queued v);
         (h, okh) = dec_field ''queued_id'' dec_string kvs (sn_queued_id v)
     in (\<lparr>sn_permission = a, sn_state = b, sn_run = c, sn_vendor = d, sn_last = e, sn_pending = f,
          sn_queued = g, sn_queued_id = h\<rparr>,
         oka \<and> okb \<and> okc \<and> okd \<and> oke \<and> okf \<and> okg \<and> okh))"

section \<open>History boundaries\<close>

definition HistoryCheckpointKind :: string where
  "HistoryCheckpointKind = ''history_checkpoint''"
definition HistoryTrimmedKind :: string where
  "HistoryTrimmedKind = ''history_trimmed''"
definition HistoryShedKind :: string where
  "HistoryShedKind = ''history_shed''"
definition ForkBoundaryKind :: string where
  "ForkBoundaryKind = ''fork_boundary''"

lemmas kind_defs = HistoryCheckpointKind_def HistoryTrimmedKind_def HistoryShedKind_def
  ForkBoundaryKind_def

record checkpoint =
  cp_version :: int
  cp_snapshot :: snapshot
  cp_resume :: "event list"

definition zero_checkpoint :: checkpoint where
  "zero_checkpoint = \<lparr>cp_version = 0, cp_snapshot = zero_snapshot, cp_resume = []\<rparr>"

definition checkpoint_json :: "checkpoint \<Rightarrow> json" where
  "checkpoint_json c = JObj (
     [(''version'', JInt (cp_version c)), (''snapshot'', snapshot_json (cp_snapshot c))] @
     omit (cp_resume c = []) ''resume'' (events_json (cp_resume c)))"

definition dec_checkpoint :: "checkpoint dec" where
  "dec_checkpoint = dec_struct (\<lambda>kvs v.
     let (a, oka) = dec_field ''version'' dec_int64 kvs (cp_version v);
         (b, okb) = dec_field ''snapshot'' dec_snapshot kvs (cp_snapshot v);
         (c, okc) = dec_field ''resume'' (dec_list zero_event dec_event) kvs (cp_resume v)
     in (\<lparr>cp_version = a, cp_snapshot = b, cp_resume = c\<rparr>, oka \<and> okb \<and> okc))"

text \<open>\<open>json.Unmarshal(e.Payload, &c)\<close>: an empty payload is not a document.\<close>

definition unmarshal_payload :: "'a dec \<Rightarrow> json option \<Rightarrow> 'a \<Rightarrow> 'a \<times> bool" where
  "unmarshal_payload d p v = (case p of None \<Rightarrow> (v, False) | Some j \<Rightarrow> d j v)"

definition boundary_json :: "nat \<Rightarrow> json" where
  "boundary_json through = JObj [(''through'', JInt (int through))]"

definition dec_boundary :: "nat dec" where
  "dec_boundary = dec_struct (\<lambda>kvs v. dec_field ''through'' dec_uint64 kvs v)"

definition HistoryFloor :: "string \<Rightarrow> json option \<Rightarrow> nat" where
  "HistoryFloor kind payload =
     (if kind \<noteq> HistoryTrimmedKind then 0
      else case unmarshal_payload dec_boundary payload 0 of (v, ok) \<Rightarrow> if ok then v else 0)"

section \<open>Commands and receipts\<close>

record answer_selection =
  as_selected :: "string list"
  as_other :: string

record command =
  cm_busy :: bool
  cm_run :: string
  cm_client :: string
  cm_text :: string
  cm_request :: string
  cm_allow :: bool
  cm_answers :: "(string, string) gomap"
  cm_selections :: "(string, answer_selection) gomap"

record receipt =
  rc_client :: string
  rc_status :: string

definition zero_command :: command where
  "zero_command = \<lparr>cm_busy = False, cm_run = [], cm_client = [], cm_text = [], cm_request = [],
     cm_allow = False, cm_answers = [], cm_selections = []\<rparr>"

text \<open>\<open>json.Marshal\<close> writes a map in the order of its keys.\<close>

definition map_json :: "('v \<Rightarrow> json) \<Rightarrow> (string, 'v) gomap \<Rightarrow> json" where
  "map_json f m = JObj (map (\<lambda>(k, v). (k, f v)) (sort_key fst m))"

definition selection_json :: "answer_selection \<Rightarrow> json" where
  "selection_json a = JObj (
     [(''selected'', JArr (map JStr (as_selected a)))] @
     omit (as_other a = []) ''other'' (JStr (as_other a)))"

definition command_json :: "command \<Rightarrow> json" where
  "command_json c = JObj (
     omit (\<not> cm_busy c) ''busy'' (JBool True) @
     [(''run_id'', JStr (cm_run c)), (''client_id'', JStr (cm_client c))] @
     omit (cm_text c = []) ''text'' (JStr (cm_text c)) @
     omit (cm_request c = []) ''request_id'' (JStr (cm_request c)) @
     omit (\<not> cm_allow c) ''allow'' (JBool True) @
     omit (cm_answers c = []) ''answers'' (map_json JStr (cm_answers c)) @
     omit (cm_selections c = []) ''selections'' (map_json selection_json (cm_selections c)))"

section \<open>Which pending requests a policy may answer\<close>

definition CodexElicitation :: string where
  "CodexElicitation = ''mcpServer/elicitation/request''"
definition CodexAsyncQuestion :: string where
  "CodexAsyncQuestion = ''agentMessage/questions''"

definition Question :: "string \<Rightarrow> bool" where
  "Question name \<longleftrightarrow>
     name \<in> {''AskUserQuestion'', ''item/tool/requestUserInput'', CodexAsyncQuestion, CodexElicitation}"

definition core_AutomaticApproval :: "string \<Rightarrow> bool" where
  "core_AutomaticApproval name \<longleftrightarrow> \<not> Question name"

text \<open>A message event, for the concrete instances of the theorems.\<close>

definition sample_event :: "nat \<Rightarrow> event" where
  "sample_event n = zero_event\<lparr>ev_session := ''s'', ev_run := ''r'', ev_seq := n, ev_time := 1,
     ev_kind := ''message'', ev_text := ''hi''\<rparr>"

section \<open>Decoding what was encoded\<close>

definition ok_event :: "event \<Rightarrow> bool" where
  "ok_event e \<longleftrightarrow> ev_seq e < 2 ^ 64 \<and> - (2 ^ 63) \<le> ev_time e \<and> ev_time e < 2 ^ 63 \<and>
     (case ev_payload e of None \<Rightarrow> True | Some p \<Rightarrow> wf_json p)"

definition ok_snapshot :: "snapshot \<Rightarrow> bool" where
  "ok_snapshot s \<longleftrightarrow> sn_last s < 2 ^ 64 \<and> list_all ok_event (sn_pending s)"

definition ok_checkpoint :: "checkpoint \<Rightarrow> bool" where
  "ok_checkpoint c \<longleftrightarrow> - (2 ^ 63) \<le> cp_version c \<and> cp_version c < 2 ^ 63 \<and>
     ok_snapshot (cp_snapshot c) \<and> list_all ok_event (cp_resume c)"

lemmas key_simps = key_eq_def lower_def

lemma dec_metadata_json [codec]: "dec_metadata (metadata_json m) zero_metadata = (m, True)"
  by (simp add: dec_metadata_def metadata_json_def dec_simps key_simps zero_metadata_def)

lemma dec_event_json [codec]:
  assumes "ok_event e"
  shows "dec_event (event_json e) zero_event = (e, True)"
proof -
  have "dec_ptr zero_metadata dec_metadata (metadata_json m) None = (Some m, True)" for m
    using dec_metadata_json [of m] by (simp add: metadata_json_def)
  with assms show ?thesis
    by (cases "ev_payload e"; cases "ev_response e")
      (simp_all add: dec_event_def event_json_def dec_simps key_simps zero_event_def ok_event_def)
qed

lemma dec_events_json [codec]:
  "list_all ok_event es \<Longrightarrow> dec_list zero_event dec_event (events_json es) [] = (es, True)"
  by (auto simp: events_json_def dec_event_json list_all_iff intro: map_idI)

lemma dec_snapshot_json [codec]:
  "ok_snapshot s \<Longrightarrow> dec_snapshot (snapshot_json s) zero_snapshot = (s, True)"
  by (simp add: dec_snapshot_def snapshot_json_def dec_simps key_simps zero_snapshot_def
      ok_snapshot_def dec_events_json)

lemma dec_checkpoint_json [codec]:
  "ok_checkpoint c \<Longrightarrow> dec_checkpoint (checkpoint_json c) zero_checkpoint = (c, True)"
  by (simp add: dec_checkpoint_def checkpoint_json_def dec_simps key_simps zero_checkpoint_def
      ok_checkpoint_def dec_events_json dec_snapshot_json)

lemma wf_metadata_json: "wf_json (metadata_json m)"
  by (simp add: metadata_json_def omit_def)

lemma wf_event_json: "ok_event e \<Longrightarrow> wf_json (event_json e)"
  by (auto simp: event_json_def omit_def ok_event_def wf_metadata_json split: option.splits)

lemma wf_events_json: "list_all ok_event es \<Longrightarrow> wf_json (events_json es)"
  by (auto simp: events_json_def list_all_iff wf_event_json)

lemma wf_checkpoint_json: "ok_checkpoint c \<Longrightarrow> wf_json (checkpoint_json c)"
  by (simp add: checkpoint_json_def snapshot_json_def omit_def ok_checkpoint_def ok_snapshot_def
      wf_events_json)

lemma HistoryFloor_boundary:
  "through < 2 ^ 64 \<Longrightarrow> HistoryFloor HistoryTrimmedKind (Some (boundary_json through)) = through"
  by (simp add: HistoryFloor_def unmarshal_payload_def dec_boundary_def boundary_json_def dec_simps
      key_simps)

end
