(* ===== verification/Journal.thy ===== *)
theory Journal
  imports Core
begin

text \<open>
  Package \<^verbatim>\<open>internal/journal\<close>: the append-only file of a conversation.  The file is its
  bytes.  One line is one committed record: an array of events written by \<open>AppendBatch\<close>, or a
  single event written by \<open>Compact\<close> or \<open>Shed\<close>.  What the operating system answers to each call
  is the argument \<open>io\<close>, so that every early return of the source is a branch here; a write that
  fails leaves some prefix of its bytes behind.

  Sequence numbers are \<open>uint64\<close> in the source and naturals here; the decoder refuses a number
  of 2^64 or more, so the two agree as long as no log reaches that many events.
\<close>

datatype io_call = Io_open | Io_sync_dir | Io_write_partial | Io_truncate | Io_sync | Io_seek
  | Io_read | Io_write | Io_create_temp | Io_rename | Io_stat

record io_env =
  io_ok :: "io_call \<Rightarrow> bool"
  io_written :: nat      \<comment> \<open>bytes a failing write leaves behind\<close>
  io_now :: int          \<comment> \<open>\<open>time.Now().UnixMilli()\<close>\<close>

datatype journal_error =
    Bad_json
  | Empty_committed_batch
  | Invalid_history_checkpoint
  | Checkpoint_not_first
  | Noncontiguous_sequence
  | Corrupt_record nat journal_error
  | Empty_journal_batch
  | Invalid_checkpoint
  | Checkpoint_beyond_journal
  | Io_error io_call
  | Context_done
  | Compaction_commit_error

record log =
  lg_file :: bytes
  lg_events :: "event list"

section \<open>Decoding a committed record\<close>

definition lastSeq :: "event list \<Rightarrow> nat" where
  "lastSeq es = last_or 0 (map ev_seq es)"

fun check_batch :: "nat \<Rightarrow> event list \<Rightarrow> journal_error option" where
  "check_batch after [] = None"
| "check_batch after (v # vs) =
     (if ev_kind v = HistoryCheckpointKind then Some Checkpoint_not_first
      else if ev_seq v \<noteq> after + 1 then Some Noncontiguous_sequence
      else check_batch (after + 1) vs)"

definition valid_checkpoint :: "event \<Rightarrow> bool" where
  "valid_checkpoint e =
     (case unmarshal_payload dec_checkpoint (ev_payload e) zero_checkpoint of
        (c, ok) \<Rightarrow> ok \<and> cp_version c = 1 \<and> ev_seq e \<noteq> 0 \<and> sn_last (cp_snapshot c) = ev_seq e)"

definition unmarshal_batch :: "bytes \<Rightarrow> event list option" where
  "unmarshal_batch b =
     (if b \<noteq> [] \<and> hd b = CHR ''['' then
        (case unmarshal (dec_list zero_event dec_event) b [] of (es, ok) \<Rightarrow> if ok then Some es else None)
      else
        (case unmarshal dec_event b zero_event of (e, ok) \<Rightarrow> if ok then Some [e] else None))"

definition decode :: "bytes \<Rightarrow> nat \<Rightarrow> journal_error + event list" where
  "decode b after =
     (case unmarshal_batch b of
        None \<Rightarrow> Inl Bad_json
      | Some batch \<Rightarrow>
          if batch = [] then Inl Empty_committed_batch
          else if after = 0 \<and> length batch = 1 \<and> ev_kind (hd batch) = HistoryCheckpointKind then
            (if valid_checkpoint (hd batch) then Inr batch else Inl Invalid_history_checkpoint)
          else
            (case check_batch after batch of
               Some err \<Rightarrow> Inl err
             | None \<Rightarrow> Inr batch))"

section \<open>Reading lines\<close>

text \<open>\<open>ReadBytes('\n')\<close>: the next complete line and the rest, or nothing at the end of the file.\<close>

definition read_bytes :: "bytes \<Rightarrow> (bytes \<times> bytes) option" where
  "read_bytes s =
     (if chr_newline \<in> set s
      then Some (takeWhile (\<lambda>c. c \<noteq> chr_newline) s @ [chr_newline], tl (dropWhile (\<lambda>c. c \<noteq> chr_newline) s))
      else None)"

lemma read_bytes_shorter: "read_bytes s = Some (l, r) \<Longrightarrow> length r < length s"
proof -
  let ?d = "dropWhile (\<lambda>c. c \<noteq> chr_newline) s"
  assume "read_bytes s = Some (l, r)"
  then have "chr_newline \<in> set s" and r: "r = tl ?d"
    by (simp_all add: read_bytes_def split: if_splits)
  then have "?d \<noteq> []" by simp
  then have "length r < length ?d" by (simp add: r)
  also have "\<dots> \<le> length s" by (rule length_dropWhile_le)
  finally show ?thesis .
qed

text \<open>
  The loop of \<open>Open\<close>, \<open>Read\<close> and \<open>ReadSince\<close>: decode line after line onto the events read so
  far.  \<open>alive i\<close> is \<open>ctx.Err() == nil\<close> at the i-th turn.
\<close>

function scan :: "(nat \<Rightarrow> bool) \<Rightarrow> nat \<Rightarrow> bytes \<Rightarrow> nat \<Rightarrow> nat \<Rightarrow> event list \<Rightarrow>
    (nat \<times> journal_error) + (event list \<times> nat \<times> bytes)" where
  "scan alive i s off after evs =
     (if \<not> alive i then Inl (off, Context_done)
      else case read_bytes s of
        None \<Rightarrow> Inr (evs, off, s)
      | Some (b, r) \<Rightarrow>
          (case decode b (last_or after (map ev_seq evs)) of
             Inl e \<Rightarrow> Inl (off, Corrupt_record off e)
           | Inr batch \<Rightarrow> scan alive (Suc i) r (off + length b) after (evs @ batch)))"
  by pat_completeness auto
termination
  by (relation "measure (\<lambda>(alive, i, s, off, after, evs). length s)") (auto dest: read_bytes_shorter)

declare scan.simps [simp del]

section \<open>Operations\<close>

record disk =
  dk_file :: "bytes option"
  dk_partial :: "bytes list"     \<comment> \<open>the \<open>.partial-\<dots>\<close> files kept for diagnostics\<close>

definition Open :: "io_env \<Rightarrow> disk \<Rightarrow> (journal_error + log) \<times> disk" where
  "Open io d =
     (if \<not> io_ok io Io_open then (Inl (Io_error Io_open), d)
      else
        let content = (case dk_file d of None \<Rightarrow> [] | Some b \<Rightarrow> b);
            d = d\<lparr>dk_file := Some content\<rparr>
        in if \<not> io_ok io Io_sync_dir then (Inl (Io_error Io_sync_dir), d)
        else if \<not> io_ok io Io_read then (Inl (Io_error Io_read), d)
        else case scan (\<lambda>_. True) 0 content 0 0 [] of
            Inl (off, e) \<Rightarrow> (Inl e, d)
          | Inr (evs, off, b) \<Rightarrow>
              if b \<noteq> [] then
                (if \<not> io_ok io Io_write_partial then (Inl (Io_error Io_write_partial), d)
                 else
                   let d = d\<lparr>dk_partial := b # dk_partial d\<rparr>
                   in if \<not> io_ok io Io_truncate then (Inl (Io_error Io_truncate), d)
                   else
                     let d = d\<lparr>dk_file := Some (take off content)\<rparr>
                     in if \<not> io_ok io Io_sync then (Inl (Io_error Io_sync), d)
                     else if \<not> io_ok io Io_seek then (Inl (Io_error Io_seek), d)
                     else (Inr \<lparr>lg_file = take off content, lg_events = evs\<rparr>, d))
              else if \<not> io_ok io Io_seek then (Inl (Io_error Io_seek), d)
              else (Inr \<lparr>lg_file = content, lg_events = evs\<rparr>, d))"

fun number_batch :: "int \<Rightarrow> nat \<Rightarrow> event list \<Rightarrow> event list" where
  "number_batch now after [] = []"
| "number_batch now after (v # vs) =
     v\<lparr>ev_seq := after + 1, ev_time := (if ev_time v = 0 then now else ev_time v)\<rparr>
     # number_batch now (after + 1) vs"

definition batch_line :: "event list \<Rightarrow> bytes" where
  "batch_line b = print_json (JArr (map event_json b)) @ [chr_newline]"

definition AppendBatch :: "io_env \<Rightarrow> log \<Rightarrow> event list \<Rightarrow> (journal_error + event list) \<times> log" where
  "AppendBatch io l batch0 =
     (if batch0 = [] then (Inl Empty_journal_batch, l)
      else
        let batch = number_batch (io_now io) (lastSeq (lg_events l)) batch0;
            b = batch_line batch
        in if \<not> io_ok io Io_write then
             (Inl (Io_error Io_write), l\<lparr>lg_file := lg_file l @ take (io_written io) b\<rparr>)
           else
             let l = l\<lparr>lg_file := lg_file l @ b\<rparr>
             in if \<not> io_ok io Io_sync then (Inl (Io_error Io_sync), l)
                else (Inr batch, l\<lparr>lg_events := lg_events l @ batch\<rparr>))"

definition Append :: "io_env \<Rightarrow> log \<Rightarrow> event \<Rightarrow> (journal_error + event) \<times> log" where
  "Append io l v =
     (case AppendBatch io l [v] of
        (Inl e, l') \<Rightarrow> (Inl e, l')
      | (Inr batch, l') \<Rightarrow> (Inr (hd batch), l'))"

text \<open>\<open>sort.Search\<close>: the binary search of the standard library.\<close>

function sort_search :: "(nat \<Rightarrow> bool) \<Rightarrow> nat \<Rightarrow> nat \<Rightarrow> nat" where
  "sort_search f i j =
     (if i < j then
        (let h = (i + j) div 2
         in if \<not> f h then sort_search f (h + 1) j else sort_search f i h)
      else i)"
  by pat_completeness auto
termination
  by (relation "measure (\<lambda>(f, i, j). j - i)") auto

declare sort_search.simps [simp del]

definition events_after :: "event list \<Rightarrow> nat \<Rightarrow> int \<Rightarrow> event list" where
  "events_after es seq limit =
     (let start = sort_search (\<lambda>i. seq < ev_seq (es ! i)) 0 (length es);
          stop = start + min (length es - start) (nat (max 0 limit))
      in take (stop - start) (drop start es))"

definition After :: "log \<Rightarrow> nat \<Rightarrow> int \<Rightarrow> event list" where
  "After l seq limit = events_after (lg_events l) seq limit"

definition All :: "log \<Rightarrow> event list" where
  "All l = After l 0 (2 ^ 63 - 1)"

definition Read :: "io_env \<Rightarrow> bytes option \<Rightarrow> journal_error + event list" where
  "Read io content =
     (case content of
        None \<Rightarrow> Inr []
      | Some s \<Rightarrow>
          if \<not> io_ok io Io_open then Inl (Io_error Io_open)
          else if \<not> io_ok io Io_read then Inl (Io_error Io_read)
          else case scan (\<lambda>_. True) 0 s 0 0 [] of
              Inl (off, Corrupt_record _ e) \<Rightarrow> Inl e
            | Inl (off, e) \<Rightarrow> Inl e
            | Inr (evs, off, b) \<Rightarrow> Inr evs)"

definition Size :: "io_env \<Rightarrow> log \<Rightarrow> journal_error + nat" where
  "Size io l = (if io_ok io Io_stat then Inr (length (lg_file l)) else Inl (Io_error Io_stat))"

definition event_line :: "event \<Rightarrow> bytes" where
  "event_line e = print_json (event_json e) @ [chr_newline]"

text \<open>
  \<open>Compact\<close> and \<open>Shed\<close> write the kept events to a new file and rename it over the old one.
  When only the directory sync fails the log has already moved to the new file.
\<close>

definition rewrite :: "io_env \<Rightarrow> log \<Rightarrow> event list \<Rightarrow> journal_error option \<times> log" where
  "rewrite io l keep =
     (if \<not> io_ok io Io_create_temp then (Some (Io_error Io_create_temp), l)
      else if \<not> io_ok io Io_write then (Some (Io_error Io_write), l)
      else if \<not> io_ok io Io_sync then (Some (Io_error Io_sync), l)
      else if \<not> io_ok io Io_rename then (Some (Io_error Io_rename), l)
      else
        let l = l\<lparr>lg_file := concat (map event_line keep), lg_events := keep\<rparr>
        in if \<not> io_ok io Io_sync_dir then (Some Compaction_commit_error, l) else (None, l))"

definition compact_events :: "event \<Rightarrow> event list \<Rightarrow> event list" where
  "compact_events cp es = cp # filter (\<lambda>e. ev_seq cp < ev_seq e) es"

definition Compact :: "io_env \<Rightarrow> log \<Rightarrow> event \<Rightarrow> journal_error option \<times> log" where
  "Compact io l checkpoint =
     (if ev_kind checkpoint \<noteq> HistoryCheckpointKind \<or> ev_seq checkpoint = 0
      then (Some Invalid_checkpoint, l)
      else case decode (print_json (event_json checkpoint)) 0 of
        Inl e \<Rightarrow> (Some e, l)
      | Inr _ \<Rightarrow>
          if lg_events l = [] \<or> ev_seq checkpoint < ev_seq (hd (lg_events l))
             \<or> lastSeq (lg_events l) < ev_seq checkpoint
          then (Some Checkpoint_beyond_journal, l)
          else rewrite io l (compact_events checkpoint (lg_events l)))"

definition shed_event :: "nat \<Rightarrow> event \<Rightarrow> event" where
  "shed_event through e =
     (if ev_kind e = ''raw'' \<and> ev_seq e \<le> through \<and> ev_raw e \<noteq> [] then e\<lparr>ev_raw := []\<rparr> else e)"

definition shed_freed :: "nat \<Rightarrow> event list \<Rightarrow> nat" where
  "shed_freed through es =
     sum_list (map (\<lambda>e. if ev_kind e = ''raw'' \<and> ev_seq e \<le> through \<and> ev_raw e \<noteq> []
                        then length (ev_raw e) else 0) es)"

definition Shed :: "io_env \<Rightarrow> log \<Rightarrow> nat \<Rightarrow> nat \<times> journal_error option \<times> log" where
  "Shed io l through =
     (let keep = map (shed_event through) (lg_events l);
          freed = shed_freed through (lg_events l)
      in if freed = 0 then (0, None, l)
         else case rewrite io l keep of
             (None, l') \<Rightarrow> (freed, None, l')
           | (Some Compaction_commit_error, l') \<Rightarrow> (freed, Some Compaction_commit_error, l')
           | (Some e, l') \<Rightarrow> (0, Some e, l'))"

definition raw_bytes :: "event list \<Rightarrow> nat" where
  "raw_bytes es = sum_list (map (\<lambda>e. if ev_kind e = ''raw'' then length (ev_raw e) else 0) es)"

definition RawBytes :: "log \<Rightarrow> nat" where
  "RawBytes l = raw_bytes (lg_events l)"

subsection \<open>Incremental reading\<close>

record file_info =
  fi_inode :: nat
  fi_size :: nat
  fi_mtime :: int

record jfile =
  fl_inode :: nat
  fl_mtime :: int
  fl_bytes :: bytes

definition stat_file :: "jfile \<Rightarrow> file_info" where
  "stat_file f = \<lparr>fi_inode = fl_inode f, fi_size = length (fl_bytes f), fi_mtime = fl_mtime f\<rparr>"

record cursor =
  cu_offset :: nat
  cu_seq :: nat
  cu_info :: "file_info option"

definition zero_cursor :: cursor where
  "zero_cursor = \<lparr>cu_offset = 0, cu_seq = 0, cu_info = None\<rparr>"

record read_result =
  rr_events :: "event list"
  rr_next :: cursor
  rr_reset :: bool
  rr_error :: "journal_error option"

definition needs_reset :: "cursor \<Rightarrow> file_info \<Rightarrow> bool" where
  "needs_reset c i =
     (case cu_info c of
        None \<Rightarrow> True
      | Some p \<Rightarrow> fi_inode p \<noteq> fi_inode i \<or> fi_size i < fi_size p
                  \<or> (fi_size i = fi_size p \<and> fi_mtime i \<noteq> fi_mtime p))"

definition ReadSince :: "io_env \<Rightarrow> (nat \<Rightarrow> bool) \<Rightarrow> jfile option \<Rightarrow> cursor \<Rightarrow> read_result" where
  "ReadSince io alive fopt previous =
     (case fopt of
        None \<Rightarrow> \<lparr>rr_events = [], rr_next = zero_cursor, rr_reset = True, rr_error = None\<rparr>
      | Some f \<Rightarrow>
          let failed = (\<lambda>reset e. \<lparr>rr_events = [], rr_next = previous, rr_reset = reset, rr_error = Some e\<rparr>)
          in if \<not> io_ok io Io_open then failed False (Io_error Io_open)
          else if \<not> io_ok io Io_stat then failed False (Io_error Io_stat)
          else
            let info = stat_file f;
                reset = needs_reset previous info;
                next = (if reset then zero_cursor else previous)\<lparr>cu_info := Some info\<rparr>
            in if \<not> io_ok io Io_seek then failed reset (Io_error Io_seek)
            else if \<not> io_ok io Io_read then failed reset (Io_error Io_read)
            else case scan alive 0 (drop (cu_offset next) (fl_bytes f)) (cu_offset next) (cu_seq next) [] of
                Inl (off, e) \<Rightarrow> failed reset e
              | Inr (evs, off, b) \<Rightarrow>
                  \<lparr>rr_events = evs,
                   rr_next = next\<lparr>cu_offset := off, cu_seq := last_or (cu_seq next) (map ev_seq evs)\<rparr>,
                   rr_reset = reset, rr_error = None\<rparr>)"


section \<open>The shape of a log\<close>

fun contiguous :: "nat \<Rightarrow> event list \<Rightarrow> bool" where
  "contiguous n [] = True"
| "contiguous n (e # es) \<longleftrightarrow>
     ev_seq e = n + 1 \<and> ev_kind e \<noteq> HistoryCheckpointKind \<and> contiguous (n + 1) es"

text \<open>Events numbered from 1, or from the sequence of a leading checkpoint that is valid.\<close>

definition log_shape :: "event list \<Rightarrow> bool" where
  "log_shape es =
     (case es of [] \<Rightarrow> True
      | e # r \<Rightarrow> if ev_kind e = HistoryCheckpointKind then valid_checkpoint e \<and> contiguous (ev_seq e) r
               else contiguous 0 es)"

abbreviation seq_from :: "nat \<Rightarrow> event list \<Rightarrow> nat" where
  "seq_from n es \<equiv> last_or n (map ev_seq es)"

lemma check_batch_None [simp]: "check_batch n es = None \<longleftrightarrow> contiguous n es"
  by (induction n es rule: check_batch.induct) auto

lemma contiguous_append:
  "contiguous n (xs @ ys) \<longleftrightarrow> contiguous n xs \<and> contiguous (seq_from n xs) ys"
proof (induction xs arbitrary: n)
  case (Cons x xs)
  show ?case
  proof (cases "ev_seq x = n + 1")
    case True
    then show ?thesis using Cons.IH [of "n + 1"] by simp
  qed simp
qed simp

lemma contiguous_last: "contiguous n es \<Longrightarrow> seq_from n es = n + length es"
proof (induction es arbitrary: n)
  case (Cons x es)
  have "contiguous (n + 1) es" "ev_seq x = n + 1" using Cons.prems by simp_all
  with Cons.IH [of "n + 1"] show ?case by simp
qed simp

lemma contiguous_bounds: "contiguous n es \<Longrightarrow> e \<in> set es \<Longrightarrow> n < ev_seq e \<and> ev_seq e \<le> n + length es"
proof (induction es arbitrary: n)
  case (Cons x es)
  have c: "contiguous (n + 1) es" "ev_seq x = n + 1" using Cons.prems(1) by simp_all
  show ?case
  proof (cases "e = x")
    case False
    then have "e \<in> set es" using Cons.prems(2) by simp
    from Cons.IH [OF c(1) this] show ?thesis by simp
  qed (simp add: c)
qed simp

lemma contiguous_sorted: "contiguous n es \<Longrightarrow> sorted_wrt (<) (map ev_seq es)"
proof (induction es arbitrary: n)
  case (Cons e es)
  then show ?case using contiguous_bounds [of "n + 1" es] by auto
qed simp

lemma contiguous_filter:
  "contiguous n es \<Longrightarrow> n \<le> k \<Longrightarrow> k \<le> n + length es \<Longrightarrow> contiguous k (filter (\<lambda>e. k < ev_seq e) es)"
proof (induction es arbitrary: n)
  case (Cons e es)
  show ?case
  proof (cases "k = n")
    case True
    then have "filter (\<lambda>x. k < ev_seq x) (e # es) = e # es"
      using Cons.prems contiguous_bounds [of n "e # es"] by (intro filter_eq_self) blast
    then show ?thesis using Cons.prems True by simp
  next
    case False
    then show ?thesis using Cons.prems Cons.IH [of "n + 1"] by simp
  qed
qed simp

lemma valid_checkpoint_seq: "valid_checkpoint e \<Longrightarrow> 0 < ev_seq e"
  by (auto simp: valid_checkpoint_def)

lemma log_shape_sorted: "log_shape es \<Longrightarrow> sorted_wrt (<) (map ev_seq es)"
proof (cases es)
  case (Cons a r)
  assume "log_shape es"
  then have "contiguous (ev_seq a) r"
    by (auto simp: log_shape_def Cons split: if_splits)
  then show ?thesis
    using contiguous_sorted [of "ev_seq a" r] contiguous_bounds [of "ev_seq a" r] by (auto simp: Cons)
qed simp

lemma log_shape_seq_pos: "log_shape es \<Longrightarrow> e \<in> set es \<Longrightarrow> 0 < ev_seq e"
proof (cases es)
  case (Cons a r)
  assume "log_shape es" "e \<in> set es"
  then show ?thesis
    using contiguous_bounds [of 0 es e] contiguous_bounds [of "ev_seq a" r e] valid_checkpoint_seq [of a]
    by (auto simp: log_shape_def Cons split: if_splits)
qed simp

lemma lastSeq_zero_iff: "log_shape es \<Longrightarrow> lastSeq es = 0 \<longleftrightarrow> es = []"
proof (cases "es = []")
  case False
  assume "log_shape es"
  with False have "0 < ev_seq (last es)" using log_shape_seq_pos [of es "last es"] by simp
  with False show ?thesis by (simp add: lastSeq_def last_or_last last_map)
qed (simp add: lastSeq_def)

lemma log_shape_append:
  "log_shape es \<Longrightarrow> contiguous (lastSeq es) xs \<Longrightarrow> log_shape (es @ xs)"
  by (cases es)
    (auto simp: log_shape_def lastSeq_def contiguous_append split: if_splits list.splits)

text \<open>What \<open>decode\<close> accepts keeps the shape, whatever the bytes are.\<close>

lemma decode_shape:
  assumes "decode b (lastSeq es) = Inr batch" "log_shape es"
  shows "batch \<noteq> [] \<and> log_shape (es @ batch)"
proof -
  from assms(1) obtain ne: "batch \<noteq> []" and
    c: "(lastSeq es = 0 \<and> length batch = 1 \<and> ev_kind (hd batch) = HistoryCheckpointKind \<and> valid_checkpoint (hd batch))
        \<or> contiguous (lastSeq es) batch"
    by (auto simp: decode_def split: option.splits if_splits)
  from c show ?thesis
  proof
    assume a: "lastSeq es = 0 \<and> length batch = 1 \<and> ev_kind (hd batch) = HistoryCheckpointKind \<and> valid_checkpoint (hd batch)"
    then have "es = []" using lastSeq_zero_iff assms(2) by blast
    moreover obtain e where "batch = [e]" using a by (cases batch) auto
    ultimately show ?thesis using a by (simp add: log_shape_def)
  qed (use ne log_shape_append assms(2) in blast)
qed


section \<open>Reading back what was written\<close>

lemma parse_json_newline: "wf_json j \<Longrightarrow> parse_json (print_json j @ [chr_newline]) = Some j"
  using parse_print_value [of j "[chr_newline]" "Suc (Suc (length (print_json j)))"]
    print_json_start [of j] value_start_ws [of "print_json j" "[chr_newline]"]
  by (simp add: parse_json_def is_space_def)

lemma print_obj_hd: "hd (print_json (JObj kvs) @ r) = CHR ''{''" "print_json (JObj kvs) \<noteq> []"
  by simp_all

lemma unmarshal_event_line: "ok_event e \<Longrightarrow> unmarshal_batch (event_line e) = Some [e]"
  using parse_json_newline [OF wf_event_json [of e]]
  by (simp add: unmarshal_batch_def event_line_def unmarshal_def dec_event_json)
    (simp add: event_json_def)

lemma unmarshal_event_text: "ok_event e \<Longrightarrow> unmarshal_batch (print_json (event_json e)) = Some [e]"
  using parse_print_json [OF wf_event_json [of e]]
  by (simp add: unmarshal_batch_def unmarshal_def dec_event_json) (simp add: event_json_def)

lemma unmarshal_batch_line:
  assumes "list_all ok_event es" "es \<noteq> []"
  shows "unmarshal_batch (batch_line es) = Some es"
proof -
  let ?j = "JArr (map event_json es)"
  have j: "?j = events_json es" using assms(2) by (simp add: events_json_def)
  have "parse_json (batch_line es) = Some ?j"
    using parse_json_newline [of ?j] wf_events_json [OF assms(1)] by (simp add: batch_line_def j)
  moreover have "dec_list zero_event dec_event ?j [] = (es, True)"
    using dec_events_json [OF assms(1)] by (simp only: j)
  ultimately show ?thesis
    by (simp add: unmarshal_batch_def unmarshal_def batch_line_def)
qed

text \<open>
  The interface between the writers of a journal and its readers: lines of one record each, that
  \<open>decode\<close> accepts at the position where they stand.
\<close>

locale line_format =
  fixes enc :: "'l \<Rightarrow> bytes"
    and evs_of :: "'l \<Rightarrow> event list"
    and ok :: "nat \<Rightarrow> 'l \<Rightarrow> bool"
  assumes enc_line: "ok n x \<Longrightarrow> \<exists>b. enc x = b @ [chr_newline] \<and> chr_newline \<notin> set b"
    and decode_enc: "ok n x \<Longrightarrow> decode (enc x) n = Inr (evs_of x)"
begin

fun lines_ok :: "nat \<Rightarrow> 'l list \<Rightarrow> bool" where
  "lines_ok n [] = True"
| "lines_ok n (x # xs) \<longleftrightarrow> ok n x \<and> lines_ok (seq_from n (evs_of x)) xs"

lemma read_bytes_enc: "ok n x \<Longrightarrow> read_bytes (enc x @ s) = Some (enc x, s)"
proof -
  assume "ok n x"
  then obtain b where b: "enc x = b @ [chr_newline]" "chr_newline \<notin> set b" using enc_line by blast
  then have "takeWhile (\<lambda>c. c \<noteq> chr_newline) (enc x @ s) = b"
    "dropWhile (\<lambda>c. c \<noteq> chr_newline) (enc x @ s) = chr_newline # s"
    by (auto simp: takeWhile_append dropWhile_append)
  then show ?thesis using b by (simp add: read_bytes_def)
qed

text \<open>The reading loop gives back exactly the committed lines and stops before a torn one.\<close>

lemma scan_lines:
  assumes "lines_ok (seq_from after acc) xs" "chr_newline \<notin> set torn" "\<And>j. alive j"
  shows "scan alive i (concat (map enc xs) @ torn) off after acc =
    Inr (acc @ concat (map evs_of xs), off + length (concat (map enc xs)), torn)"
proof -
  have alive: "alive = (\<lambda>_. True)" using assms(3) by auto
  show ?thesis
    using assms(1) unfolding alive
  proof (induction xs arbitrary: i off acc)
    case Nil
    then show ?case using assms(2) by (subst scan.simps) (simp add: read_bytes_def)
  next
    case (Cons x xs)
    then have "ok (seq_from after acc) x" "lines_ok (seq_from after (acc @ evs_of x)) xs" by simp_all
    then show ?case
      using read_bytes_enc [of "seq_from after acc" x] decode_enc [of "seq_from after acc" x] Cons.IH
      by (subst scan.simps) simp
  qed
qed

lemma lines_ok_append:
  "lines_ok n (xs @ ys) \<longleftrightarrow> lines_ok n xs \<and> lines_ok (seq_from n (concat (map evs_of xs))) ys"
  by (induction xs arbitrary: n) auto

text \<open>A proper prefix of a line holds no complete line.\<close>

lemma enc_prefix:
  assumes "ok n x"
  shows "take k (enc x) = enc x \<or> chr_newline \<notin> set (take k (enc x))"
proof -
  obtain b where b: "enc x = b @ [chr_newline]" "chr_newline \<notin> set b" using enc_line assms by blast
  show ?thesis
  proof (cases "k \<le> length b")
    case True
    then show ?thesis using b set_take_subset [of k b] by auto
  next
    case False
    then show ?thesis using b by simp
  qed
qed

end

datatype line = Batch "event list" | Single event

fun line_bytes :: "line \<Rightarrow> bytes" where
  "line_bytes (Batch es) = batch_line es"
| "line_bytes (Single e) = event_line e"

fun line_events :: "line \<Rightarrow> event list" where
  "line_events (Batch es) = es"
| "line_events (Single e) = [e]"

fun line_ok :: "nat \<Rightarrow> line \<Rightarrow> bool" where
  "line_ok n (Batch es) \<longleftrightarrow> es \<noteq> [] \<and> list_all ok_event es \<and> contiguous n es"
| "line_ok n (Single e) \<longleftrightarrow> ok_event e \<and>
     (if ev_kind e = HistoryCheckpointKind then n = 0 \<and> valid_checkpoint e else ev_seq e = n + 1)"

lemma batch_line_newline: "list_all ok_event es \<Longrightarrow> chr_newline \<notin> set (print_json (JArr (map event_json es)))"
  using print_json_no_newline [of "JArr (map event_json es)"] by (simp add: list_all_iff wf_event_json)

lemma decode_contiguous:
  "unmarshal_batch b = Some es \<Longrightarrow> es \<noteq> [] \<Longrightarrow> contiguous n es \<Longrightarrow> decode b n = Inr es"
proof -
  assume a: "unmarshal_batch b = Some es" "es \<noteq> []" "contiguous n es"
  then have "ev_kind (hd es) \<noteq> HistoryCheckpointKind" by (cases es) simp_all
  moreover have "check_batch n es = None" using a(3) by simp
  ultimately show ?thesis using a(1,2) by (simp add: decode_def del: check_batch_None)
qed

interpretation jl: line_format line_bytes line_events line_ok
proof
  fix n x
  assume ok: "line_ok n x"
  show "\<exists>b. line_bytes x = b @ [chr_newline] \<and> chr_newline \<notin> set b"
  proof (cases x)
    case (Batch es)
    then show ?thesis using ok by (auto simp: batch_line_def batch_line_newline simp del: print_json.simps)
  next
    case (Single e)
    then show ?thesis
      using ok print_json_no_newline [OF wf_event_json [of e]] by (auto simp: event_line_def)
  qed
  show "decode (line_bytes x) n = Inr (line_events x)"
  proof (cases x)
    case (Batch es)
    then show ?thesis using ok by (simp add: decode_contiguous unmarshal_batch_line)
  next
    case (Single e)
    then show ?thesis
      using ok unmarshal_event_line [of e] by (auto simp: decode_def split: if_splits)
  qed
qed

lemma lines_shape:
  "jl.lines_ok (lastSeq es) ls \<Longrightarrow> log_shape es \<Longrightarrow> log_shape (es @ concat (map line_events ls))"
proof (induction ls arbitrary: es)
  case (Cons x ls)
  have "decode (line_bytes x) (lastSeq es) = Inr (line_events x)"
    using Cons.prems(1) by (simp add: jl.decode_enc)
  then have "log_shape (es @ line_events x)" using decode_shape Cons.prems(2) by blast
  moreover have "jl.lines_ok (lastSeq (es @ line_events x)) ls"
    using Cons.prems(1) by (simp add: lastSeq_def)
  ultimately show ?case using Cons.IH [of "es @ line_events x"] by simp
qed simp

lemma lines_ok_events: "jl.lines_ok n ls \<Longrightarrow> list_all ok_event (concat (map line_events ls))"
proof (induction ls arbitrary: n)
  case (Cons x ls)
  then show ?case by (cases x) (auto split: if_splits)
qed simp

text \<open>Events of the log's shape, one to a line, are lines \<open>decode\<close> accepts.\<close>

lemma singles_contiguous:
  "list_all ok_event es \<Longrightarrow> contiguous n es \<Longrightarrow> jl.lines_ok n (map Single es)"
  by (induction es arbitrary: n) auto

lemma singles_ok:
  assumes "list_all ok_event es" "log_shape es"
  shows "jl.lines_ok 0 (map Single es)"
proof (cases es)
  case (Cons e r)
  then show ?thesis
    using assms singles_contiguous [of r "ev_seq e"] singles_contiguous [of es 0]
    by (auto simp: log_shape_def split: if_splits)
qed simp

lemma concat_singles [simp]: "concat (map line_events (map Single es)) = es"
  "concat (map line_bytes (map Single es)) = concat (map event_line es)"
  by (induction es) auto


section \<open>Recovery\<close>

definition committed :: "log \<Rightarrow> line list \<Rightarrow> bool" where
  "committed l ls \<longleftrightarrow> jl.lines_ok 0 ls \<and> lg_file l = concat (map line_bytes ls) \<and>
     lg_events l = concat (map line_events ls)"

definition journal_inv :: "log \<Rightarrow> bool" where
  "journal_inv l \<longleftrightarrow> (\<exists>ls. committed l ls)"

definition io_fine :: "io_env" where
  "io_fine = \<lparr>io_ok = (\<lambda>_. True), io_written = 0, io_now = 0\<rparr>"

lemma journal_inv_shape: "journal_inv l \<Longrightarrow> log_shape (lg_events l) \<and> list_all ok_event (lg_events l)"
proof -
  assume "journal_inv l"
  then obtain ls where ls: "jl.lines_ok 0 ls" "lg_events l = concat (map line_events ls)"
    by (auto simp: journal_inv_def committed_def)
  have "log_shape ([] @ concat (map line_events ls))"
    by (rule lines_shape) (simp_all add: ls lastSeq_def log_shape_def)
  then show ?thesis using ls lines_ok_events by simp
qed

lemma scan_committed:
  assumes "jl.lines_ok 0 ls" "chr_newline \<notin> set torn"
  shows "scan (\<lambda>_. True) 0 (concat (map line_bytes ls) @ torn) 0 0 [] =
    Inr (concat (map line_events ls), length (concat (map line_bytes ls)), torn)"
  using jl.scan_lines [of 0 "[]" ls torn "\<lambda>_. True" 0 0] assms by simp

lemma Open_committed:
  assumes "committed l ls" "chr_newline \<notin> set torn" "\<forall>c. io_ok io c"
  shows "Open io \<lparr>dk_file = Some (lg_file l @ torn), dk_partial = ps\<rparr> =
    (Inr l, \<lparr>dk_file = Some (lg_file l), dk_partial = (if torn = [] then ps else torn # ps)\<rparr>)"
proof -
  have "scan (\<lambda>_. True) 0 (lg_file l @ torn) 0 0 [] = Inr (lg_events l, length (lg_file l), torn)"
    using assms(1) scan_committed [OF _ assms(2)] by (simp add: committed_def)
  then show ?thesis using assms(3) by (auto simp: Open_def Let_def)
qed

text \<open>C17. Opening a journal of committed records followed by any torn tail gives exactly the
  events of the committed records, keeps the torn bytes aside, and truncates the file to its
  last committed record.\<close>

theorem Open_recovers:
  assumes "jl.lines_ok 0 ls" "chr_newline \<notin> set torn" "\<forall>c. io_ok io c"
  shows "Open io \<lparr>dk_file = Some (concat (map line_bytes ls) @ torn), dk_partial = ps\<rparr> =
    (Inr \<lparr>lg_file = concat (map line_bytes ls), lg_events = concat (map line_events ls)\<rparr>,
     \<lparr>dk_file = Some (concat (map line_bytes ls)), dk_partial = (if torn = [] then ps else torn # ps)\<rparr>)"
  using Open_committed [of "\<lparr>lg_file = concat (map line_bytes ls), lg_events = concat (map line_events ls)\<rparr>"
      ls torn io ps] assms by (simp add: committed_def)

lemma read_bytes_Some:
  assumes "read_bytes s = Some (b, r)"
  shows "s = b @ r \<and> (\<exists>c. b = c @ [chr_newline] \<and> chr_newline \<notin> set c)"
proof -
  let ?P = "\<lambda>c. c \<noteq> chr_newline"
  have "dropWhile ?P s \<noteq> []" using assms by (auto simp: read_bytes_def split: if_splits)
  then have "dropWhile ?P s = chr_newline # tl (dropWhile ?P s)"
    using hd_dropWhile [of ?P s] by (cases "dropWhile ?P s") auto
  then have "s = takeWhile ?P s @ chr_newline # tl (dropWhile ?P s)"
    using takeWhile_dropWhile_id [of ?P s] by simp
  then show ?thesis using assms by (auto simp: read_bytes_def split: if_splits dest: set_takeWhileD)
qed

lemma read_bytes_append: "read_bytes s = Some (b, r) \<Longrightarrow> read_bytes (s @ t) = Some (b, r @ t)"
  by (auto simp: read_bytes_def takeWhile_append dropWhile_append tl_append split: if_splits list.splits)

lemma read_bytes_None: "read_bytes s = None \<longleftrightarrow> chr_newline \<notin> set s"
  by (simp add: read_bytes_def)

text \<open>
  Whatever the bytes are: the loop stops at the last newline, reading only that much gives the
  same events, and reading a longer file goes on from there.
\<close>

lemma scan_split:
  "scan (\<lambda>_. True) i s off after acc = Inr (evs, off', b) \<Longrightarrow>
   \<exists>c. s = c @ b \<and> off' = off + length c \<and> chr_newline \<notin> set b \<and>
     (\<forall>j t. \<exists>m. scan (\<lambda>_. True) j (c @ t) off after acc = scan (\<lambda>_. True) m t off' after evs)"
proof (induction "(\<lambda>_. True) :: nat \<Rightarrow> bool" i s off after acc rule: scan.induct)
  case (1 i s off after acc)
  show ?case
  proof (cases "read_bytes s")
    case None
    then have "evs = acc" "off' = off" "b = s" using "1.prems" by (auto simp: scan.simps [of _ i s])
    then show ?thesis using None by (auto simp: read_bytes_None intro!: exI [of _ "[]"])
  next
    case (Some br)
    then obtain l r where lr: "read_bytes s = Some (l, r)" by (cases br) auto
    then obtain batch where d: "decode l (seq_from after acc) = Inr batch"
      using "1.prems" by (auto simp: scan.simps [of _ i s] split: sum.splits)
    have "scan (\<lambda>_. True) (Suc i) r (off + length l) after (acc @ batch) = Inr (evs, off', b)"
      using "1.prems" by (simp add: scan.simps [of _ i s] lr d)
    from "1.hyps" [OF _ lr refl d this] obtain c where c: "r = c @ b" "off' = off + length l + length c"
      "chr_newline \<notin> set b"
      "\<And>j t. \<exists>m. scan (\<lambda>_. True) j (c @ t) (off + length l) after (acc @ batch) = scan (\<lambda>_. True) m t off' after evs"
      by auto
    have "read_bytes (l @ u) = Some (l, u)" for u
    proof -
      obtain k where "l = k @ [chr_newline]" "chr_newline \<notin> set k" using read_bytes_Some lr by blast
      then show ?thesis by (auto simp: read_bytes_def takeWhile_append dropWhile_append)
    qed
    then have "scan (\<lambda>_. True) j ((l @ c) @ t) off after acc =
        scan (\<lambda>_. True) (Suc j) (c @ t) (off + length l) after (acc @ batch)" for j t
      by (subst scan.simps) (simp add: d)
    then show ?thesis using c read_bytes_Some [OF lr] by (intro exI [of _ "l @ c"]) auto
  qed
qed

lemma scan_turn: "scan (\<lambda>_. True) i s off after acc = scan (\<lambda>_. True) j s off after acc"
proof (induction "(\<lambda>_. True) :: nat \<Rightarrow> bool" i s off after acc arbitrary: j rule: scan.induct)
  case (1 i s off after acc)
  show ?case
  proof (cases "read_bytes s")
    case None
    then show ?thesis by (simp add: scan.simps [of _ i s] scan.simps [of _ j s])
  next
    case (Some br)
    then obtain l r where lr: "read_bytes s = Some (l, r)" by (cases br) auto
    show ?thesis
    proof (cases "decode l (seq_from after acc)")
      case (Inl e)
      then show ?thesis by (simp add: scan.simps [of _ i s] scan.simps [of _ j s] lr)
    next
      case (Inr batch)
      have "scan (\<lambda>_. True) (Suc i) r (off + length l) after (acc @ batch) =
          scan (\<lambda>_. True) (Suc j) r (off + length l) after (acc @ batch)"
        by (rule "1.hyps") (simp_all add: lr Inr)
      then show ?thesis using Inr by (simp add: scan.simps [of _ i s] scan.simps [of _ j s] lr)
    qed
  qed
qed

lemma scan_empty: "scan (\<lambda>_. True) i [] off after acc = Inr (acc, off, [])"
  by (subst scan.simps) (simp add: read_bytes_def)

lemma scan_shape:
  "scan (\<lambda>_. True) i s off 0 acc = Inr (evs, off', b) \<Longrightarrow> log_shape acc \<Longrightarrow> log_shape evs"
proof (induction "(\<lambda>_. True) :: nat \<Rightarrow> bool" i s off "0::nat" acc rule: scan.induct)
  case (1 i s off acc)
  show ?case
  proof (cases "read_bytes s")
    case None
    then show ?thesis using "1.prems" by (auto simp: scan.simps [of _ i s])
  next
    case (Some br)
    then obtain l r where lr: "read_bytes s = Some (l, r)" by (cases br) auto
    then obtain batch where d: "decode l (seq_from 0 acc) = Inr batch"
      using "1.prems" by (auto simp: scan.simps [of _ i s] split: sum.splits)
    then have "log_shape (acc @ batch)" using decode_shape [of l acc batch] "1.prems" by (simp add: lastSeq_def)
    then show ?thesis using "1.hyps" [OF _ lr refl d] "1.prems" by (simp add: scan.simps [of _ i s] lr d)
  qed
qed


lemma scan_prefix:
  assumes "scan (\<lambda>_. True) 0 s 0 0 [] = Inr (evs, off, b)"
  shows "s = take off s @ b" "chr_newline \<notin> set b"
    "scan (\<lambda>_. True) 0 (take off s) 0 0 [] = Inr (evs, off, [])"
proof -
  obtain c where c: "s = c @ b" "off = length c" "chr_newline \<notin> set b"
    "\<And>t. \<exists>m. scan (\<lambda>_. True) 0 (c @ t) 0 0 [] = scan (\<lambda>_. True) m t off 0 evs"
    using scan_split [OF assms] by auto
  then show "s = take off s @ b" "chr_newline \<notin> set b" by simp_all
  from c(4) [of "[]"] show "scan (\<lambda>_. True) 0 (take off s) 0 0 [] = Inr (evs, off, [])"
    using c(1,2) by (auto simp: scan_empty)
qed

text \<open>C19. Whatever bytes the file holds, a log that opens is numbered without a gap, from 1 or from
  one valid leading checkpoint; the file on disk is the log's file; and opening it once more
  gives the same log and changes nothing.\<close>

theorem Open_sound:
  assumes "Open io d = (Inr l, d')" "\<forall>c. io_ok io' c"
  shows "log_shape (lg_events l) \<and> dk_file d' = Some (lg_file l) \<and> Open io' d' = (Inr l, d')"
proof -
  define s where "s = (case dk_file d of None \<Rightarrow> [] | Some b \<Rightarrow> b)"
  obtain evs off b where sc: "scan (\<lambda>_. True) 0 s 0 0 [] = Inr (evs, off, b)"
    using assms(1) by (auto simp: Open_def Let_def s_def split: if_splits sum.splits)
  note pre = scan_prefix [OF sc]
  have "lg_events l = evs \<and> lg_file l = take off s \<and> dk_file d' = Some (take off s)"
    using assms(1) sc pre(1)
    by (auto simp: Open_def Let_def s_def [symmetric] split: if_splits)
  moreover have "log_shape evs" using scan_shape [OF sc] by (simp add: log_shape_def)
  moreover have "Open io' d' = (Inr \<lparr>lg_file = take off s, lg_events = evs\<rparr>, d')"
    if "dk_file d' = Some (take off s)"
    using that assms(2) pre(3) by (cases d') (simp add: Open_def Let_def)
  ultimately show ?thesis by (cases l) auto
qed

subsection \<open>Appending\<close>

lemma number_batch_seqs:
  "map ev_seq (number_batch now n es) = [n + 1..<n + 1 + length es]"
proof (induction es arbitrary: n)
  case (Cons e es)
  then show ?case by (simp add: upt_conv_Cons del: upt_Suc)
qed simp

lemma number_batch_kinds [simp]: "map ev_kind (number_batch now n es) = map ev_kind es"
  by (induction es arbitrary: n) auto

lemma number_batch_Nil [simp]: "number_batch now n es = [] \<longleftrightarrow> es = []"
  by (cases es) auto

lemma number_batch_contiguous:
  "\<forall>e\<in>set es. ev_kind e \<noteq> HistoryCheckpointKind \<Longrightarrow> contiguous n (number_batch now n es)"
  by (induction es arbitrary: n) auto

lemma committed_append:
  assumes "committed l ls" "line_ok (lastSeq (lg_events l)) x"
  shows "committed (l\<lparr>lg_file := lg_file l @ line_bytes x, lg_events := lg_events l @ line_events x\<rparr>) (ls @ [x])"
  using assms by (simp add: committed_def jl.lines_ok_append lastSeq_def)

text \<open>C18. Appending a batch is atomic through a crash: whatever the operating system answers and
  however much of a failing write reaches the file, opening the file again gives either the
  events before the batch or those followed by the whole batch, numbered on from the last one;
  and a batch whose append was reported as written is there.\<close>

theorem AppendBatch_atomic:
  assumes "journal_inv l" "es \<noteq> []" "\<forall>e\<in>set es. ev_kind e \<noteq> HistoryCheckpointKind"
    and "batch = number_batch (io_now io) (lastSeq (lg_events l)) es" "list_all ok_event batch"
    and "AppendBatch io l es = (res, l')" "\<forall>c. io_ok io' c"
  shows "\<exists>l''. fst (Open io' \<lparr>dk_file = Some (lg_file l'), dk_partial = ps\<rparr>) = Inr l'' \<and> journal_inv l'' \<and>
    (lg_events l'' = lg_events l \<or> lg_events l'' = lg_events l @ batch) \<and>
    (is_ok res \<longrightarrow> res = Inr batch \<and> l'' = l' \<and> lg_events l' = lg_events l @ batch)"
proof -
  obtain ls where ls: "committed l ls" using assms(1) by (auto simp: journal_inv_def)
  let ?x = "Batch batch"
  let ?new = "l\<lparr>lg_file := lg_file l @ line_bytes ?x, lg_events := lg_events l @ batch\<rparr>"
  have ok: "line_ok (lastSeq (lg_events l)) ?x"
    using assms(2-5) by (simp add: number_batch_contiguous)
  have new: "committed ?new (ls @ [?x])" using committed_append [OF ls ok] by simp
  then have all: "fst (Open io' \<lparr>dk_file = Some (lg_file l @ line_bytes ?x), dk_partial = ps\<rparr>) = Inr ?new"
    using Open_committed [OF new, of "[]"] assms(7) by simp
  have old: "fst (Open io' \<lparr>dk_file = Some (lg_file l @ take k (line_bytes ?x)), dk_partial = ps\<rparr>) = Inr l"
    if "chr_newline \<notin> set (take k (line_bytes ?x))" for k
    using Open_committed [OF ls that] assms(7) by simp
  have inv: "journal_inv ?new" using new by (auto simp: journal_inv_def)
  consider (torn) "lg_file l' = lg_file l @ take (io_written io) (line_bytes ?x)" "\<not> is_ok res"
    | (unsynced) "lg_file l' = lg_file l @ line_bytes ?x" "\<not> is_ok res"
    | (written) "res = Inr batch" "l' = ?new"
    using assms(2,4,6) by (auto simp: AppendBatch_def Let_def split: if_splits)
  then show ?thesis
  proof cases
    case torn
    from jl.enc_prefix [OF ok, of "io_written io"] show ?thesis
    proof
      assume "take (io_written io) (line_bytes ?x) = line_bytes ?x"
      then show ?thesis using torn all inv by simp
    next
      assume "chr_newline \<notin> set (take (io_written io) (line_bytes ?x))"
      from old [OF this] show ?thesis using torn assms(1) by simp
    qed
  next
    case unsynced
    then show ?thesis using all inv by simp
  next
    case written
    then show ?thesis using all inv by simp
  qed
qed

text \<open>A batch that was appended has the next sequence numbers in order, keeps the caller's
  kinds, and leaves the log well formed; the numbers are the log's alone to give.\<close>

theorem AppendBatch_numbers:
  assumes "journal_inv l" "\<forall>e\<in>set es. ev_kind e \<noteq> HistoryCheckpointKind"
    and "list_all ok_event (number_batch (io_now io) (lastSeq (lg_events l)) es)"
    and "AppendBatch io l es = (Inr batch, l')"
  shows "journal_inv l' \<and> lg_events l' = lg_events l @ batch \<and>
    map ev_seq batch = [lastSeq (lg_events l) + 1..<lastSeq (lg_events l) + 1 + length es] \<and>
    map ev_kind batch = map ev_kind es \<and> log_shape (lg_events l')"
proof -
  have b: "es \<noteq> []" "batch = number_batch (io_now io) (lastSeq (lg_events l)) es"
    "l' = l\<lparr>lg_file := lg_file l @ batch_line batch, lg_events := lg_events l @ batch\<rparr>"
    using assms(4) by (auto simp: AppendBatch_def Let_def split: if_splits)
  obtain ls where ls: "committed l ls" using assms(1) by (auto simp: journal_inv_def)
  have "line_ok (lastSeq (lg_events l)) (Batch batch)"
    using assms(2,3) b by (simp add: number_batch_contiguous)
  from committed_append [OF ls this] have "journal_inv l'" by (auto simp: b(3) journal_inv_def)
  moreover from this have "log_shape (lg_events l')" using journal_inv_shape by blast
  ultimately show ?thesis by (simp add: b number_batch_seqs del: upt_Suc)
qed


subsection \<open>Reading a range\<close>

lemma sort_search_spec:
  assumes "\<And>a b. a \<le> b \<Longrightarrow> b < j \<Longrightarrow> f a \<Longrightarrow> f b" "i \<le> j"
  shows "i \<le> sort_search f i j \<and> sort_search f i j \<le> j \<and>
    (\<forall>a. i \<le> a \<and> a < sort_search f i j \<longrightarrow> \<not> f a) \<and> (\<forall>a. sort_search f i j \<le> a \<and> a < j \<longrightarrow> f a)"
  using assms
proof (induction f i j rule: sort_search.induct)
  case (1 f i j)
  let ?h = "(i + j) div 2"
  show ?case
  proof (cases "i < j")
    case False
    then have "sort_search f i j = i" by (subst sort_search.simps) simp
    then show ?thesis using False "1.prems"(2) by auto
  next
    case True
    then have h: "i \<le> ?h" "?h < j" by simp_all
    show ?thesis
    proof (cases "f ?h")
      case True
      have eq: "sort_search f i j = sort_search f i ?h"
        using \<open>i < j\<close> True by (subst sort_search.simps) (simp add: Let_def)
      have up: "f a" if "?h \<le> a" "a < j" for a using "1.prems"(1) True that by blast
      have mono: "f b" if "a \<le> b" "b < ?h" "f a" for a b using "1.prems"(1) [of a b] that h by simp
      have IH: "i \<le> sort_search f i ?h \<and> sort_search f i ?h \<le> ?h \<and>
          (\<forall>a. i \<le> a \<and> a < sort_search f i ?h \<longrightarrow> \<not> f a) \<and> (\<forall>a. sort_search f i ?h \<le> a \<and> a < ?h \<longrightarrow> f a)"
        by (rule "1.IH"(2) [OF \<open>i < j\<close> refl]) (use True h(1) mono in \<open>simp, blast, simp\<close>)
      have "f a" if "sort_search f i ?h \<le> a" "a < j" for a
        using IH up that by (cases "a < ?h") simp_all
      moreover have "sort_search f i ?h \<le> j" using IH h(2) by linarith
      ultimately show ?thesis unfolding eq using IH by blast
    next
      case False
      have eq: "sort_search f i j = sort_search f (?h + 1) j"
        using \<open>i < j\<close> False by (subst sort_search.simps) (simp add: Let_def)
      have down: "\<not> f a" if "a \<le> ?h" for a using "1.prems"(1) False h that by blast
      have IH: "?h + 1 \<le> sort_search f (?h + 1) j \<and> sort_search f (?h + 1) j \<le> j \<and>
          (\<forall>a. ?h + 1 \<le> a \<and> a < sort_search f (?h + 1) j \<longrightarrow> \<not> f a) \<and>
          (\<forall>a. sort_search f (?h + 1) j \<le> a \<and> a < j \<longrightarrow> f a)"
        by (rule "1.IH"(1) [OF \<open>i < j\<close> refl False "1.prems"(1)]) (use h(2) in simp_all)
      have "\<not> f a" if "a < sort_search f (?h + 1) j" for a
        using IH down that by (cases "a \<le> ?h") simp_all
      then show ?thesis unfolding eq using IH h(1) by simp
    qed
  qed
qed

lemma events_after_filter:
  assumes "sorted_wrt (<) (map ev_seq es)"
  shows "events_after es seq limit = take (nat (max 0 limit)) (filter (\<lambda>e. seq < ev_seq e) es)"
proof -
  let ?f = "\<lambda>i. seq < ev_seq (es ! i)"
  let ?k = "sort_search ?f 0 (length es)"
  have mono: "?f b" if "a \<le> b" "b < length es" "?f a" for a b
  proof (cases "a = b")
    case False
    then have "ev_seq (es ! a) < ev_seq (es ! b)"
      using sorted_wrt_nth_less [OF assms, of a b] that(1,2) by simp
    then show ?thesis using that(3) by simp
  qed (use that in simp)
  have "0 \<le> ?k \<and> ?k \<le> length es \<and> (\<forall>a. 0 \<le> a \<and> a < ?k \<longrightarrow> \<not> ?f a) \<and>
      (\<forall>a. ?k \<le> a \<and> a < length es \<longrightarrow> ?f a)"
    by (rule sort_search_spec) (rule mono, assumption+, simp)
  then have k: "?k \<le> length es" "\<forall>a<?k. \<not> ?f a" "\<forall>a. ?k \<le> a \<and> a < length es \<longrightarrow> ?f a"
    by blast+
  have "filter (\<lambda>e. seq < ev_seq e) es = filter (\<lambda>e. seq < ev_seq e) (take ?k es @ drop ?k es)" by simp
  also have "\<dots> = drop ?k es"
  proof -
    have "\<not> seq < ev_seq e" if mem: "e \<in> set (take ?k es)" for e
    proof -
      obtain i where "i < ?k" "e = es ! i" using mem k(1) by (auto simp: in_set_conv_nth)
      then show ?thesis using k(2) by simp
    qed
    moreover have "seq < ev_seq e" if mem: "e \<in> set (drop ?k es)" for e
    proof -
      obtain i where "?k + i < length es" "e = es ! (?k + i)" using mem k(1) by (fastforce simp: in_set_conv_nth less_diff_conv add.commute)
      then show ?thesis using k(3) by simp
    qed
    ultimately have "filter (\<lambda>e. seq < ev_seq e) (take ?k es) = []"
      "filter (\<lambda>e. seq < ev_seq e) (drop ?k es) = drop ?k es"
      by (blast intro: filter_eq_Nil filter_eq_self)+
    then show ?thesis by (simp only: filter_append append_Nil)
  qed
  finally have "filter (\<lambda>e. seq < ev_seq e) es = drop ?k es" .
  then show ?thesis by (simp add: events_after_def Let_def min_def)
qed

text \<open>C20. The binary search of \<open>After\<close> finds the right place: on a log that was opened, from whatever
  bytes, it answers the first \<open>limit\<close> events whose sequence is above the given one, none for
  a limit that is not positive.\<close>

theorem After_correct:
  assumes "Open io d = (Inr l, d')"
  shows "After l seq limit = take (nat (max 0 limit)) (filter (\<lambda>e. seq < ev_seq e) (lg_events l))"
  unfolding After_def
  by (rule events_after_filter, rule log_shape_sorted)
    (use Open_sound [OF assms, of io_fine] in \<open>simp add: io_fine_def\<close>)


subsection \<open>Rewriting the file\<close>

lemma rewrite_committed:
  assumes "rewrite io l keep = (r, l')" "r = None \<or> r = Some Compaction_commit_error"
    "list_all ok_event keep" "log_shape keep"
  shows "committed l' (map Single keep) \<and> lg_events l' = keep"
  using assms(1,2) singles_ok [OF assms(3,4)]
  by (auto simp: rewrite_def Let_def committed_def simp del: map_map split: if_splits)

lemma rewrite_failed:
  "rewrite io l keep = (Some e, l') \<Longrightarrow> e \<noteq> Compaction_commit_error \<Longrightarrow> l' = l"
  by (auto simp: rewrite_def Let_def split: if_splits)

lemma compact_suffix_contiguous:
  assumes "log_shape es" "es \<noteq> []" "ev_seq (hd es) \<le> k" "k \<le> lastSeq es"
  shows "contiguous k (filter (\<lambda>e. k < ev_seq e) es)"
proof (cases es)
  case (Cons e r)
  have c: "contiguous (ev_seq e) r" using assms(1) by (auto simp: log_shape_def Cons split: if_splits)
  have "k \<le> ev_seq e + length r" using assms(4) contiguous_last [OF c] by (simp add: Cons lastSeq_def)
  then have "contiguous k (filter (\<lambda>e. k < ev_seq e) r)"
    using contiguous_filter [OF c] assms(3) by (simp add: Cons)
  then show ?thesis using assms(3) by (simp add: Cons)
qed (use assms(2) in simp)

lemma seq_from_ge: "sorted_wrt (<) (map ev_seq es) \<Longrightarrow> es \<noteq> [] \<Longrightarrow> e \<in> set es \<Longrightarrow> ev_seq e \<le> lastSeq es"
proof (induction es)
  case (Cons a es)
  show ?case
  proof (cases "es = []")
    case False
    then have "last es \<in> set es" by simp
    then have a: "ev_seq a < lastSeq es" using Cons.prems(1) False by (auto simp: lastSeq_def last_or_last last_map)
    have eq: "lastSeq (a # es) = lastSeq es" using False by (simp add: lastSeq_def last_or_last)
    show ?thesis
    proof (cases "e = a")
      case True
      then show ?thesis using a by (simp add: eq)
    next
      case neq: False
      then show ?thesis using Cons.IH Cons.prems False by (simp add: eq)
    qed
  qed (use Cons.prems in \<open>simp add: lastSeq_def\<close>)
qed simp

lemma last_or_default: "xs \<noteq> [] \<Longrightarrow> last_or d xs = last_or d' xs"
  by (simp add: last_or_last)

lemma compact_lastSeq:
  assumes "log_shape es" "es \<noteq> []" "ev_seq cp \<le> lastSeq es"
  shows "lastSeq (compact_events cp es) = lastSeq es"
proof -
  let ?l = "last es" and ?f = "filter (\<lambda>e. ev_seq cp < ev_seq e) es"
  have l: "lastSeq es = ev_seq ?l" using assms(2) by (simp add: lastSeq_def last_or_last last_map)
  show ?thesis
  proof (cases "ev_seq cp = lastSeq es")
    case True
    have "?f = []"
      using seq_from_ge [OF log_shape_sorted [OF assms(1)] assms(2)] True by (intro filter_eq_Nil) (auto simp: not_less)
    then show ?thesis using True by (simp add: compact_events_def lastSeq_def)
  next
    case False
    then have "ev_seq cp < ev_seq ?l" using assms(3) l by simp
    moreover have "es = butlast es @ [?l]" using assms(2) by simp
    ultimately have "?f = filter (\<lambda>e. ev_seq cp < ev_seq e) (butlast es) @ [?l]"
      by (metis (no_types, lifting) filter.simps filter_append)
    then show ?thesis using l by (simp add: compact_events_def lastSeq_def)
  qed
qed

lemma Compact_valid:
  assumes "Compact io l cp = (r, l')" "r = None \<or> r = Some Compaction_commit_error" "ok_event cp"
  shows "ev_kind cp = HistoryCheckpointKind" "valid_checkpoint cp" "lg_events l \<noteq> []"
    "ev_seq (hd (lg_events l)) \<le> ev_seq cp" "ev_seq cp \<le> lastSeq (lg_events l)"
    "rewrite io l (compact_events cp (lg_events l)) = (r, l')"
  using assms(1,2) unmarshal_event_text [OF assms(3)]
  by (auto simp: Compact_def decode_def split: if_splits sum.splits)

text \<open>C21. Compacting replaces everything up to the checkpoint by the checkpoint and nothing else: the
  last sequence and every event above the checkpoint stay, the new file is a well-formed
  journal, and opening it gives the same log.  When the rename did not happen the log is as
  it was.\<close>

theorem Compact_correct:
  assumes "journal_inv l" "ok_event cp" "Compact io l cp = (r, l')" "\<forall>c. io_ok io' c"
  shows "if r = None \<or> r = Some Compaction_commit_error
    then journal_inv l' \<and> hd (lg_events l') = cp \<and> lastSeq (lg_events l') = lastSeq (lg_events l) \<and>
      (\<forall>seq limit. ev_seq cp \<le> seq \<longrightarrow> After l' seq limit = After l seq limit) \<and>
      fst (Open io' \<lparr>dk_file = Some (lg_file l'), dk_partial = ps\<rparr>) = Inr l'
    else l' = l"
proof (cases "r = None \<or> r = Some Compaction_commit_error")
  case True
  note v = Compact_valid [OF assms(3) True assms(2)]
  let ?k = "compact_events cp (lg_events l)"
  have sh: "log_shape (lg_events l)" "list_all ok_event (lg_events l)"
    using journal_inv_shape assms(1) by blast+
  have "log_shape ?k"
    using compact_suffix_contiguous [OF sh(1) v(3-5)] v(1,2) by (simp add: log_shape_def compact_events_def)
  moreover have "list_all ok_event ?k" using sh(2) assms(2) by (auto simp: compact_events_def list_all_iff)
  ultimately have c: "committed l' (map Single ?k)" "lg_events l' = ?k"
    using rewrite_committed [OF v(6) True] by blast+
  have sorted: "sorted_wrt (<) (map ev_seq (lg_events l'))"
    using \<open>log_shape ?k\<close> log_shape_sorted c(2) by simp
  have "After l' seq limit = After l seq limit" if "ev_seq cp \<le> seq" for seq limit
  proof -
    have "filter (\<lambda>e. seq < ev_seq e) ?k = filter (\<lambda>e. seq < ev_seq e) (lg_events l)"
      using that by (auto simp: compact_events_def intro: filter_cong)
    then show ?thesis
      using events_after_filter [OF sorted] events_after_filter [OF log_shape_sorted [OF sh(1)]]
      by (simp add: After_def c(2))
  qed
  moreover have "journal_inv l'" using c(1) by (auto simp: journal_inv_def)
  moreover have "fst (Open io' \<lparr>dk_file = Some (lg_file l'), dk_partial = ps\<rparr>) = Inr l'"
    using Open_committed [OF c(1), of "[]"] assms(4) by simp
  ultimately show ?thesis
    using True compact_lastSeq [OF sh(1) v(3,5)] by (simp add: c(2)) (simp add: compact_events_def)
next
  case False
  then show ?thesis
    using assms(3) rewrite_failed [of io l _ _ l']
    by (auto simp: Compact_def split: if_splits sum.splits)
qed


lemma shed_event_fields [simp]:
  "ev_seq (shed_event k e) = ev_seq e" "ev_kind (shed_event k e) = ev_kind e"
  "ev_payload (shed_event k e) = ev_payload e" "ev_time (shed_event k e) = ev_time e"
  by (simp_all add: shed_event_def)

lemma shed_seqs [simp]: "map ev_seq (map (shed_event k) es) = map ev_seq es"
  by (simp add: comp_def)

lemma shed_contiguous: "contiguous n (map (shed_event k) es) \<longleftrightarrow> contiguous n es"
  by (induction es arbitrary: n) auto

lemma shed_valid [simp]: "valid_checkpoint (shed_event k e) = valid_checkpoint e"
  by (simp add: valid_checkpoint_def)

lemma shed_shape: "log_shape (map (shed_event k) es) = log_shape es"
  by (cases es) (simp_all add: log_shape_def shed_contiguous)

lemma shed_ok: "list_all ok_event es \<Longrightarrow> list_all ok_event (map (shed_event k) es)"
  by (simp add: list_all_iff ok_event_def)

lemma shed_freed_raw: "raw_bytes es = shed_freed k es + raw_bytes (map (shed_event k) es)"
  by (induction es) (auto simp: raw_bytes_def shed_freed_def shed_event_def)

text \<open>C22. Shedding empties payloads and never removes an event: when the rename happened the log is
  well formed, every event keeps its place, sequence, kind and payload, only raw events at or
  below the mark lose their bytes, and the bytes reported as freed are exactly what the log no
  longer holds; in every other case nothing changes and nothing is reported.\<close>

theorem Shed_correct:
  assumes "journal_inv l" "Shed io l through = (freed, r, l')"
  shows "RawBytes l = freed + RawBytes l' \<and> journal_inv l' \<and>
    (lg_events l' = map (shed_event through) (lg_events l) \<or> l' = l \<and> freed = 0) \<and>
    map ev_seq (lg_events l') = map ev_seq (lg_events l) \<and>
    (r = None \<longrightarrow> (\<forall>e\<in>set (lg_events l'). ev_kind e = ''raw'' \<and> ev_seq e \<le> through \<longrightarrow> ev_raw e = []))"
proof -
  let ?es = "lg_events l" and ?k = "map (shed_event through) (lg_events l)"
  have sh: "log_shape ?k" "list_all ok_event ?k"
    using journal_inv_shape [OF assms(1)] shed_shape shed_ok by blast+
  have cleared: "\<forall>e\<in>set ?k. ev_kind e = ''raw'' \<and> ev_seq e \<le> through \<longrightarrow> ev_raw e = []"
    by (auto simp: shed_event_def)
  consider (none) "shed_freed through ?es = 0" "freed = 0" "r = None" "l' = l"
    | (renamed) "rewrite io l ?k = (r, l')" "r = None \<or> r = Some Compaction_commit_error" "freed = shed_freed through ?es"
    | (failed) "l' = l" "freed = 0" "r \<noteq> None"
  proof (cases "shed_freed through ?es = 0")
    case True
    then have eq: "freed = 0" "r = None" "l' = l" using assms(2) by (simp_all add: Shed_def)
    show ?thesis by (rule none) (use eq True in simp_all)
  next
    case False
    obtain q l'' where rw: "rewrite io l ?k = (q, l'')" by (cases "rewrite io l ?k")
    note sd = assms(2) [unfolded Shed_def Let_def rw]
    show ?thesis
    proof (cases "q = None \<or> q = Some Compaction_commit_error")
      case True
      then have eq: "r = q" "l' = l''" "freed = shed_freed through ?es" using sd False by auto
      show ?thesis by (rule renamed) (use eq rw True in simp_all)
    next
      case nq: False
      then obtain e where e: "q = Some e" "e \<noteq> Compaction_commit_error" by auto
      then have "l'' = l" using rewrite_failed rw by blast
      have "(freed, r, l') = (0, Some e, l'')"
        using sd False e by (simp split: journal_error.splits)
      then have eq: "r \<noteq> None" "l' = l" "freed = 0" using \<open>l'' = l\<close> by simp_all
      show ?thesis by (rule failed) (use eq in simp_all)
    qed
  qed
  then show ?thesis
  proof cases
    case none
    then have "ev_raw e = []" if "e \<in> set ?es" "ev_kind e = ''raw''" "ev_seq e \<le> through" for e
      using that by (auto simp: shed_freed_def)
    then show ?thesis using none assms(1) by simp
  next
    case renamed
    then have c: "committed l' (map Single ?k)" "lg_events l' = ?k"
      using rewrite_committed [of io l ?k r l'] sh by blast+
    then have "journal_inv l'" by (auto simp: journal_inv_def)
    then show ?thesis
      using c(2) renamed(3) cleared shed_freed_raw [of ?es through] by (simp add: RawBytes_def comp_def)
  qed (use assms(1) in auto)
qed

subsection \<open>Incremental reading\<close>

text \<open>A cursor that stands behind the events \<open>evs\<close> of a file.\<close>

definition cursor_at :: "jfile \<Rightarrow> event list \<Rightarrow> cursor \<Rightarrow> bool" where
  "cursor_at f evs c \<longleftrightarrow> cu_info c = Some (stat_file f) \<and> cu_seq c = lastSeq evs \<and>
     (\<exists>b. scan (\<lambda>_. True) 0 (fl_bytes f) 0 0 [] = Inr (evs, cu_offset c, b))"

definition extends :: "jfile \<Rightarrow> jfile \<Rightarrow> bool" where
  "extends f g \<longleftrightarrow> fl_inode g = fl_inode f \<and> prefix (fl_bytes f) (fl_bytes g) \<and>
     (fl_bytes g = fl_bytes f \<longrightarrow> fl_mtime g = fl_mtime f)"

lemma scan_base:
  "scan (\<lambda>_. True) i s off after (pre @ acc) =
    (case scan (\<lambda>_. True) i s off (seq_from after pre) acc of
       Inl x \<Rightarrow> Inl x | Inr (evs, off', b) \<Rightarrow> Inr (pre @ evs, off', b))"
proof (induction "(\<lambda>_. True) :: nat \<Rightarrow> bool" i s off after "pre @ acc" arbitrary: acc rule: scan.induct)
  case (1 i s off after)
  show ?case
  proof (cases "read_bytes s")
    case None
    then show ?thesis by (simp add: scan.simps [of _ i s])
  next
    case (Some br)
    then obtain l r where lr: "read_bytes s = Some (l, r)" by (cases br) auto
    show ?thesis
    proof (cases "decode l (seq_from (seq_from after pre) acc)")
      case (Inl e)
      then show ?thesis by (simp add: scan.simps [of _ i s] lr)
    next
      case (Inr batch)
      then have "scan (\<lambda>_. True) (Suc i) r (off + length l) after (pre @ acc @ batch) =
        (case scan (\<lambda>_. True) (Suc i) r (off + length l) (seq_from after pre) (acc @ batch) of
           Inl x \<Rightarrow> Inl x | Inr (evs, off', b) \<Rightarrow> Inr (pre @ evs, off', b))"
        by (intro "1.hyps") (simp_all add: lr)
      then show ?thesis using Inr by (simp add: scan.simps [of _ i s] lr)
    qed
  qed
qed

lemma needs_reset_extends: "extends f g \<Longrightarrow> cu_info c = Some (stat_file f) \<Longrightarrow> \<not> needs_reset c (stat_file g)"
  by (auto simp: needs_reset_def stat_file_def extends_def prefix_def)

lemma scan_resume:
  assumes "cursor_at f evs c" "extends f g"
  shows "scan (\<lambda>_. True) 0 (fl_bytes g) 0 0 [] =
    (case scan (\<lambda>_. True) 0 (drop (cu_offset c) (fl_bytes g)) (cu_offset c) (cu_seq c) [] of
       Inl x \<Rightarrow> Inl x | Inr (new, off', b) \<Rightarrow> Inr (evs @ new, off', b))"
proof -
  obtain b more where b: "scan (\<lambda>_. True) 0 (fl_bytes f) 0 0 [] = Inr (evs, cu_offset c, b)"
    and more: "fl_bytes g = fl_bytes f @ more"
    using assms by (auto simp: cursor_at_def extends_def prefix_def)
  obtain k where k: "fl_bytes f = k @ b" "cu_offset c = length k"
    "\<And>t. \<exists>m. scan (\<lambda>_. True) 0 (k @ t) 0 0 [] = scan (\<lambda>_. True) m t (cu_offset c) 0 evs"
    using scan_split [OF b] by auto
  obtain m where "scan (\<lambda>_. True) 0 (fl_bytes g) 0 0 [] = scan (\<lambda>_. True) m (b @ more) (cu_offset c) 0 evs"
    using k(3) [of "b @ more"] by (auto simp: more k(1))
  also have "\<dots> = scan (\<lambda>_. True) 0 (b @ more) (cu_offset c) 0 (evs @ [])" by (simp add: scan_turn [of m _ _ _ _ 0])
  also have "\<dots> = (case scan (\<lambda>_. True) 0 (b @ more) (cu_offset c) (seq_from 0 evs) [] of
      Inl x \<Rightarrow> Inl x | Inr (new, off', b) \<Rightarrow> Inr (evs @ new, off', b))"
    by (rule scan_base)
  finally show ?thesis
    using assms(1) by (simp add: more k(1,2) cursor_at_def lastSeq_def)
qed

definition full_read :: "jfile \<Rightarrow> (nat \<times> journal_error) + event list" where
  "full_read f = (case scan (\<lambda>_. True) 0 (fl_bytes f) 0 0 [] of Inl x \<Rightarrow> Inl x | Inr (evs, _) \<Rightarrow> Inr evs)"

text \<open>C23. Reading incrementally is reading in full: from a cursor that stands behind the events
  already read, on the same file grown by any bytes, \<open>ReadSince\<close> never resets, the old
  events followed by the new ones are the events of the whole file, the next cursor stands
  behind them all, and it fails exactly when a full read fails, then keeping the old cursor.\<close>

theorem ReadSince_incremental:
  assumes "cursor_at f evs c" "extends f g" "\<forall>x. io_ok io x" "\<forall>i. alive i"
  shows "\<not> rr_reset (ReadSince io alive (Some g) c) \<and>
    (case full_read g of
       Inl _ \<Rightarrow> rr_error (ReadSince io alive (Some g) c) \<noteq> None \<and> rr_next (ReadSince io alive (Some g) c) = c
     | Inr all \<Rightarrow> rr_error (ReadSince io alive (Some g) c) = None \<and>
         evs @ rr_events (ReadSince io alive (Some g) c) = all \<and>
         cursor_at g all (rr_next (ReadSince io alive (Some g) c)))"
proof -
  have al: "alive = (\<lambda>_. True)" using assms(4) by auto
  have nr: "\<not> needs_reset c (stat_file g)"
    using needs_reset_extends assms(1,2) by (simp add: cursor_at_def)
  let ?s = "scan (\<lambda>_. True) 0 (drop (cu_offset c) (fl_bytes g)) (cu_offset c) (cu_seq c) []"
  have seq: "cu_seq c = lastSeq evs" using assms(1) by (simp add: cursor_at_def)
  show ?thesis
  proof (cases ?s)
    case (Inl x)
    then show ?thesis
      using scan_resume [OF assms(1,2)] nr assms(3)
      by (cases x) (simp add: ReadSince_def Let_def full_read_def al)
  next
    case (Inr r)
    then obtain new off b where r: "?s = Inr (new, off, b)" by (cases r) auto
    then show ?thesis
      using scan_resume [OF assms(1,2)] nr assms(3) seq
      by (simp add: ReadSince_def Let_def full_read_def al cursor_at_def lastSeq_def)
  qed
qed

text \<open>A cursor that cannot be trusted (none yet, another file under the name, a file that
  shrank, or one rewritten in place) makes \<open>ReadSince\<close> read everything again and say so.\<close>

theorem ReadSince_reset:
  assumes "needs_reset c (stat_file f)" "\<forall>x. io_ok io x" "\<forall>i. alive i"
  shows "rr_reset (ReadSince io alive (Some f) c) \<and>
    (case full_read f of
       Inl _ \<Rightarrow> rr_error (ReadSince io alive (Some f) c) \<noteq> None \<and> rr_next (ReadSince io alive (Some f) c) = c
     | Inr all \<Rightarrow> rr_error (ReadSince io alive (Some f) c) = None \<and>
         rr_events (ReadSince io alive (Some f) c) = all \<and>
         cursor_at f all (rr_next (ReadSince io alive (Some f) c)))"
proof -
  have al: "alive = (\<lambda>_. True)" using assms(3) by auto
  show ?thesis
  proof (cases "scan (\<lambda>_. True) 0 (fl_bytes f) 0 0 []")
    case (Inl x)
    then show ?thesis using assms(1,2)
      by (cases x) (simp add: ReadSince_def Let_def full_read_def al zero_cursor_def)
  next
    case (Inr r)
    then show ?thesis using assms(1,2)
      by (cases r) (simp add: ReadSince_def Let_def full_read_def al cursor_at_def lastSeq_def zero_cursor_def)
  qed
qed


section \<open>Concrete instances\<close>

definition sample_lines :: "line list" where
  "sample_lines = [Batch [sample_event 1, sample_event 2], Single (sample_event 3)]"

definition sample_log :: log where
  "sample_log = \<lparr>lg_file = concat (map line_bytes sample_lines), lg_events = concat (map line_events sample_lines)\<rparr>"

definition sample_checkpoint :: event where
  "sample_checkpoint = zero_event\<lparr>ev_seq := 2, ev_time := 1, ev_kind := HistoryCheckpointKind,
     ev_payload := Some (checkpoint_json (zero_checkpoint\<lparr>cp_version := 1, cp_snapshot := zero_snapshot\<lparr>sn_last := 2\<rparr>\<rparr>))\<rparr>"

lemmas sample_defs = sample_lines_def sample_log_def sample_event_def zero_event_def kind_defs

lemma sample_seq: "ev_seq (sample_event n) = n"
  by (simp add: sample_event_def)

lemma sample_lines_ok: "jl.lines_ok 0 sample_lines"
  by (simp add: sample_defs ok_event_def)

lemma sample_committed: "committed sample_log sample_lines"
  using sample_lines_ok by (simp add: committed_def sample_log_def)

lemma sample_inv: "journal_inv sample_log"
  using sample_committed by (auto simp: journal_inv_def)

lemma io_fine_ok [simp]: "io_ok io_fine c" "io_now io_fine = 0"
  by (simp_all add: io_fine_def)

lemma sample_open:
  "Open io_fine \<lparr>dk_file = Some (lg_file sample_log @ ''[{'' ), dk_partial = []\<rparr> =
    (Inr sample_log, \<lparr>dk_file = Some (lg_file sample_log), dk_partial = [''[{'']\<rparr>)"
  using Open_committed [OF sample_committed, of "''[{''" io_fine "[]"] by simp

theorem Open_recovers_witness:
  "Open io_fine \<lparr>dk_file = Some (concat (map line_bytes sample_lines) @ ''[{''), dk_partial = []\<rparr> =
    (Inr sample_log, \<lparr>dk_file = Some (concat (map line_bytes sample_lines)), dk_partial = [''[{'']\<rparr>)"
  using Open_recovers [OF sample_lines_ok, of "''[{''" io_fine "[]"] by (simp add: sample_log_def)

theorem Open_sound_witness:
  "log_shape (lg_events sample_log) \<and>
   Open io_fine \<lparr>dk_file = Some (lg_file sample_log), dk_partial = [''[{'']\<rparr> =
     (Inr sample_log, \<lparr>dk_file = Some (lg_file sample_log), dk_partial = [''[{'']\<rparr>)"
  using Open_sound [OF sample_open, of io_fine] by simp

theorem AppendBatch_atomic_witness:
  "\<exists>l''. fst (Open io_fine \<lparr>dk_file = Some (lg_file (snd (AppendBatch
      \<lparr>io_ok = (\<lambda>c. c \<noteq> Io_write), io_written = 7, io_now = 5\<rparr> sample_log [sample_event 0]))),
      dk_partial = []\<rparr>) = Inr l'' \<and> journal_inv l'' \<and>
    (lg_events l'' = lg_events sample_log \<or> lg_events l'' = lg_events sample_log @ [sample_event 4])"
proof -
  let ?io = "\<lparr>io_ok = (\<lambda>c. c \<noteq> Io_write), io_written = 7, io_now = 5\<rparr>"
  have "number_batch 5 (lastSeq (lg_events sample_log)) [sample_event 0] = [sample_event 4]"
    by (simp add: sample_defs lastSeq_def)
  then show ?thesis
    using AppendBatch_atomic [OF sample_inv, of "[sample_event 0]" "[sample_event 4]" ?io
        "fst (AppendBatch ?io sample_log [sample_event 0])"
        "snd (AppendBatch ?io sample_log [sample_event 0])" io_fine "[]"]
    by (auto simp: sample_event_def zero_event_def kind_defs ok_event_def)
qed

theorem AppendBatch_numbers_witness:
  "lg_events (snd (AppendBatch io_fine sample_log [sample_event 0])) = lg_events sample_log @ [sample_event 4]"
proof -
  have n: "number_batch 0 (lastSeq (lg_events sample_log)) [sample_event 0] = [sample_event 4]"
    by (simp add: sample_defs lastSeq_def)
  have a: "AppendBatch io_fine sample_log [sample_event 0] =
      (Inr [sample_event 4], snd (AppendBatch io_fine sample_log [sample_event 0]))"
    by (simp add: AppendBatch_def Let_def n del: number_batch.simps)
  show ?thesis
    using AppendBatch_numbers [OF sample_inv _ _ a]
    by (simp add: n del: number_batch.simps)
      (simp add: sample_event_def zero_event_def kind_defs ok_event_def)
qed

theorem After_correct_witness: "After sample_log 1 1 = [sample_event 2]"
  using After_correct [OF sample_open, of 1 1] by (simp add: sample_defs)

lemma sample_checkpoint_ok: "ok_event sample_checkpoint" "valid_checkpoint sample_checkpoint"
proof -
  let ?c = "zero_checkpoint\<lparr>cp_version := 1, cp_snapshot := zero_snapshot\<lparr>sn_last := 2\<rparr>\<rparr>"
  have ok: "ok_checkpoint ?c" by (simp add: ok_checkpoint_def ok_snapshot_def zero_checkpoint_def zero_snapshot_def)
  show "ok_event sample_checkpoint"
    using wf_checkpoint_json [OF ok] by (simp add: sample_checkpoint_def ok_event_def zero_event_def)
  show "valid_checkpoint sample_checkpoint"
    using dec_checkpoint_json [OF ok]
    by (simp add: sample_checkpoint_def valid_checkpoint_def unmarshal_payload_def zero_event_def)
qed

theorem Compact_correct_witness:
  "lg_events (snd (Compact io_fine sample_log sample_checkpoint)) = [sample_checkpoint, sample_event 3] \<and>
   journal_inv (snd (Compact io_fine sample_log sample_checkpoint))"
proof -
  have d: "decode (print_json (event_json sample_checkpoint)) 0 = Inr [sample_checkpoint]"
    using unmarshal_event_text sample_checkpoint_ok
    by (simp add: decode_def) (simp add: sample_checkpoint_def)
  have s: "ev_seq sample_checkpoint = 2" "ev_kind sample_checkpoint = HistoryCheckpointKind"
    by (simp_all add: sample_checkpoint_def)
  have c: "Compact io_fine sample_log sample_checkpoint = (None, snd (Compact io_fine sample_log sample_checkpoint))"
    "lg_events (snd (Compact io_fine sample_log sample_checkpoint)) = [sample_checkpoint, sample_event 3]"
    by (simp_all add: Compact_def d s rewrite_def Let_def compact_events_def sample_log_def sample_lines_def
        lastSeq_def sample_seq)
  show ?thesis
    using Compact_correct [OF sample_inv sample_checkpoint_ok(1) c(1), of io_fine "[]"] c(2) by simp
qed

definition raw_log :: log where
  "raw_log = \<lparr>lg_file = event_line (sample_event 1\<lparr>ev_kind := ''raw'', ev_raw := ''xyz''\<rparr>),
     lg_events = [sample_event 1\<lparr>ev_kind := ''raw'', ev_raw := ''xyz''\<rparr>]\<rparr>"

theorem Shed_correct_witness:
  "fst (Shed io_fine raw_log 1) = 3 \<and> RawBytes raw_log = 3 \<and> RawBytes (snd (snd (Shed io_fine raw_log 1))) = 0"
proof -
  have "committed raw_log [Single (sample_event 1\<lparr>ev_kind := ''raw'', ev_raw := ''xyz''\<rparr>)]"
    by (simp add: committed_def raw_log_def sample_event_def zero_event_def ok_event_def kind_defs)
  then have i: "journal_inv raw_log" by (auto simp: journal_inv_def)
  have f: "fst (Shed io_fine raw_log 1) = 3" "RawBytes raw_log = 3"
    by (simp_all add: Shed_def Let_def rewrite_def shed_freed_def raw_log_def sample_event_def zero_event_def
        RawBytes_def raw_bytes_def)
  show ?thesis
    using Shed_correct [OF i, of io_fine 1 "fst (Shed io_fine raw_log 1)"
        "fst (snd (Shed io_fine raw_log 1))" "snd (snd (Shed io_fine raw_log 1))"] f by simp
qed

definition sample_file :: "bytes \<Rightarrow> jfile" where
  "sample_file b = \<lparr>fl_inode = 1, fl_mtime = 1, fl_bytes = b\<rparr>"

theorem ReadSince_incremental_witness:
  "let f = sample_file (event_line (sample_event 1));
       g = sample_file (event_line (sample_event 1) @ event_line (sample_event 2));
       c = \<lparr>cu_offset = length (event_line (sample_event 1)), cu_seq = 1, cu_info = Some (stat_file f)\<rparr>
   in rr_events (ReadSince io_fine (\<lambda>_. True) (Some g) c) = [sample_event 2]"
proof -
  let ?f = "sample_file (event_line (sample_event 1))"
  let ?g = "sample_file (event_line (sample_event 1) @ event_line (sample_event 2))"
  let ?c = "\<lparr>cu_offset = length (event_line (sample_event 1)), cu_seq = 1, cu_info = Some (stat_file ?f)\<rparr>"
  have ok: "jl.lines_ok 0 [Single (sample_event 1), Single (sample_event 2)]"
    by (simp add: sample_event_def zero_event_def ok_event_def kind_defs)
  have s1: "scan (\<lambda>_. True) 0 (event_line (sample_event 1)) 0 0 [] =
      Inr ([sample_event 1], length (event_line (sample_event 1)), [])"
    using scan_committed [of "[Single (sample_event 1)]" "[]"] ok by simp
  have s2: "full_read ?g = Inr [sample_event 1, sample_event 2]"
    using scan_committed [OF ok, of "[]"] by (simp add: full_read_def sample_file_def)
  have at: "cursor_at ?f [sample_event 1] ?c"
    by (simp add: cursor_at_def s1 sample_file_def lastSeq_def sample_seq del: One_nat_def)
  have "extends ?f ?g" by (simp add: extends_def sample_file_def event_line_def)
  from ReadSince_incremental [OF at this, of io_fine "\<lambda>_. True"] show ?thesis
    by (simp add: s2 Let_def del: One_nat_def)
qed

theorem ReadSince_reset_witness:
  "rr_events (ReadSince io_fine (\<lambda>_. True) (Some (sample_file (event_line (sample_event 1)))) zero_cursor) = [sample_event 1]"
proof -
  have s: "full_read (sample_file (event_line (sample_event 1))) = Inr [sample_event 1]"
    using scan_committed [of "[Single (sample_event 1)]" "[]"]
    by (simp add: full_read_def sample_file_def sample_event_def zero_event_def ok_event_def kind_defs)
  have "needs_reset zero_cursor (stat_file (sample_file (event_line (sample_event 1))))"
    by (simp add: needs_reset_def zero_cursor_def)
  from ReadSince_reset [OF this, of io_fine "\<lambda>_. True"] show ?thesis by (simp add: s del: One_nat_def)
qed

end
