(* ===== verification/Replay.thy ===== *)
theory Replay
  imports Journal
begin

text \<open>
  \<open>Replay\<close> and \<open>ReplayFrom\<close> of \<^verbatim>\<open>internal/supervisor/supervisor.go\<close>: the state of a
  conversation is a fold over its events.  \<open>p\<close> of the source, the map of pending requests, is an
  association list keyed by request id; the result lists its values by sequence.
\<close>

definition pending_map :: "event list \<Rightarrow> (string, event) gomap" where
  "pending_map es = foldl (\<lambda>p e. AList.update (ev_request e) e p) [] es"

fun replay_step :: "snapshot \<times> (string, event) gomap \<Rightarrow> event \<Rightarrow> snapshot \<times> (string, event) gomap" where
  "replay_step (s0, p) e =
     (let s = s0\<lparr>sn_last := ev_seq e\<rparr>; k = ev_kind e in
      if k = HistoryCheckpointKind then
        (case unmarshal_payload dec_checkpoint (ev_payload e) zero_checkpoint of (c, ok) \<Rightarrow>
           if ok then (cp_snapshot c, pending_map (sn_pending (cp_snapshot c))) else (s, p))
      else if k = ''permission'' then
        (if ev_text e = ''ask'' \<or> ev_text e = ''full'' then (s\<lparr>sn_permission := ev_text e\<rparr>, p) else (s, p))
      else if k = ''state'' then
        (let s = s\<lparr>sn_state := ev_text e\<rparr>;
             (s, p) = (if sn_run s \<noteq> ev_run e then (s\<lparr>sn_queued := [], sn_queued_id := []\<rparr>, []) else (s, p))
         in (s\<lparr>sn_run := ev_run e\<rparr>, p))
      else if k = ''queued'' then (s\<lparr>sn_queued := ev_text e, sn_queued_id := ev_request e\<rparr>, p)
      else if k = ''input'' then
        (if ev_request e = sn_queued_id s then (s\<lparr>sn_queued := [], sn_queued_id := []\<rparr>, p) else (s, p))
      else if k = ''vendor'' then (s\<lparr>sn_vendor := ev_text e\<rparr>, p)
      else if k = ForkBoundaryKind then
        (s\<lparr>sn_state := ''stopped'', sn_run := [], sn_vendor := [], sn_queued := [], sn_queued_id := []\<rparr>, [])
      else if k = ''approval'' then (s, AList.update (ev_request e) e p)
      else if k = ''approval_resolved'' then (s, AList.delete (ev_request e) p)
      else (s, p))"

definition replay_close :: "snapshot \<times> (string, event) gomap \<Rightarrow> snapshot" where
  "replay_close sp = (fst sp)\<lparr>sn_pending := sort_key ev_seq (map snd (snd sp))\<rparr>"

definition ReplayFrom :: "snapshot \<Rightarrow> event list \<Rightarrow> snapshot" where
  "ReplayFrom s es = replay_close (foldl replay_step (s, pending_map (sn_pending s)) es)"

definition Replay :: "event list \<Rightarrow> snapshot" where
  "Replay es = ReplayFrom (zero_snapshot\<lparr>sn_state := ''stopped'', sn_permission := ''full''\<rparr>) es"

section \<open>The pending requests\<close>

text \<open>A snapshot as replay leaves it: its requests in the order of their sequence, each id once.\<close>

definition snap_ok :: "snapshot \<Rightarrow> bool" where
  "snap_ok s \<longleftrightarrow> sorted_wrt (<) (map ev_seq (sn_pending s)) \<and> distinct (map ev_request (sn_pending s)) \<and>
     (\<forall>e\<in>set (sn_pending s). ev_seq e \<le> sn_last s)"

definition pend_ok :: "nat \<Rightarrow> (string, event) gomap \<Rightarrow> bool" where
  "pend_ok n p \<longleftrightarrow> wf_map p \<and> (\<forall>(k, e)\<in>set p. k = ev_request e \<and> ev_seq e \<le> n) \<and> distinct (map (ev_seq \<circ> snd) p)"

lemma pending_map_snoc [simp]: "pending_map (es @ [e]) = AList.update (ev_request e) e (pending_map es)"
  by (simp add: pending_map_def)

lemma pending_map_Nil [simp]: "pending_map [] = []"
  by (simp add: pending_map_def)

lemma update_new: "k \<notin> set (map fst p) \<Longrightarrow> AList.update k v p = p @ [(k, v)]"
  by (induction p) auto

lemma pending_map_distinct:
  "distinct (map ev_request es) \<Longrightarrow> pending_map es = map (\<lambda>e. (ev_request e, e)) es"
proof (induction es rule: rev_induct)
  case (snoc e es)
  then show ?case by (subst pending_map_snoc) (auto simp: update_new image_iff)
qed simp

lemma snap_ok_pend: "snap_ok s \<Longrightarrow> pend_ok (sn_last s) (pending_map (sn_pending s))"
  by (auto simp: snap_ok_def pend_ok_def pending_map_distinct wf_map_def comp_def strict_sorted_iff)

lemma pend_ok_mono: "pend_ok n p \<Longrightarrow> n \<le> m \<Longrightarrow> pend_ok m p"
  by (auto simp: pend_ok_def)

lemma pend_ok_Nil [simp]: "pend_ok n []"
  by (simp add: pend_ok_def)

lemma delete_filter: "AList.delete k p = filter (\<lambda>x. fst x \<noteq> k) p"
  by (induction p) auto

lemma pend_ok_delete: "pend_ok n p \<Longrightarrow> pend_ok n (AList.delete k p)"
  by (auto simp: pend_ok_def delete_filter wf_map_def distinct_map_filter)

lemma update_seqs:
  "distinct (map (ev_seq \<circ> snd) p) \<Longrightarrow> \<forall>x\<in>set p. ev_seq (snd x) \<noteq> ev_seq e \<Longrightarrow>
   distinct (map (ev_seq \<circ> snd) (AList.update k e p)) \<and>
   set (AList.update k e p) \<subseteq> insert (k, e) (set p)"
  by (induction p) (auto simp: image_iff)

lemma pend_ok_update:
  assumes "pend_ok n p" "n < ev_seq e"
  shows "pend_ok (ev_seq e) (AList.update (ev_request e) e p)"
proof -
  have "\<forall>x\<in>set p. ev_seq (snd x) \<noteq> ev_seq e" using assms by (auto simp: pend_ok_def)
  then show ?thesis
    using assms update_seqs [of p e "ev_request e"] by (fastforce simp: pend_ok_def)
qed

text \<open>What a step keeps, on the events of a log after its head.\<close>

lemma replay_step_ok:
  assumes "pend_ok (sn_last s) p" "sn_last s < ev_seq e" "ev_kind e \<noteq> HistoryCheckpointKind"
    "replay_step (s, p) e = (s', p')"
  shows "pend_ok (sn_last s') p' \<and> sn_last s' = ev_seq e"
  using assms pend_ok_mono [OF assms(1), of "ev_seq e"] pend_ok_update [OF assms(1,2)]
    pend_ok_delete [OF pend_ok_mono [OF assms(1), of "ev_seq e"]]
  by (auto simp: Let_def split: if_splits)

lemma replay_fold_ok:
  assumes "pend_ok (sn_last s) p" "contiguous (sn_last s) es" "foldl replay_step (s, p) es = (s', p')"
  shows "pend_ok (sn_last s') p' \<and> sn_last s' = seq_from (sn_last s) es"
  using assms
proof (induction es arbitrary: s p)
  case (Cons e es)
  obtain s1 p1 where st: "replay_step (s, p) e = (s1, p1)" by (cases "replay_step (s, p) e")
  have e: "ev_seq e = sn_last s + 1" "ev_kind e \<noteq> HistoryCheckpointKind" "contiguous (ev_seq e) es"
    using Cons.prems(2) by simp_all
  have "pend_ok (sn_last s1) p1 \<and> sn_last s1 = ev_seq e"
    by (rule replay_step_ok [OF Cons.prems(1) _ e(2) st]) (simp add: e(1))
  then have a: "pend_ok (ev_seq e) p1" "sn_last s1 = ev_seq e" by auto
  have "pend_ok (sn_last s') p' \<and> sn_last s' = seq_from (sn_last s1) es"
    by (rule Cons.IH) (use a Cons.prems(3) e(3) in \<open>simp_all add: st del: replay_step.simps\<close>)
  then show ?case unfolding a(2) list.map last_or.simps .
qed simp

lemma pend_values: "pend_ok n p \<Longrightarrow> p = map (\<lambda>e. (ev_request e, e)) (map snd p)"
  by (auto simp: pend_ok_def comp_def intro!: map_idI [symmetric])

lemma pend_keys: "pend_ok n p \<Longrightarrow> map ev_request (map snd p) = map fst p"
  by (auto simp: pend_ok_def)

lemma distinct_map_sort [simp]: "distinct (map f (sort_key g xs)) = distinct (map f xs)"
  by (metis mset_eq_imp_distinct_iff mset_map mset_sort)

lemma sorted_pending:
  assumes "pend_ok n p"
  shows "sorted_wrt (<) (map ev_seq (sort_key ev_seq (map snd p)))"
proof -
  have "distinct (map ev_seq (sort_key ev_seq (map snd p)))"
    using assms by (simp add: pend_ok_def)
  then show ?thesis by (simp only: strict_sorted_iff sorted_sort_key)
qed

lemma snap_ok_close:
  assumes "pend_ok (sn_last s) p"
  shows "snap_ok (replay_close (s, p))"
proof -
  have "distinct (map ev_request (map snd p))"
    unfolding pend_keys [OF assms] using assms by (simp add: pend_ok_def wf_map_def)
  then have "distinct (map ev_request (sort_key ev_seq (map snd p)))" by (simp only: distinct_map_sort)
  then show ?thesis
    using assms sorted_pending [OF assms] by (auto simp: snap_ok_def replay_close_def pend_ok_def)
qed

section \<open>Replaying in pieces\<close>

definition same_state :: "snapshot \<times> (string, event) gomap \<Rightarrow> snapshot \<times> (string, event) gomap \<Rightarrow> bool" where
  "same_state x y \<longleftrightarrow> (fst x)\<lparr>sn_pending := []\<rparr> = (fst y)\<lparr>sn_pending := []\<rparr> \<and>
     wf_map (snd x) \<and> wf_map (snd y) \<and> map_of (snd x) = map_of (snd y)"

lemma wf_pending_map [simp]: "wf_map (pending_map es)"
  by (induction es rule: rev_induct) auto

lemma same_fields:
  "(s :: snapshot)\<lparr>sn_pending := []\<rparr> = t\<lparr>sn_pending := []\<rparr> \<longleftrightarrow>
     sn_permission s = sn_permission t \<and> sn_state s = sn_state t \<and> sn_run s = sn_run t \<and>
     sn_vendor s = sn_vendor t \<and> sn_last s = sn_last t \<and> sn_queued s = sn_queued t \<and>
     sn_queued_id s = sn_queued_id t"
  by (cases s; cases t) auto

lemma same_step: "same_state x y \<Longrightarrow> same_state (replay_step x e) (replay_step y e)"
  by (cases x; cases y)
    (auto simp: same_state_def same_fields Let_def split: if_splits prod.splits)

lemma same_fold: "same_state x y \<Longrightarrow> same_state (foldl replay_step x es) (foldl replay_step y es)"
proof (induction es arbitrary: x y)
  case (Cons e es)
  from Cons.IH [OF same_step [OF Cons.prems]] show ?case by simp
qed simp

lemma same_close:
  assumes "same_state (s, p) (t, q)" "pend_ok n p"
  shows "replay_close (s, p) = replay_close (t, q)"
proof -
  have st: "set p = set q" using assms(1) wf_map_mset_eq by (auto simp: same_state_def)
  have d: "distinct (map snd p)" "inj_on ev_seq (set (map snd p))"
    using assms(2) by (auto simp: pend_ok_def distinct_map comp_inj_on_iff inj_on_def)
  have "distinct q" "distinct p" using assms(1) by (simp_all add: same_state_def wf_map_def distinct_map)
  moreover have "inj_on snd (set q)" using d(1) st by (simp add: distinct_map)
  ultimately have "distinct (map snd q)" by (simp add: distinct_map)
  then have "sort_key ev_seq (map snd p) = sort_key ev_seq (map snd q)"
    using d by (intro sorted_key_unique) (simp_all add: st)
  then show ?thesis
    using assms(1) by (cases s; cases t) (auto simp: replay_close_def same_state_def)
qed

lemma same_reopen:
  assumes "pend_ok n p"
  shows "same_state (s, p) (replay_close (s, p), pending_map (sn_pending (replay_close (s, p))))"
proof -
  let ?es = "sort_key ev_seq (map snd p)"
  let ?m = "map (\<lambda>e. (ev_request e, e)) ?es"
  have wf: "wf_map p" using assms by (simp add: pend_ok_def)
  then have "distinct (map ev_request (map snd p))"
    unfolding pend_keys [OF assms] by (simp add: wf_map_def)
  then have d: "distinct (map ev_request ?es)" by (simp only: distinct_map_sort)
  have "set ?m = set (map (\<lambda>e. (ev_request e, e)) (map snd p))" by (simp only: set_map set_sort)
  also have "\<dots> = set p" by (simp only: pend_values [OF assms, symmetric])
  finally have "set p = set ?m" ..
  moreover have "distinct (map fst ?m)" using d by (simp add: comp_def)
  ultimately have "map_of p = map_of ?m"
    using map_of_inject_set [of p ?m] wf by (simp add: wf_map_def)
  then show ?thesis
    using wf d by (simp add: same_state_def replay_close_def pending_map_distinct wf_map_def comp_def)
qed

definition fresh_snapshot :: snapshot where
  "fresh_snapshot = zero_snapshot\<lparr>sn_state := ''stopped'', sn_permission := ''full''\<rparr>"

lemma snap_ok_fresh [simp]: "snap_ok fresh_snapshot" "sn_last fresh_snapshot = 0" "sn_pending fresh_snapshot = []"
  by (simp_all add: snap_ok_def fresh_snapshot_def zero_snapshot_def)

lemma Replay_fresh: "Replay es = ReplayFrom fresh_snapshot es"
  by (simp add: Replay_def fresh_snapshot_def)

lemma ReplayFrom_ok:
  assumes "snap_ok s" "contiguous (sn_last s) es"
  shows "snap_ok (ReplayFrom s es)" "sn_last (ReplayFrom s es) = seq_from (sn_last s) es"
proof -
  obtain s' p' where f: "foldl replay_step (s, pending_map (sn_pending s)) es = (s', p')"
    by (cases "foldl replay_step (s, pending_map (sn_pending s)) es")
  have a: "pend_ok (sn_last s') p' \<and> sn_last s' = seq_from (sn_last s) es"
    by (rule replay_fold_ok [OF snap_ok_pend [OF assms(1)] assms(2) f])
  then have "pend_ok (sn_last s') p'" ..
  from snap_ok_close [OF this] show "snap_ok (ReplayFrom s es)" by (simp only: ReplayFrom_def f)
  from a show "sn_last (ReplayFrom s es) = seq_from (sn_last s) es"
    by (simp add: ReplayFrom_def f replay_close_def)
qed

lemma ReplayFrom_append:
  assumes "snap_ok s" "contiguous (sn_last s) (xs @ ys)"
  shows "ReplayFrom (ReplayFrom s xs) ys = ReplayFrom s (xs @ ys)"
proof -
  let ?x0 = "(s, pending_map (sn_pending s))"
  obtain s1 p1 where f: "foldl replay_step ?x0 xs = (s1, p1)" by (cases "foldl replay_step ?x0 xs")
  obtain s2 p2 where g: "foldl replay_step (s1, p1) ys = (s2, p2)" by (cases "foldl replay_step (s1, p1) ys")
  have c: "contiguous (sn_last s) xs" "contiguous (seq_from (sn_last s) xs) ys"
    using assms(2) by (simp_all add: contiguous_append)
  have a: "pend_ok (sn_last s1) p1" "sn_last s1 = seq_from (sn_last s) xs"
    using replay_fold_ok [OF snap_ok_pend [OF assms(1)] c(1) f] by auto
  have b: "pend_ok (sn_last s2) p2"
    using replay_fold_ok [OF a(1) _ g] c(2) unfolding a(2) by blast
  let ?r = "replay_close (s1, p1)"
  have "same_state (foldl replay_step (s1, p1) ys) (foldl replay_step (?r, pending_map (sn_pending ?r)) ys)"
    by (rule same_fold [OF same_reopen [OF a(1)]])
  then have "replay_close (s2, p2) = replay_close (foldl replay_step (?r, pending_map (sn_pending ?r)) ys)"
    using same_close [OF _ b] by (cases "foldl replay_step (?r, pending_map (sn_pending ?r)) ys") (simp add: g)
  then show ?thesis by (simp add: ReplayFrom_def f g)
qed

text \<open>A leading checkpoint stands for the events it replaced.\<close>

definition checkpoint_snapshot :: "event \<Rightarrow> snapshot" where
  "checkpoint_snapshot e = cp_snapshot (fst (unmarshal_payload dec_checkpoint (ev_payload e) zero_checkpoint))"

lemma Replay_checkpoint:
  assumes "ev_kind e = HistoryCheckpointKind" "valid_checkpoint e"
  shows "ReplayFrom s (e # es) = ReplayFrom (checkpoint_snapshot e) es"
  using assms
  by (auto simp: ReplayFrom_def valid_checkpoint_def checkpoint_snapshot_def split: prod.splits)

definition log_ok :: "event list \<Rightarrow> bool" where
  "log_ok es \<longleftrightarrow> log_shape es \<and>
     (case es of [] \<Rightarrow> True | e # _ \<Rightarrow> ev_kind e = HistoryCheckpointKind \<longrightarrow> snap_ok (checkpoint_snapshot e))"

lemma checkpoint_last: "valid_checkpoint e \<Longrightarrow> sn_last (checkpoint_snapshot e) = ev_seq e"
  by (auto simp: valid_checkpoint_def checkpoint_snapshot_def split: prod.splits)

text \<open>Every log replays as its tail from a snapshot that is in order.\<close>

lemma log_ok_base:
  assumes "log_ok es" "es \<noteq> []"
  obtains s tl where "snap_ok s" "contiguous (sn_last s) tl" "\<And>ys. Replay (es @ ys) = ReplayFrom s (tl @ ys)"
    "lastSeq es = seq_from (sn_last s) tl" "suffix tl es" "length es \<le> length tl + 1"
proof (cases es)
  case (Cons e r)
  show thesis
  proof (cases "ev_kind e = HistoryCheckpointKind")
    case True
    then have v: "valid_checkpoint e" "contiguous (ev_seq e) r" "snap_ok (checkpoint_snapshot e)"
      using assms(1) by (simp_all add: log_ok_def log_shape_def Cons)
    show thesis
      by (rule that [of "checkpoint_snapshot e" r])
        (use v True Replay_checkpoint in \<open>auto simp: Replay_def Cons checkpoint_last lastSeq_def suffix_def\<close>)
  next
    case False
    then have "contiguous 0 es" using assms(1) by (simp add: log_ok_def log_shape_def Cons)
    then show thesis
      by (intro that [of fresh_snapshot es]) (auto simp: Replay_fresh lastSeq_def)
  qed
qed (use assms(2) in simp)

lemma Replay_prefix:
  assumes "log_ok (xs @ ys)" "xs \<noteq> []"
  shows "ReplayFrom (Replay xs) ys = Replay (xs @ ys)"
proof -
  have shape: "log_ok xs"
    using assms by (cases xs) (auto simp: log_ok_def log_shape_def contiguous_append split: if_splits)
  show ?thesis
  proof (cases "ev_kind (hd xs) = HistoryCheckpointKind")
    case True
    obtain e r where xs: "xs = e # r" using assms(2) by (cases xs) auto
    then have "valid_checkpoint e" "contiguous (ev_seq e) (r @ ys)" "snap_ok (checkpoint_snapshot e)"
      using assms(1) True by (simp_all add: log_ok_def log_shape_def)
    then show ?thesis
      using True ReplayFrom_append [of "checkpoint_snapshot e" r ys]
      by (simp add: xs Replay_def Replay_checkpoint checkpoint_last)
  next
    case False
    then have "contiguous 0 (xs @ ys)"
      using assms by (cases xs) (simp_all add: log_ok_def log_shape_def)
    then show ?thesis using ReplayFrom_append [of fresh_snapshot xs ys] by (simp add: Replay_fresh)
  qed
qed

lemma Replay_order:
  assumes "log_ok es" "es \<noteq> []"
  shows "snap_ok (Replay es) \<and> sn_last (Replay es) = lastSeq es"
proof -
  obtain s tl where b: "snap_ok s" "contiguous (sn_last s) tl" "\<And>ys. Replay (es @ ys) = ReplayFrom s (tl @ ys)"
    "lastSeq es = seq_from (sn_last s) tl"
    using log_ok_base [OF assms] by metis
  from b(3) [of "[]"] have r: "Replay es = ReplayFrom s tl" by simp
  show ?thesis using ReplayFrom_ok [OF b(1,2)] by (simp add: r b(4))
qed

text \<open>The state can be advanced from any committed prefix: replaying the first part of a log
  and then the rest from its result is replaying the whole log, pending requests included.\<close>

theorem Replay_incremental:
  assumes "log_ok (xs @ ys)" "xs \<noteq> []"
  shows "ReplayFrom (Replay xs) ys = Replay (xs @ ys)"
  using assms by (rule Replay_prefix)

text \<open>Replaying a well-formed log gives a snapshot in order: its last sequence is the log's, and
  its pending requests are listed by sequence, each id once, none beyond the log.\<close>

theorem Replay_in_order:
  assumes "log_ok es" "es \<noteq> []"
  shows "snap_ok (Replay es) \<and> sn_last (Replay es) = lastSeq es"
  using assms by (rule Replay_order)

section \<open>What replay does not depend on\<close>

lemma pending_values: "x \<in> set (pending_map es) \<Longrightarrow> snd x \<in> set es"
proof (induction es rule: rev_induct)
  case (snoc e es)
  have "set (AList.update k v p) \<subseteq> insert (k, v) (set p)" for k v and p :: "(string, event) gomap"
    by (induction p) auto
  then show ?case using snoc by fastforce
qed simp

lemma replay_step_shed: "replay_step sp (shed_event k e) = replay_step sp e"
  by (cases sp) (simp add: shed_event_def kind_defs)

text \<open>Shedding the vendor stream does not change the state: a shed log replays as the log it was.\<close>

theorem Replay_shed: "ReplayFrom s (map (shed_event through) es) = ReplayFrom s es"
  by (simp add: ReplayFrom_def foldl_map replay_step_shed)

section \<open>Which requests are pending\<close>

text \<open>Nothing after a request, in run \<open>run\<close>, has answered it, asked it again, or ended its run.\<close>

fun open_after :: "string \<Rightarrow> string \<Rightarrow> event list \<Rightarrow> bool" where
  "open_after run r [] = True"
| "open_after run r (f # fs) =
     (if ev_kind f = ForkBoundaryKind then False
      else if ev_kind f = ''state'' \<and> ev_run f \<noteq> run then False
      else if (ev_kind f = ''approval'' \<or> ev_kind f = ''approval_resolved'') \<and> ev_request f = r then False
      else open_after run r fs)"

abbreviation no_checkpoint :: "event list \<Rightarrow> bool" where
  "no_checkpoint es \<equiv> \<forall>e\<in>set es. ev_kind e \<noteq> HistoryCheckpointKind"

lemma contiguous_no_checkpoint: "contiguous n es \<Longrightarrow> no_checkpoint es"
  by (induction es arbitrary: n) auto

lemma step_run: "ev_kind f \<noteq> HistoryCheckpointKind \<Longrightarrow> sn_run (fst (replay_step (s, p) f)) =
    (if ev_kind f = ForkBoundaryKind then [] else if ev_kind f = ''state'' then ev_run f else sn_run s)"
  by (auto simp: Let_def kind_defs)

lemma step_pending: "ev_kind f \<noteq> HistoryCheckpointKind \<Longrightarrow> map_of (snd (replay_step (s, p) f)) r =
    (if ev_kind f = ''approval'' \<and> ev_request f = r then Some f
     else if open_after (sn_run s) r [f] then map_of p r else None)"
  by (auto simp: Let_def kind_defs)

lemma fold_pending:
  "no_checkpoint fs \<Longrightarrow>
   map_of (snd (foldl replay_step sp fs)) r = Some e \<longleftrightarrow>
     (map_of (snd sp) r = Some e \<and> open_after (sn_run (fst sp)) r fs) \<or>
     (\<exists>pre post. fs = pre @ e # post \<and> ev_kind e = ''approval'' \<and> ev_request e = r \<and>
        open_after (sn_run (fst (foldl replay_step sp pre))) r post)"
proof (induction fs arbitrary: sp)
  case (Cons f fs)
  obtain s p where sp: "sp = (s, p)" by (cases sp)
  let ?y = "replay_step sp f"
  let ?E = "\<lambda>sp fs. \<exists>pre post. fs = pre @ e # post \<and> ev_kind e = ''approval'' \<and> ev_request e = r \<and>
        open_after (sn_run (fst (foldl replay_step sp pre))) r post"
  have k: "ev_kind f \<noteq> HistoryCheckpointKind" "no_checkpoint fs" using Cons.prems by auto
  have IH: "map_of (snd (foldl replay_step ?y fs)) r = Some e \<longleftrightarrow>
      (map_of (snd ?y) r = Some e \<and> open_after (sn_run (fst ?y)) r fs) \<or> ?E ?y fs"
    by (rule Cons.IH [OF k(2)])
  have split: "?E sp (f # fs) \<longleftrightarrow>
      (f = e \<and> ev_kind e = ''approval'' \<and> ev_request e = r \<and> open_after (sn_run (fst sp)) r fs) \<or> ?E ?y fs"
  proof
    assume "?E sp (f # fs)"
    then obtain pre post where e: "f # fs = pre @ e # post" "ev_kind e = ''approval''" "ev_request e = r"
      "open_after (sn_run (fst (foldl replay_step sp pre))) r post" by blast
    show "(f = e \<and> ev_kind e = ''approval'' \<and> ev_request e = r \<and> open_after (sn_run (fst sp)) r fs) \<or> ?E ?y fs"
    proof (cases pre)
      case Nil
      then show ?thesis using e by simp
    next
      case (Cons g pre')
      then have "fs = pre' @ e # post" "foldl replay_step sp pre = foldl replay_step ?y pre'" using e(1) by simp_all
      then show ?thesis using e(2-4) by auto
    qed
  next
    assume "(f = e \<and> ev_kind e = ''approval'' \<and> ev_request e = r \<and> open_after (sn_run (fst sp)) r fs) \<or> ?E ?y fs"
    then show "?E sp (f # fs)"
    proof
      assume "?E ?y fs"
      then obtain pre post where "fs = pre @ e # post" "ev_kind e = ''approval''" "ev_request e = r"
        "open_after (sn_run (fst (foldl replay_step ?y pre))) r post" by blast
      then show ?thesis by (intro exI [of _ "f # pre"] exI [of _ post]) simp
    qed (intro exI [of _ "[]"] exI [of _ fs], simp)
  qed
  have "map_of (snd ?y) r = Some e \<and> open_after (sn_run (fst ?y)) r fs \<longleftrightarrow>
      (map_of p r = Some e \<and> open_after (sn_run s) r (f # fs)) \<or>
      (f = e \<and> ev_kind e = ''approval'' \<and> ev_request e = r \<and> open_after (sn_run s) r fs)"
    unfolding sp step_run [OF k(1)] step_pending [OF k(1)]
    by (cases "ev_kind f = ForkBoundaryKind"; cases "ev_kind f = ''state''")
      (auto simp: kind_defs)
  then show ?case using IH split by (auto simp: sp simp del: replay_step.simps)
qed simp

text \<open>C24. A request is pending exactly when it was asked and nothing since has settled it: no
  resolution and no second request under its id, no state of another run, no fork.\<close>

theorem Replay_pending:
  assumes "contiguous 0 es"
  shows "e \<in> set (sn_pending (Replay es)) \<longleftrightarrow>
    (\<exists>pre post. es = pre @ e # post \<and> ev_kind e = ''approval'' \<and>
       open_after (sn_run (Replay pre)) (ev_request e) post)"
proof -
  let ?sp = "(fresh_snapshot, [])"
  have f: "ReplayFrom fresh_snapshot xs = replay_close (foldl replay_step ?sp xs)" for xs
    by (simp add: ReplayFrom_def)
  obtain s p where sp: "foldl replay_step ?sp es = (s, p)" by (cases "foldl replay_step ?sp es")
  have ok: "pend_ok (sn_last s) p"
    using replay_fold_ok [of fresh_snapshot "[]" es s p] sp assms by auto
  have run: "sn_run (Replay pre) = sn_run (fst (foldl replay_step ?sp pre))" for pre
    by (simp add: Replay_fresh f replay_close_def)
  have "e \<in> set (sn_pending (Replay es)) \<longleftrightarrow> map_of p (ev_request e) = Some e"
  proof -
    have "e \<in> set (sn_pending (Replay es)) \<longleftrightarrow> e \<in> snd ` set p"
      by (simp add: Replay_fresh f sp replay_close_def)
    also have "\<dots> \<longleftrightarrow> (ev_request e, e) \<in> set p" using ok by (force simp: pend_ok_def)
    also have "\<dots> \<longleftrightarrow> map_of p (ev_request e) = Some e"
      using ok by (auto simp: pend_ok_def wf_map_def dest: map_of_SomeD)
    finally show ?thesis .
  qed
  then show ?thesis
    using fold_pending [OF contiguous_no_checkpoint [OF assms], of ?sp "ev_request e" e] by (simp add: sp run)
qed

section \<open>Concrete instances\<close>

definition sample_kind :: "nat \<Rightarrow> string \<Rightarrow> string \<Rightarrow> event" where
  "sample_kind n k t = (sample_event n)\<lparr>ev_kind := k, ev_text := t, ev_request := ''q''\<rparr>"

lemmas sample_kind_defs = sample_kind_def sample_event_def zero_event_def kind_defs

theorem Replay_incremental_witness:
  "ReplayFrom (Replay [sample_kind 1 ''state'' ''running'', sample_kind 2 ''approval'' ''Bash''])
     [sample_kind 3 ''vendor'' ''v''] =
   Replay [sample_kind 1 ''state'' ''running'', sample_kind 2 ''approval'' ''Bash'', sample_kind 3 ''vendor'' ''v'']"
  using Replay_incremental [of "[sample_kind 1 ''state'' ''running'', sample_kind 2 ''approval'' ''Bash'']"
      "[sample_kind 3 ''vendor'' ''v'']"]
  by (simp add: log_ok_def log_shape_def) (simp add: sample_kind_defs)

theorem Replay_in_order_witness:
  "sn_last (Replay [sample_kind 1 ''state'' ''running'', sample_kind 2 ''approval'' ''Bash'']) = 2"
  using Replay_in_order [of "[sample_kind 1 ''state'' ''running'', sample_kind 2 ''approval'' ''Bash'']"]
  by (simp add: log_ok_def log_shape_def lastSeq_def) (simp add: sample_kind_defs)

theorem Replay_pending_witness:
  "sample_kind 2 ''approval'' ''Bash'' \<in>
     set (sn_pending (Replay [sample_kind 1 ''state'' ''running'', sample_kind 2 ''approval'' ''Bash''])) \<longleftrightarrow>
   (\<exists>pre post. [sample_kind 1 ''state'' ''running'', sample_kind 2 ''approval'' ''Bash''] =
       pre @ sample_kind 2 ''approval'' ''Bash'' # post \<and>
     ev_kind (sample_kind 2 ''approval'' ''Bash'') = ''approval'' \<and>
     open_after (sn_run (Replay pre)) (ev_request (sample_kind 2 ''approval'' ''Bash'')) post)"
  by (rule Replay_pending) (simp add: sample_kind_defs)

end
