(* ===== verification/Background.thy ===== *)
theory Background
  imports Core
begin

text \<open>
  \<^verbatim>\<open>internal/agentview/background.go\<close>: work a provider runs outside the foreground turn, as its
  telemetry reports it.  \<open>Apply\<close> takes the bytes of one frame; here it takes the document they
  hold, \<open>None\<close> when they are not one.  A nil task map is \<open>None\<close>.
\<close>

record background_task =
  bt_id :: string
  bt_tool :: string
  bt_description :: string
  bt_status :: string
  bt_summary :: string
  bt_output :: string
  bt_active :: bool

definition zero_task :: background_task where
  "zero_task = \<lparr>bt_id = [], bt_tool = [], bt_description = [], bt_status = [], bt_summary = [],
     bt_output = [], bt_active = False\<rparr>"

record background_event =
  be_task :: background_task
  be_type :: string
  be_provider :: string
  be_subtype :: string
  be_backgrounded :: bool
  be_tasks :: "background_task list"
  be_patch :: background_task

definition zero_background_event :: background_event where
  "zero_background_event = \<lparr>be_task = zero_task, be_type = [], be_provider = [], be_subtype = [],
     be_backgrounded = False, be_tasks = [], be_patch = zero_task\<rparr>"

text \<open>The fields of a task; in an event they stand beside the event's own (an embedded struct).\<close>

definition dec_task_fields :: "(string \<times> json) list \<Rightarrow> background_task \<Rightarrow> background_task \<times> bool" where
  "dec_task_fields kvs t =
     (let (a, oka) = dec_field ''task_id'' dec_string kvs (bt_id t);
          (b, okb) = dec_field ''tool_use_id'' dec_string kvs (bt_tool t);
          (c, okc) = dec_field ''description'' dec_string kvs (bt_description t);
          (d, okd) = dec_field ''status'' dec_string kvs (bt_status t);
          (e, oke) = dec_field ''summary'' dec_string kvs (bt_summary t);
          (f, okf) = dec_field ''output_file'' dec_string kvs (bt_output t);
          (g, okg) = dec_field ''active'' dec_bool kvs (bt_active t)
      in (\<lparr>bt_id = a, bt_tool = b, bt_description = c, bt_status = d, bt_summary = e, bt_output = f,
           bt_active = g\<rparr>, oka \<and> okb \<and> okc \<and> okd \<and> oke \<and> okf \<and> okg))"

definition dec_task :: "background_task dec" where
  "dec_task = dec_struct dec_task_fields"

definition dec_background_event :: "background_event dec" where
  "dec_background_event = dec_struct (\<lambda>kvs v.
     let (a, oka) = dec_task_fields kvs (be_task v);
         (b, okb) = dec_field ''type'' dec_string kvs (be_type v);
         (c, okc) = dec_field ''provider'' dec_string kvs (be_provider v);
         (d, okd) = dec_field ''subtype'' dec_string kvs (be_subtype v);
         (e, oke) = dec_field ''is_backgrounded'' dec_bool kvs (be_backgrounded v);
         (f, okf) = dec_field ''tasks'' (dec_list zero_task dec_task) kvs (be_tasks v);
         (g, okg) = dec_field ''patch'' dec_task kvs (be_patch v)
     in (\<lparr>be_task = a, be_type = b, be_provider = c, be_subtype = d, be_backgrounded = e, be_tasks = f,
          be_patch = g\<rparr>, oka \<and> okb \<and> okc \<and> okd \<and> oke \<and> okf \<and> okg))"

definition background_kind :: "background_event \<Rightarrow> bool" where
  "background_kind e =
     (if be_type e = ''background'' \<and> be_provider e = ''codex''
      then be_subtype e = ''background_tasks_changed'' \<or> be_subtype e = ''background_status''
      else if be_type e \<noteq> ''system'' then False
      else be_subtype e \<in> {''background_tasks_changed'', ''task_started'', ''task_updated'', ''task_notification''})"

definition IsBackgroundEvent :: "json option \<Rightarrow> bool" where
  "IsBackgroundEvent raw =
     (case unmarshal_payload dec_background_event raw zero_background_event of
        (e, ok) \<Rightarrow> ok \<and> background_kind e)"

record background_state =
  bs_tasks :: "(string, background_task) gomap option"
  bs_snapshot :: bool
  bs_unavailable :: bool

definition zero_background :: background_state where
  "zero_background = \<lparr>bs_tasks = None, bs_snapshot = False, bs_unavailable = False\<rparr>"

definition tasks_of :: "background_state \<Rightarrow> (string, background_task) gomap" where
  "tasks_of s = (case bs_tasks s of None \<Rightarrow> [] | Some m \<Rightarrow> m)"

definition mergeTask :: "background_task \<Rightarrow> background_task \<Rightarrow> background_task" where
  "mergeTask dst src =
     dst\<lparr>bt_id := (if bt_id src \<noteq> [] then bt_id src else bt_id dst),
         bt_tool := (if bt_tool src \<noteq> [] then bt_tool src else bt_tool dst),
         bt_description := (if bt_description src \<noteq> [] then bt_description src else bt_description dst),
         bt_status := (if bt_status src \<noteq> [] then bt_status src else bt_status dst),
         bt_summary := (if bt_summary src \<noteq> [] then bt_summary src else bt_summary dst),
         bt_output := (if bt_output src \<noteq> [] then bt_output src else bt_output dst)\<rparr>"

definition listed_step :: "(string, background_task) gomap \<Rightarrow> background_task \<Rightarrow> (string, background_task) gomap" where
  "listed_step m t =
     (if bt_id t = [] then m
      else AList.update (bt_id t)
        ((mergeTask (get_or zero_task m (bt_id t)) t)\<lparr>bt_active := True, bt_status := ''working''\<rparr>) m)"

definition deactivate :: "string \<Rightarrow> background_task \<Rightarrow> background_task" where
  "deactivate provider t =
     (let t = t\<lparr>bt_active := False\<rparr> in if provider = ''codex'' then t\<lparr>bt_status := ''inactive''\<rparr> else t)"

definition terminal_status :: "string \<Rightarrow> bool" where
  "terminal_status s \<longleftrightarrow> s \<in> {''completed'', ''failed'', ''stopped'', ''cancelled'', ''canceled''}"

text \<open>What an event does to a task it names: \<open>started\<close> is a backgrounded \<open>task_started\<close>.\<close>

definition advance_task :: "background_event \<Rightarrow> background_task \<Rightarrow> background_task" where
  "advance_task e t =
     (let started = be_subtype e = ''task_started'' \<and> be_backgrounded e;
          t = mergeTask t (be_task e);
          t = (if started then t\<lparr>bt_active := True, bt_status := ''working''\<rparr> else t);
          t = (if be_subtype e = ''task_updated'' then mergeTask t (be_patch e) else t)
      in if terminal_status (bt_status t) then t\<lparr>bt_active := False\<rparr> else t)"

definition apply_event :: "background_state \<Rightarrow> background_event \<Rightarrow> background_state" where
  "apply_event s e =
     (let m = tasks_of s; s = s\<lparr>bs_tasks := Some m\<rparr> in
      if be_subtype e = ''background_status'' then s\<lparr>bs_unavailable := True, bs_snapshot := False\<rparr>
      else
        let s = s\<lparr>bs_unavailable := False\<rparr> in
        if be_subtype e = ''background_tasks_changed'' then
          s\<lparr>bs_snapshot := True,
            bs_tasks := Some (foldl listed_step (map (\<lambda>(id, t). (id, deactivate (be_provider e) t)) m) (be_tasks e))\<rparr>
        else
          let id = bt_id (be_task e) in
          if id = [] then s
          else if \<not> has_key m id \<and> \<not> (be_subtype e = ''task_started'' \<and> be_backgrounded e) then s
          else s\<lparr>bs_tasks := Some (AList.update id (advance_task e (get_or zero_task m id)) m)\<rparr>)"

definition Apply :: "background_state \<Rightarrow> json option \<Rightarrow> background_state" where
  "Apply s raw =
     (if \<not> IsBackgroundEvent raw then s
      else apply_event s (fst (unmarshal_payload dec_background_event raw zero_background_event)))"

definition any_active :: "background_state \<Rightarrow> bool" where
  "any_active s \<longleftrightarrow> (\<exists>(id, t)\<in>set (tasks_of s). bt_active t)"

section \<open>Lemmas\<close>

definition active_ids :: "background_state \<Rightarrow> string set" where
  "active_ids s = {id. \<exists>t. map_of (tasks_of s) id = Some t \<and> bt_active t}"

definition background_ok :: "background_state \<Rightarrow> bool" where
  "background_ok s \<longleftrightarrow> wf_map (tasks_of s) \<and> (\<forall>(id, t)\<in>set (tasks_of s). id \<noteq> [])"

lemma tasks_of_update [simp]:
  "tasks_of (s\<lparr>bs_tasks := Some m\<rparr>) = m" "tasks_of (s\<lparr>bs_snapshot := b\<rparr>) = tasks_of s"
  "tasks_of (s\<lparr>bs_unavailable := b\<rparr>) = tasks_of s"
  by (simp_all add: tasks_of_def)

lemma listed_active:
  "(\<exists>t. map_of (foldl listed_step m ts) i = Some t \<and> bt_active t) \<longleftrightarrow>
     (\<exists>t. map_of m i = Some t \<and> bt_active t) \<or> (i \<noteq> [] \<and> i \<in> bt_id ` set ts)"
  by (induction ts arbitrary: m) (auto simp: listed_step_def split: if_splits)

lemma wf_listed: "wf_map m \<Longrightarrow> wf_map (foldl listed_step m ts)"
  by (induction ts arbitrary: m) (auto simp: listed_step_def)

lemma keys_listed: "fst ` set (foldl listed_step m ts) = fst ` set m \<union> {i \<in> bt_id ` set ts. i \<noteq> []}"
  by (induction ts arbitrary: m) (auto simp: listed_step_def dom_update)

lemma map_of_deactivate:
  "map_of (map (\<lambda>(i, t). (i, deactivate p t)) m) i = map_option (deactivate p) (map_of m i)"
  by (induction m) auto

lemma deactivate_active [simp]: "\<not> bt_active (deactivate p t)"
  by (simp add: deactivate_def Let_def)

lemma apply_event_ok: "background_ok s \<Longrightarrow> background_ok (apply_event s e)"
proof -
  assume ok: "background_ok s"
  have keys: "background_ok t \<longleftrightarrow> wf_map (tasks_of t) \<and> [] \<notin> fst ` set (tasks_of t)" for t
    by (auto simp: background_ok_def image_iff)
  have d: "fst ` set (map (\<lambda>(i, t). (i, deactivate p t)) m) = fst ` set m"
    "wf_map (map (\<lambda>(i, t). (i, deactivate p t)) m) = wf_map m" for p and m :: "(string, background_task) gomap"
    by (force simp: image_iff wf_map_def comp_def case_prod_unfold)+
  show ?thesis
    using ok unfolding keys apply_event_def Let_def
    by (auto simp: wf_listed d keys_listed dom_update simp del: set_map)
qed

text \<open>C32. A provider's list of background tasks is authoritative: after it, the active tasks are
  exactly those it lists by id, whatever was known before, and an unavailable status is over.\<close>

theorem Apply_snapshot:
  assumes "unmarshal_payload dec_background_event raw zero_background_event = (e, True)" "background_kind e"
    and "be_subtype e = ''background_tasks_changed''"
  shows "active_ids (Apply s raw) = {i \<in> bt_id ` set (be_tasks e). i \<noteq> []} \<and>
    bs_snapshot (Apply s raw) \<and> \<not> bs_unavailable (Apply s raw)"
  using assms
  by (auto simp: Apply_def IsBackgroundEvent_def apply_event_def Let_def active_ids_def listed_active map_of_deactivate)

text \<open>Between two lists only the task an event names changes, a task nobody announced in the
  background is never made up, and a task whose status is final is not active.\<close>

theorem Apply_single:
  assumes "unmarshal_payload dec_background_event raw zero_background_event = (e, True)" "background_kind e"
    and "be_subtype e \<noteq> ''background_tasks_changed''"
  shows "(\<forall>i. i \<noteq> bt_id (be_task e) \<longrightarrow> map_of (tasks_of (Apply s raw)) i = map_of (tasks_of s) i) \<and>
    (has_key (tasks_of (Apply s raw)) (bt_id (be_task e)) \<longrightarrow> has_key (tasks_of s) (bt_id (be_task e)) \<or>
       be_subtype e = ''task_started'' \<and> be_backgrounded e) \<and>
    (\<forall>t. map_of (tasks_of (Apply s raw)) (bt_id (be_task e)) = Some t \<and>
       map_of (tasks_of s) (bt_id (be_task e)) \<noteq> Some t \<and> terminal_status (bt_status t) \<longrightarrow> \<not> bt_active t)"
  using assms
  by (auto simp: Apply_def IsBackgroundEvent_def apply_event_def advance_task_def Let_def split: if_splits)

lemma Apply_ok: "background_ok s \<Longrightarrow> background_ok (Apply s raw)"
  by (simp add: Apply_def apply_event_ok)

lemma background_ok_zero [simp]: "background_ok zero_background"
  by (simp add: background_ok_def zero_background_def tasks_of_def)

lemma any_active_ids: "background_ok s \<Longrightarrow> any_active s \<longleftrightarrow> active_ids s \<noteq> {}"
  by (auto simp: any_active_def active_ids_def background_ok_def wf_map_def dest: map_of_SomeD)

definition sample_tasks :: json where
  "sample_tasks = JObj [(''type'', JStr ''background''), (''provider'', JStr ''codex''),
     (''subtype'', JStr ''background_tasks_changed''),
     (''tasks'', JArr [JObj [(''task_id'', JStr ''a'')], JObj [(''task_id'', JStr [])]])]"

definition sample_started :: json where
  "sample_started = JObj [(''type'', JStr ''system''), (''subtype'', JStr ''task_started''),
     (''is_backgrounded'', JBool True), (''task_id'', JStr ''b'')]"

lemmas background_eval = dec_background_event_def dec_task_fields_def dec_task_def dec_field_def
  unmarshal_payload_def zero_background_event_def zero_task_def key_simps background_kind_def

theorem Apply_snapshot_witness:
  "active_ids (Apply (Apply zero_background (Some sample_started)) (Some sample_tasks)) = {''a''}"
proof -
  obtain e where e: "unmarshal_payload dec_background_event (Some sample_tasks) zero_background_event = (e, True)"
    "background_kind e" "be_subtype e = ''background_tasks_changed''" "map bt_id (be_tasks e) = [''a'', []]"
    by (simp add: background_eval sample_tasks_def)
  from e(4) have "bt_id ` set (be_tasks e) = {''a'', []}" by (metis list.set_map list.set)
  then show ?thesis using Apply_snapshot [OF e(1-3)] by auto
qed

theorem Apply_single_witness:
  "map_of (tasks_of (Apply (Apply zero_background (Some sample_tasks)) (Some sample_started))) ''a'' =
   map_of (tasks_of (Apply zero_background (Some sample_tasks))) ''a''"
proof -
  obtain e where e: "unmarshal_payload dec_background_event (Some sample_started) zero_background_event = (e, True)"
    "background_kind e" "be_subtype e \<noteq> ''background_tasks_changed''" "bt_id (be_task e) = ''b''"
    by (simp add: background_eval sample_started_def)
  then show ?thesis using Apply_single [OF e(1-3), of "Apply zero_background (Some sample_tasks)"] by simp
qed

end
