(* ===== verification/History.thy ===== *)
theory History
  imports Replay Sha256 Background
begin

text \<open>
  The pure part of \<^verbatim>\<open>internal/supervisor/history.go\<close>: command records and their digests, the
  events a restart resumes from, the checkpoint that stands for a prefix of the conversation,
  and the choice of where to cut and how far to shed.  The handler that applies them to a
  running supervisor is in theory \<open>Supervisor\<close>.
\<close>

section \<open>Command records\<close>

record command_record =
  rd_digest :: string
  rd_op :: string
  rd_command :: command
  rd_status :: string

definition zero_record :: command_record where
  "zero_record = \<lparr>rd_digest = [], rd_op = [], rd_command = zero_command, rd_status = []\<rparr>"

definition record_json :: "command_record \<Rightarrow> json" where
  "record_json r = JObj (
     omit (rd_digest r = []) ''digest'' (JStr (rd_digest r)) @
     [(''op'', JStr (rd_op r)), (''command'', command_json (rd_command r)), (''status'', JStr (rd_status r))])"

text \<open>A JSON object into a Go map: each key once, later ones over earlier ones.\<close>

fun dec_entries :: "'v \<Rightarrow> 'v dec \<Rightarrow> (string \<times> json) list \<Rightarrow> (string, 'v) gomap \<times> bool \<Rightarrow> (string, 'v) gomap \<times> bool" where
  "dec_entries z e [] st = st"
| "dec_entries z e ((k, j) # kvs) (m, ok) =
     (case e j z of (v, ok') \<Rightarrow> dec_entries z e kvs (AList.update k v m, ok \<and> ok'))"

fun dec_map :: "'v \<Rightarrow> 'v dec \<Rightarrow> (string, 'v) gomap dec" where
  "dec_map z e (JObj kvs) d = dec_entries z e kvs (d, True)"
| "dec_map z e JNull d = ([], True)"
| "dec_map z e _ d = (d, False)"

definition zero_selection :: answer_selection where
  "zero_selection = \<lparr>as_selected = [], as_other = []\<rparr>"

definition dec_selection :: "answer_selection dec" where
  "dec_selection = dec_struct (\<lambda>kvs v.
     let (a, oka) = dec_field ''selected'' (dec_list [] dec_string) kvs (as_selected v);
         (b, okb) = dec_field ''other'' dec_string kvs (as_other v)
     in (\<lparr>as_selected = a, as_other = b\<rparr>, oka \<and> okb))"

definition dec_command :: "command dec" where
  "dec_command = dec_struct (\<lambda>kvs v.
     let (a, oka) = dec_field ''busy'' dec_bool kvs (cm_busy v);
         (b, okb) = dec_field ''run_id'' dec_string kvs (cm_run v);
         (c, okc) = dec_field ''client_id'' dec_string kvs (cm_client v);
         (d, okd) = dec_field ''text'' dec_string kvs (cm_text v);
         (e, oke) = dec_field ''request_id'' dec_string kvs (cm_request v);
         (f, okf) = dec_field ''allow'' dec_bool kvs (cm_allow v);
         (g, okg) = dec_field ''answers'' (dec_map [] dec_string) kvs (cm_answers v);
         (h, okh) = dec_field ''selections'' (dec_map zero_selection dec_selection) kvs (cm_selections v)
     in (\<lparr>cm_busy = a, cm_run = b, cm_client = c, cm_text = d, cm_request = e, cm_allow = f,
          cm_answers = g, cm_selections = h\<rparr>,
         oka \<and> okb \<and> okc \<and> okd \<and> oke \<and> okf \<and> okg \<and> okh))"

definition dec_record :: "command_record dec" where
  "dec_record = dec_struct (\<lambda>kvs v.
     let (a, oka) = dec_field ''digest'' dec_string kvs (rd_digest v);
         (b, okb) = dec_field ''op'' dec_string kvs (rd_op v);
         (c, okc) = dec_field ''command'' dec_command kvs (rd_command v);
         (d, okd) = dec_field ''status'' dec_string kvs (rd_status v)
     in (\<lparr>rd_digest = a, rd_op = b, rd_command = c, rd_status = d\<rparr>, oka \<and> okb \<and> okc \<and> okd))"

definition commandDigest :: "command \<Rightarrow> string" where
  "commandDigest c = sha256_hex (print_json (command_json c))"

definition compactRecord :: "command_record \<Rightarrow> command_record" where
  "compactRecord r =
     r\<lparr>rd_digest := (if rd_digest r = [] then commandDigest (rd_command r) else rd_digest r),
       rd_command := zero_command\<lparr>cm_client := cm_client (rd_command r), cm_run := cm_run (rd_command r)\<rparr>\<rparr>"

text \<open>The test of \<open>executeLocked\<close> that a client id is being reused for something else.\<close>

definition record_conflicts :: "command_record \<Rightarrow> string \<Rightarrow> command \<Rightarrow> bool" where
  "record_conflicts old op c \<longleftrightarrow>
     rd_op old \<noteq> op \<or> (rd_digest old \<noteq> [] \<and> rd_digest old \<noteq> commandDigest c) \<or>
     (rd_digest old = [] \<and> print_json (command_json (rd_command old)) \<noteq> print_json (command_json c))"

section \<open>What a restart resumes from\<close>

definition checkpoint_of :: "json option \<Rightarrow> checkpoint" where
  "checkpoint_of p = fst (unmarshal_payload dec_checkpoint p zero_checkpoint)"

definition resume_step :: "event list \<Rightarrow> event \<Rightarrow> event list" where
  "resume_step out e =
     (if ev_kind e = ForkBoundaryKind then []
      else if ev_kind e = HistoryCheckpointKind then out @ cp_resume (checkpoint_of (ev_payload e))
      else out @ [e])"

definition resumeEvents :: "event list \<Rightarrow> event list" where
  "resumeEvents es = foldl resume_step [] es"

text \<open>The receipts \<open>Run\<close> recovers from them.\<close>

definition receipt_kind :: "event \<Rightarrow> bool" where
  "receipt_kind e \<longleftrightarrow> ev_kind e = ''intent'' \<or> ev_kind e = ''receipt'' \<or> (ev_kind e = ''permission'' \<and> ev_request e \<noteq> [])"

definition record_of :: "event \<Rightarrow> command_record option" where
  "record_of e =
     (if receipt_kind e then
        (case unmarshal_payload dec_record (ev_payload e) zero_record of (r, ok) \<Rightarrow> if ok then Some r else None)
      else None)"

definition recover_step :: "(string, command_record) gomap \<Rightarrow> event \<Rightarrow> (string, command_record) gomap" where
  "recover_step m e =
     (case record_of e of None \<Rightarrow> m | Some r \<Rightarrow> AList.update (cm_client (rd_command r)) r m)"

definition recover_receipts :: "event list \<Rightarrow> (string, command_record) gomap" where
  "recover_receipts es = foldl recover_step [] es"

section \<open>The checkpoint\<close>

datatype history_error = Empty_checkpoint | Not_a_boundary | Bad_record

definition settled_state :: "string \<Rightarrow> bool" where
  "settled_state s \<longleftrightarrow> s = ''idle'' \<or> s = ''stopped'' \<or> s = ''failed'' \<or> s = ''interrupted''"

definition receipt_key :: "string \<Rightarrow> string" where
  "receipt_key c = ''receipt:'' @ c"

definition latest_step :: "(string, event) gomap \<Rightarrow> event \<Rightarrow> history_error + (string, event) gomap" where
  "latest_step m e =
     (if ev_kind e = ''background'' then Inr (AList.update (''background:'' @ ev_run e) e m)
      else if ev_kind e = ''setting'' then Inr (AList.update (''setting:'' @ ev_text e) e m)
      else if ev_kind e = ''intent'' \<or> ev_kind e = ''receipt'' \<or> ev_kind e = ''permission'' then
        (if ev_request e = [] then Inr m
         else case unmarshal_payload dec_record (ev_payload e) zero_record of (r, ok) \<Rightarrow>
           if \<not> ok then Inl Bad_record
           else
             let r = compactRecord r;
                 e = e\<lparr>ev_payload := Some (record_json r), ev_raw := [], ev_text := [], ev_kind := ''receipt''\<rparr>
             in Inr (AList.update (receipt_key (cm_client (rd_command r))) e m))
      else Inr m)"

fun latest_of :: "(string, event) gomap \<Rightarrow> event list \<Rightarrow> history_error + (string, event) gomap" where
  "latest_of m [] = Inr m"
| "latest_of m (e # es) = bind_res (latest_step m e) (\<lambda>m. latest_of m es)"

definition sorted_values :: "(string, event) gomap \<Rightarrow> event list" where
  "sorted_values m = map (\<lambda>k. the (map_of m k)) (sort (map fst m))"

definition makeHistoryCheckpoint :: "event list \<Rightarrow> history_error + event" where
  "makeHistoryCheckpoint es =
     (if es = [] then Inl Empty_checkpoint
      else
        let snap = Replay es in
        if sn_pending snap \<noteq> [] \<or> \<not> settled_state (sn_state snap) then Inl Not_a_boundary
        else bind_res (latest_of [] (resumeEvents es)) (\<lambda>latest.
          let c = \<lparr>cp_version = 1, cp_snapshot = snap, cp_resume = sorted_values latest\<rparr>;
              l = last es
          in Inr (zero_event\<lparr>ev_session := ev_session l, ev_run := ev_run l, ev_seq := ev_seq l,
                  ev_time := ev_time l, ev_kind := HistoryCheckpointKind,
                  ev_payload := Some (checkpoint_json c)\<rparr>)))"

section \<open>Where to cut, and how far to shed\<close>

fun last_input_from :: "nat \<Rightarrow> nat option \<Rightarrow> event list \<Rightarrow> nat option" where
  "last_input_from i acc [] = acc"
| "last_input_from i acc (e # es) = last_input_from (Suc i) (if ev_kind e = ''input'' then Some i else acc) es"

abbreviation last_input :: "event list \<Rightarrow> nat option" where
  "last_input es \<equiv> last_input_from 0 None es"

definition stored_size :: "event \<Rightarrow> int" where
  "stored_size e = int (length (print_json (event_json e)) + 1)"

record cut_state =
  cs_pending :: "(string, bool) gomap"
  cs_run :: string
  cs_background :: background_state

definition cut_step :: "cut_state \<Rightarrow> event \<Rightarrow> cut_state" where
  "cut_step c e =
     (let k = ev_kind e in
      if k = HistoryCheckpointKind then
        let s = cp_snapshot (checkpoint_of (ev_payload e))
        in c\<lparr>cs_run := sn_run s,
             cs_pending := foldl (\<lambda>p v. AList.update (ev_request v) True p) (cs_pending c) (sn_pending s)\<rparr>
      else if k = ''state'' then
        (if cs_run c \<noteq> ev_run e then \<lparr>cs_pending = [], cs_run = ev_run e, cs_background = zero_background\<rparr> else c)
      else if k = ''approval'' then c\<lparr>cs_pending := AList.update (ev_request e) True (cs_pending c)\<rparr>
      else if k = ''approval_resolved'' then c\<lparr>cs_pending := AList.delete (ev_request e) (cs_pending c)\<rparr>
      else if k = ''raw'' then
        (if IsBackgroundEvent (parse_json (ev_raw e))
         then c\<lparr>cs_background := Apply (cs_background c) (parse_json (ev_raw e))\<rparr> else c)
      else if k = ''background'' then c\<lparr>cs_background := Apply (cs_background c) (ev_payload e)\<rparr>
      else c)"

fun cut_scan :: "int \<Rightarrow> nat \<Rightarrow> nat \<Rightarrow> cut_state \<Rightarrow> int \<Rightarrow> event list \<Rightarrow> nat option" where
  "cut_scan target lastInput i c remaining [] = None"
| "cut_scan target lastInput i c remaining (e # es) =
     (let c = cut_step c e; remaining = remaining - stored_size e in
      if lastInput \<le> i then None
      else if ev_kind e = ''state'' \<and> settled_state (ev_text e) \<and> remaining \<le> target \<and> cs_pending c = []
              \<and> \<not> any_active (cs_background c)
      then Some i
      else cut_scan target lastInput (Suc i) c remaining es)"

definition zero_cut :: cut_state where
  "zero_cut = \<lparr>cs_pending = [], cs_run = [], cs_background = zero_background\<rparr>"

definition find_cut :: "int \<Rightarrow> event list \<Rightarrow> nat option" where
  "find_cut limit es =
     cut_scan (limit * 8 div 10)
       (case last_input es of None \<Rightarrow> length es - 1 | Some i \<Rightarrow> i)
       0 zero_cut (sum_list (map stored_size es)) es"

text \<open>\<open>shedRaw\<close>: the sequence through which vendor payloads go, 0 for none.\<close>

fun shed_scan :: "int \<Rightarrow> nat option \<Rightarrow> nat \<Rightarrow> int \<Rightarrow> nat \<Rightarrow> event list \<Rightarrow> nat" where
  "shed_scan target lastInput i remaining through [] = through"
| "shed_scan target lastInput i remaining through (e # es) =
     (if (case lastInput of None \<Rightarrow> False | Some n \<Rightarrow> n \<le> i) then through
      else if ev_kind e \<noteq> ''raw'' \<or> ev_raw e = [] then shed_scan target lastInput (Suc i) remaining through es
      else if remaining \<le> target then through
      else shed_scan target lastInput (Suc i) (remaining - int (length (ev_raw e))) (ev_seq e) es)"

definition shed_through :: "int \<Rightarrow> event list \<Rightarrow> nat" where
  "shed_through limit es = shed_scan (limit * 8 div 10) (last_input es) 0 (int (raw_bytes es)) 0 es"


section \<open>Decoded events can be written again\<close>

lemma dec_fold_inv:
  assumes "\<And>k j v. (k, j) \<in> set kvs \<Longrightarrow> P v \<Longrightarrow> P (fst (e j v))" "P v"
  shows "P (fst (dec_fold n e kvs (v, ok)))"
  using assms
proof (induction kvs arbitrary: v ok)
  case (Cons kv kvs)
  obtain k j where kv: "kv = (k, j)" by (cases kv)
  obtain v' ok' where e: "e j v = (v', ok')" by (cases "e j v")
  have "P v'" using Cons.prems(1) [of k j v] Cons.prems(2) by (simp add: kv e)
  moreover have "P (fst (e i w))" if "(l, i) \<in> set kvs" "P w" for l i w
    using Cons.prems(1) [of l i w] that by simp
  ultimately show ?case using Cons.IH Cons.prems(2) by (simp add: kv e)
qed simp

lemma dec_field_inv:
  assumes "dec_field n e kvs v = (v', ok)" "\<And>k j v. (k, j) \<in> set kvs \<Longrightarrow> P v \<Longrightarrow> P (fst (e j v))" "P v"
  shows "P v'"
  using dec_fold_inv [of kvs P e v n True] assms by (simp add: dec_field_def)

lemma dec_uint64_bound: "(n::nat) < 2 ^ 64 \<Longrightarrow> fst (dec_uint64 j n) < 2 ^ 64"
  by (cases "(j, n)" rule: dec_uint64.cases) auto

lemma dec_int64_bound:
  "- (2 ^ 63) \<le> i \<and> i < 2 ^ 63 \<Longrightarrow> - (2 ^ 63) \<le> fst (dec_int64 j i) \<and> fst (dec_int64 j i) < 2 ^ 63"
  by (cases "(j, i)" rule: dec_int64.cases) auto

lemma dec_event_ok:
  assumes "wf_json j" "ok_event v"
  shows "ok_event (fst (dec_event j v))"
proof (cases j)
  case (JObj kvs)
  have wf: "wf_json x" if "(k, x) \<in> set kvs" for k x using assms(1) that by (auto simp: JObj list_all_iff)
  obtain c okc where c: "dec_field ''seq'' dec_uint64 kvs (ev_seq v) = (c, okc)" by fastforce
  obtain d okd where d: "dec_field ''time_ms'' dec_int64 kvs (ev_time v) = (d, okd)" by fastforce
  obtain h okh where h: "dec_field ''payload'' dec_raw kvs (ev_payload v) = (h, okh)" by fastforce
  have "c < 2 ^ 64" by (rule dec_field_inv [OF c]) (use assms(2) dec_uint64_bound in \<open>auto simp: ok_event_def\<close>)
  moreover have "- (2 ^ 63) \<le> d \<and> d < 2 ^ 63"
    by (rule dec_field_inv [OF d]) (use assms(2) dec_int64_bound in \<open>auto simp: ok_event_def\<close>)
  moreover have "case h of None \<Rightarrow> True | Some p \<Rightarrow> wf_json p"
    by (rule dec_field_inv [OF h]) (use assms(2) wf in \<open>auto simp: ok_event_def\<close>)
  ultimately show ?thesis
    by (simp add: dec_event_def JObj c d h case_prod_unfold Let_def ok_event_def split: option.splits)
qed (simp_all add: dec_event_def assms(2))

lemma ok_event_zero [simp]: "ok_event zero_event"
  by (simp add: ok_event_def zero_event_def)

lemma dec_events_ok:
  assumes "wf_json j" "list_all ok_event es"
  shows "list_all ok_event (fst (dec_list zero_event dec_event j es))"
  using assms dec_event_ok
  by (cases "(zero_event, dec_event, j, es)" rule: dec_list.cases) (auto simp: list_all_iff)

lemma checkpoint_resume_ok:
  assumes "case p of None \<Rightarrow> True | Some j \<Rightarrow> wf_json j"
  shows "list_all ok_event (cp_resume (checkpoint_of p))"
proof (cases p)
  case (Some j)
  show ?thesis
  proof (cases j)
    case (JObj kvs)
    obtain c okc where c: "dec_field ''resume'' (dec_list zero_event dec_event) kvs [] = (c, okc)" by fastforce
    have "list_all ok_event c"
      by (rule dec_field_inv [OF c]) (use assms dec_events_ok in \<open>auto simp: Some JObj list_all_iff\<close>)
    then show ?thesis
      by (simp add: checkpoint_of_def unmarshal_payload_def Some JObj dec_checkpoint_def case_prod_unfold Let_def
          c zero_checkpoint_def)
  qed (simp_all add: checkpoint_of_def unmarshal_payload_def Some dec_checkpoint_def zero_checkpoint_def)
qed (simp add: checkpoint_of_def unmarshal_payload_def zero_checkpoint_def)

lemma resume_snoc: "resumeEvents (es @ [e]) = resume_step (resumeEvents es) e"
  by (simp add: resumeEvents_def)

lemma resume_ok: "list_all ok_event es \<Longrightarrow> list_all ok_event (resumeEvents es)"
proof (induction es rule: rev_induct)
  case (snoc e es)
  then have "list_all ok_event (cp_resume (checkpoint_of (ev_payload e)))"
    by (intro checkpoint_resume_ok) (simp add: ok_event_def)
  then show ?case using snoc by (simp add: resume_snoc resume_step_def)
qed (simp add: resumeEvents_def)

text \<open>Past the head there is no checkpoint, and a fork starts the resumption over.\<close>

lemma resume_append:
  "resumeEvents (xs @ ys) =
    (if \<exists>e\<in>set ys. ev_kind e = ForkBoundaryKind then resumeEvents ys else resumeEvents xs @ resumeEvents ys)"
proof (induction ys rule: rev_induct)
  case (snoc y ys)
  have "resumeEvents (xs @ ys @ [y]) = resume_step (resumeEvents (xs @ ys)) y"
    by (simp only: append_assoc [symmetric] resume_snoc)
  then show ?case using snoc by (auto simp: resume_snoc resume_step_def)
qed (simp add: resumeEvents_def)

section \<open>Records\<close>

lemma dec_record_compact [codec]:
  "dec_record (record_json (compactRecord r)) zero_record = (compactRecord r, True)"
  by (simp add: dec_record_def record_json_def compactRecord_def dec_simps key_simps zero_record_def
      dec_command_def command_json_def zero_command_def)

lemma compactRecord_idem: "compactRecord (compactRecord r) = compactRecord r"
  by (simp add: compactRecord_def commandDigest_def zero_command_def)

lemma wf_record_json: "wf_json (record_json (compactRecord r))"
  by (simp add: record_json_def compactRecord_def omit_def command_json_def zero_command_def)

lemma latest_step_ok:
  assumes "latest_step m e = Inr m'" "list_all ok_event (map snd m)" "ok_event e"
  shows "list_all ok_event (map snd m')"
proof -
  have upd: "list_all ok_event (map snd (AList.update k x m))" if "ok_event x" for k x
    using assms(2) that by (induction m) (auto simp: list_all_iff)
  show ?thesis
    using assms wf_record_json
    by (auto simp: latest_step_def Let_def ok_event_def intro!: upd split: if_splits prod.splits)
qed

lemma latest_of_ok:
  "latest_of m es = Inr m' \<Longrightarrow> list_all ok_event (map snd m) \<Longrightarrow> list_all ok_event es \<Longrightarrow>
   list_all ok_event (map snd m')"
  by (induction es arbitrary: m) (auto simp: bind_res_Inr_iff dest: latest_step_ok)

lemma latest_step_wf: "latest_step m e = Inr m' \<Longrightarrow> wf_map m \<Longrightarrow> wf_map m'"
  by (auto simp: latest_step_def Let_def split: if_splits prod.splits)

lemma latest_of_wf: "latest_of m es = Inr m' \<Longrightarrow> wf_map m \<Longrightarrow> wf_map m'"
  by (induction es arbitrary: m) (auto simp: bind_res_Inr_iff dest: latest_step_wf)

lemma sorted_values_set: "wf_map m \<Longrightarrow> set (sorted_values m) = snd ` set m"
proof -
  assume wf: "wf_map m"
  have "the (map_of m (fst x)) = snd x" if "x \<in> set m" for x
    using wf_map_map_of [OF wf, of "fst x" "snd x"] that by simp
  then show ?thesis by (force simp: sorted_values_def image_image)
qed


section \<open>A checkpoint stands for what it replaces\<close>

lemma log_ok_prefix: "log_ok (xs @ ys) \<Longrightarrow> log_ok xs"
  by (cases xs) (auto simp: log_ok_def log_shape_def contiguous_append split: if_splits)

lemma log_ok_rest:
  assumes "log_ok (xs @ ys)" "xs \<noteq> []"
  shows "contiguous (lastSeq xs) ys"
proof (cases xs)
  case (Cons e r)
  then show ?thesis
    using assms(1) by (auto simp: log_ok_def log_shape_def lastSeq_def contiguous_append split: if_splits)
qed (use assms(2) in simp)

lemma lastSeq_ok: "list_all ok_event es \<Longrightarrow> lastSeq es < 2 ^ 64"
  by (cases "es = []") (auto simp: lastSeq_def last_or_last last_map list_all_iff ok_event_def)

lemma makeHistoryCheckpoint_parts:
  assumes "makeHistoryCheckpoint es = Inr cp" "log_ok es" "list_all ok_event es"
  obtains latest where "es \<noteq> []" "sn_pending (Replay es) = []" "settled_state (sn_state (Replay es))"
    "latest_of [] (resumeEvents es) = Inr latest"
    "ok_event cp" "ev_kind cp = HistoryCheckpointKind" "valid_checkpoint cp" "ev_seq cp = lastSeq es"
    "checkpoint_snapshot cp = Replay es" "cp_resume (checkpoint_of (ev_payload cp)) = sorted_values latest"
proof -
  obtain latest where l: "es \<noteq> []" "sn_pending (Replay es) = []" "settled_state (sn_state (Replay es))"
    "latest_of [] (resumeEvents es) = Inr latest"
    and cp: "cp = zero_event\<lparr>ev_session := ev_session (last es), ev_run := ev_run (last es), ev_seq := ev_seq (last es),
      ev_time := ev_time (last es), ev_kind := HistoryCheckpointKind,
      ev_payload := Some (checkpoint_json \<lparr>cp_version = 1, cp_snapshot = Replay es, cp_resume = sorted_values latest\<rparr>)\<rparr>"
    using assms(1) by (auto simp: makeHistoryCheckpoint_def Let_def bind_res_Inr_iff split: if_splits)
  let ?c = "\<lparr>cp_version = 1, cp_snapshot = Replay es, cp_resume = sorted_values latest\<rparr>"
  have last: "ev_seq (last es) = lastSeq es" using l(1) by (simp add: lastSeq_def last_or_last last_map)
  have lok: "list_all ok_event (map snd latest)"
    using latest_of_ok [OF l(4)] resume_ok [OF assms(3)] by simp
  have "list_all ok_event (sorted_values latest)"
    using lok sorted_values_set [OF latest_of_wf [OF l(4)]] by (simp add: list_all_iff)
  moreover have "sn_last (Replay es) = lastSeq es" using Replay_order [OF assms(2) l(1)] by simp
  ultimately have c: "ok_checkpoint ?c"
    using lastSeq_ok [OF assms(3)] l(2) by (simp add: ok_checkpoint_def ok_snapshot_def)
  have dec: "unmarshal_payload dec_checkpoint (ev_payload cp) zero_checkpoint = (?c, True)"
    using dec_checkpoint_json [OF c] by (simp add: cp unmarshal_payload_def)
  have "0 < ev_seq (last es)"
    using log_shape_seq_pos [of es "last es"] assms(2) l(1) by (simp add: log_ok_def)
  then have "valid_checkpoint cp"
    using dec \<open>sn_last (Replay es) = lastSeq es\<close> last by (simp add: valid_checkpoint_def) (simp add: cp)
  moreover have "ok_event cp"
    using wf_checkpoint_json [OF c] assms(3) l(1) by (auto simp: cp ok_event_def zero_event_def list_all_iff)
  ultimately show thesis
    using that [OF l] dec last by (simp add: checkpoint_snapshot_def checkpoint_of_def) (simp add: cp)
qed

lemma compact_prefix:
  assumes "log_ok (pre @ post)" "pre \<noteq> []" "ev_seq cp = lastSeq pre"
  shows "compact_events cp (pre @ post) = cp # post"
proof -
  have "filter (\<lambda>e. lastSeq pre < ev_seq e) pre = []"
    using seq_from_ge [OF log_shape_sorted assms(2)] log_ok_prefix [OF assms(1)]
    by (intro filter_eq_Nil) (auto simp: not_less log_ok_def)
  moreover have "filter (\<lambda>e. lastSeq pre < ev_seq e) post = post"
    using contiguous_bounds [OF log_ok_rest [OF assms(1,2)]] by (intro filter_eq_self) blast
  ultimately show ?thesis by (simp add: compact_events_def assms(3))
qed

lemma checkpoint_replays:
  assumes "log_ok (pre @ post)" "makeHistoryCheckpoint pre = Inr cp" "list_all ok_event pre"
  shows "Replay (cp # post) = Replay (pre @ post)" "log_ok (cp # post)"
proof -
  obtain latest where c: "pre \<noteq> []" "ev_kind cp = HistoryCheckpointKind" "valid_checkpoint cp"
    "ev_seq cp = lastSeq pre" "checkpoint_snapshot cp = Replay pre"
    using makeHistoryCheckpoint_parts [OF assms(2) log_ok_prefix [OF assms(1)] assms(3)] by metis
  show "Replay (cp # post) = Replay (pre @ post)"
    using Replay_prefix [OF assms(1) c(1)] by (simp add: Replay_def [of "cp # post"] Replay_checkpoint c)
  show "log_ok (cp # post)"
    using c log_ok_rest [OF assms(1) c(1)] Replay_order [OF log_ok_prefix [OF assms(1)] c(1)]
    by (simp add: log_ok_def log_shape_def)
qed

text \<open>C25. Compaction is invisible to the state: a log cut at a checkpoint made from any of its
  prefixes replays to the very state of the whole log, and stays well formed.  A checkpoint is
  only made where nothing is pending and the turn is settled.\<close>

theorem compaction_invisible:
  assumes "log_ok (pre @ post)" "list_all ok_event pre" "makeHistoryCheckpoint pre = Inr cp"
  shows "Replay (compact_events cp (pre @ post)) = Replay (pre @ post) \<and> log_ok (compact_events cp (pre @ post)) \<and>
    valid_checkpoint cp \<and> sn_pending (Replay pre) = [] \<and> settled_state (sn_state (Replay pre))"
proof -
  obtain latest where c: "pre \<noteq> []" "valid_checkpoint cp" "ev_seq cp = lastSeq pre"
    "sn_pending (Replay pre) = []" "settled_state (sn_state (Replay pre))"
    using makeHistoryCheckpoint_parts [OF assms(3) log_ok_prefix [OF assms(1)] assms(2)] by metis
  then show ?thesis
    using checkpoint_replays [OF assms(1,3,2)] compact_prefix [OF assms(1) c(1,3)] by simp
qed


section \<open>Receipts survive a compaction\<close>

lemma receipt_key_eq [simp]:
  "receipt_key a = receipt_key b \<longleftrightarrow> a = b" "receipt_key a \<noteq> ''background:'' @ x" "receipt_key a \<noteq> ''setting:'' @ x"
  "''background:'' @ x \<noteq> receipt_key a" "''setting:'' @ x \<noteq> receipt_key a"
  by (simp_all add: receipt_key_def)

text \<open>The supervisor writes an intent, a receipt or a requested permission with its record and its
  client id; a permission without one is the session's own.\<close>

definition record_event_ok :: "event \<Rightarrow> bool" where
  "record_event_ok e \<longleftrightarrow>
     (ev_kind e = ''intent'' \<or> ev_kind e = ''receipt'' \<longrightarrow> ev_request e \<noteq> []) \<and>
     (receipt_kind e \<longrightarrow> record_of e \<noteq> None)"

lemma record_of_kind: "record_of e = Some r \<Longrightarrow> receipt_kind e"
  by (auto simp: record_of_def split: if_splits)

lemma recover_append:
  "map_of (foldl recover_step m es) c =
     (case map_of (recover_receipts es) c of None \<Rightarrow> map_of m c | Some r \<Rightarrow> Some r)"
proof (induction es rule: rev_induct)
  case (snoc e es)
  then show ?case by (auto simp: recover_receipts_def recover_step_def split: option.splits)
qed (simp add: recover_receipts_def)

definition carries :: "(string, event) gomap \<Rightarrow> (string, command_record) gomap \<Rightarrow> bool" where
  "carries m rs \<longleftrightarrow> (\<forall>c. case map_of rs c of None \<Rightarrow> map_of m (receipt_key c) = None
     | Some r \<Rightarrow> (\<exists>e. map_of m (receipt_key c) = Some e \<and> record_of e = Some (compactRecord r)))"

definition keyed :: "(string, event) gomap \<Rightarrow> bool" where
  "keyed m \<longleftrightarrow> (\<forall>k e r. map_of m k = Some e \<and> record_of e = Some r \<longrightarrow> k = receipt_key (cm_client (rd_command r)))"

lemma record_of_receipt_event:
  "ev_request e \<noteq> [] \<Longrightarrow> record_of (e\<lparr>ev_payload := Some (record_json (compactRecord r)), ev_raw := [],
     ev_text := [], ev_kind := ''receipt''\<rparr>) = Some (compactRecord r)"
  by (simp add: record_of_def receipt_kind_def unmarshal_payload_def dec_record_compact)

lemma compact_client [simp]: "cm_client (rd_command (compactRecord r)) = cm_client (rd_command r)"
  by (simp add: compactRecord_def)

lemma carries_lookup: "carries m rs \<Longrightarrow> (\<And>c. map_of m' (receipt_key c) = map_of m (receipt_key c)) \<Longrightarrow> carries m' rs"
  by (simp add: carries_def cong: option.case_cong)

lemma carries_update:
  assumes "carries m rs" "record_of e = Some (compactRecord r)"
  shows "carries (AList.update (receipt_key c) e m) (AList.update c r rs)"
  unfolding carries_def
proof
  fix x
  show "case map_of (AList.update c r rs) x of
      None \<Rightarrow> map_of (AList.update (receipt_key c) e m) (receipt_key x) = None
    | Some r' \<Rightarrow> \<exists>e'. map_of (AList.update (receipt_key c) e m) (receipt_key x) = Some e' \<and>
        record_of e' = Some (compactRecord r')"
    using assms(1) [unfolded carries_def, THEN spec, of x] assms(2)
    by (cases "x = c") (auto split: option.splits)
qed

lemma latest_step_carries:
  assumes "latest_step m e = Inr m'" "carries m rs" "keyed m" "record_event_ok e"
  shows "carries m' (recover_step rs e) \<and> keyed m'"
proof (cases "receipt_kind e")
  case True
  then obtain r where r: "record_of e = Some r" using assms(4) by (auto simp: record_event_ok_def)
  have req: "ev_request e \<noteq> []" using assms(4) True by (auto simp: record_event_ok_def receipt_kind_def)
  have d: "unmarshal_payload dec_record (ev_payload e) zero_record = (r, True)"
    using r by (auto simp: record_of_def split: if_splits prod.splits)
  let ?e = "e\<lparr>ev_payload := Some (record_json (compactRecord r)), ev_raw := [], ev_text := [], ev_kind := ''receipt''\<rparr>"
  have m': "m' = AList.update (receipt_key (cm_client (rd_command r))) ?e m"
    using assms(1) True req by (auto simp: latest_step_def Let_def d receipt_kind_def)
  have "carries m' (recover_step rs e)"
    using carries_update [OF assms(2) record_of_receipt_event [OF req, of r], of "cm_client (rd_command r)"]
    by (simp add: m' recover_step_def r)
  moreover have "keyed m'"
    using assms(3) record_of_receipt_event [OF req, of r] by (auto simp: m' keyed_def split: if_splits)
  ultimately show ?thesis ..
next
  case False
  then have r: "record_of e = None" by (simp add: record_of_def)
  have "m' = m \<or> m' = AList.update (''background:'' @ ev_run e) e m \<or> m' = AList.update (''setting:'' @ ev_text e) e m"
    using assms(1,4) False by (auto simp: latest_step_def receipt_kind_def record_event_ok_def split: if_splits)
  then show ?thesis
    using carries_lookup [OF assms(2), of m'] assms(2,3) r
    by (elim disjE) (auto simp: keyed_def recover_step_def simp del: append.simps split: if_splits)
qed

lemma latest_of_carries:
  "latest_of m es = Inr m' \<Longrightarrow> carries m rs \<Longrightarrow> keyed m \<Longrightarrow> list_all record_event_ok es \<Longrightarrow>
   carries m' (foldl recover_step rs es) \<and> keyed m'"
proof (induction es arbitrary: m rs)
  case (Cons e es)
  obtain m1 where m1: "latest_step m e = Inr m1" "latest_of m1 es = Inr m'"
    using Cons.prems(1) by (auto simp: bind_res_Inr_iff)
  have "carries m1 (recover_step rs e)" "keyed m1"
    using latest_step_carries [OF m1(1) Cons.prems(2,3)] Cons.prems(4) by simp_all
  then show ?case using Cons.IH [OF m1(2)] Cons.prems(4) by simp
qed simp

text \<open>Reading receipts back from values kept under their own keys.\<close>

lemma recover_values:
  assumes "keyed m" "distinct ks" "set ks \<subseteq> dom (map_of m)"
  shows "map_of (recover_receipts (map (\<lambda>k. the (map_of m k)) ks)) c =
    (if receipt_key c \<in> set ks then record_of (the (map_of m (receipt_key c))) else None)"
  using assms(2,3)
proof (induction ks rule: rev_induct)
  case (snoc k ks)
  then obtain e where e: "map_of m k = Some e" by auto
  show ?case
  proof (cases "record_of e")
    case None
    then show ?thesis using snoc e by (auto simp: recover_receipts_def recover_step_def)
  next
    case (Some r)
    then have "k = receipt_key (cm_client (rd_command r))" using assms(1) e by (auto simp: keyed_def)
    then show ?thesis using snoc e Some by (auto simp: recover_receipts_def recover_step_def)
  qed
qed (simp add: recover_receipts_def)

lemma recover_latest:
  assumes "latest_of [] es = Inr m" "list_all record_event_ok es"
  shows "map_of (recover_receipts (sorted_values m)) c = map_option compactRecord (map_of (recover_receipts es) c)"
proof -
  have k: "carries m (recover_receipts es)" "keyed m"
    using latest_of_carries [OF assms(1) _ _ assms(2), of "[]"]
    by (simp_all add: carries_def keyed_def recover_receipts_def)
  have "wf_map m" using latest_of_wf [OF assms(1)] by simp
  then have "distinct (sort (map fst m))" by (simp add: wf_map_def)
  moreover have "set (sort (map fst m)) = dom (map_of m)" by (simp add: dom_map_of_conv_image_fst)
  ultimately show ?thesis
    using recover_values [OF k(2), of "sort (map fst m)" c] k(1) [unfolded carries_def, THEN spec, of c]
    by (cases "map_of (recover_receipts es) c") (auto simp: sorted_values_def domIff simp del: set_sort)
qed

lemma compact_no_conflict:
  assumes "\<not> record_conflicts r op c"
  shows "\<not> record_conflicts (compactRecord r) op c"
  using assms by (auto simp: record_conflicts_def compactRecord_def commandDigest_def)

text \<open>C26. Compaction forgets no client id: after it the same ids are known as before, each with the
  same operation, status and run, and a retry of the very command is still recognised.\<close>

theorem receipts_survive:
  assumes "log_ok (pre @ post)" "list_all ok_event pre" "makeHistoryCheckpoint pre = Inr cp"
    and "list_all record_event_ok (resumeEvents pre)"
    and "before = recover_receipts (resumeEvents (pre @ post))"
    and "after = recover_receipts (resumeEvents (compact_events cp (pre @ post)))"
  shows "case map_of before i of None \<Rightarrow> map_of after i = None
    | Some r \<Rightarrow> (\<exists>r'. map_of after i = Some r' \<and> rd_op r' = rd_op r \<and> rd_status r' = rd_status r \<and>
        cm_run (rd_command r') = cm_run (rd_command r) \<and>
        (\<forall>op c. \<not> record_conflicts r op c \<longrightarrow> \<not> record_conflicts r' op c))"
proof -
  obtain latest where c: "pre \<noteq> []" "latest_of [] (resumeEvents pre) = Inr latest"
    "ev_kind cp = HistoryCheckpointKind" "ev_seq cp = lastSeq pre"
    "cp_resume (checkpoint_of (ev_payload cp)) = sorted_values latest"
    using makeHistoryCheckpoint_parts [OF assms(3) log_ok_prefix [OF assms(1)] assms(2)] by metis
  have cpr: "resumeEvents [cp] = sorted_values latest"
    by (simp add: resumeEvents_def resume_step_def c(3,5)) (simp add: kind_defs)
  have after: "resumeEvents (compact_events cp (pre @ post)) = resumeEvents ([cp] @ post)"
    using compact_prefix [OF assms(1) c(1,4)] by simp
  have rel: "map_of after i = map_of before i \<or> map_of after i = map_option compactRecord (map_of before i)"
  proof (cases "\<exists>e\<in>set post. ev_kind e = ForkBoundaryKind")
    case True
    then show ?thesis unfolding assms(5,6) after resume_append by simp
  next
    case False
    have split: "map_of (recover_receipts (xs @ ys)) i =
        (case map_of (recover_receipts ys) i of None \<Rightarrow> map_of (recover_receipts xs) i | Some r \<Rightarrow> Some r)" for xs ys
      using recover_append [of "recover_receipts xs" ys i] by (simp add: recover_receipts_def)
    show ?thesis
      using False recover_latest [OF c(2) assms(4), of i]
      unfolding assms(5,6) after resume_append cpr by (auto simp: split split: option.splits)
  qed
  show ?thesis
  proof (cases "map_of before i")
    case (Some r)
    have "rd_op (compactRecord r) = rd_op r" "rd_status (compactRecord r) = rd_status r"
      "cm_run (rd_command (compactRecord r)) = cm_run (rd_command r)"
      by (simp_all add: compactRecord_def)
    then show ?thesis using rel Some compact_no_conflict [of r] by auto
  qed (use rel in auto)
qed


section \<open>The cut is a boundary\<close>

text \<open>A run has an id: \<open>core.ID()\<close> is never empty.\<close>

definition runs_named :: "event list \<Rightarrow> bool" where
  "runs_named es \<longleftrightarrow> (\<forall>e\<in>set es. ev_kind e = ''state'' \<longrightarrow> ev_run e \<noteq> [])"

text \<open>The scan for a cut follows replay: it never misses a pending request.\<close>

definition follows :: "cut_state \<Rightarrow> snapshot \<times> (string, event) gomap \<Rightarrow> bool" where
  "follows c sp \<longleftrightarrow> fst ` set (snd sp) \<subseteq> fst ` set (cs_pending c) \<and>
     (sn_run (fst sp) = cs_run c \<or> sn_run (fst sp) = [])"

lemma keys_update: "fst ` set (AList.update k v m) = insert k (fst ` set m)"
  by (simp add: dom_update)

lemma keys_delete: "fst ` set (AList.delete k m) = fst ` set m - {k}"
  by (auto simp: delete_filter image_iff)

lemma follows_step:
  assumes "follows c (s, p)" "ev_kind e \<noteq> HistoryCheckpointKind" "ev_kind e = ''state'' \<longrightarrow> ev_run e \<noteq> []"
  shows "follows (cut_step c e) (replay_step (s, p) e)"
proof -
  consider "ev_kind e = ForkBoundaryKind" | "ev_kind e = ''state''" | "ev_kind e = ''approval''"
    | "ev_kind e = ''approval_resolved''"
    | "ev_kind e \<notin> {ForkBoundaryKind, ''state'', ''approval'', ''approval_resolved''}" by blast
  then show ?thesis
  proof cases
    case 5
    then have "sn_run (fst (replay_step (s, p) e)) = sn_run s" "snd (replay_step (s, p) e) = p"
      using assms(2) by (auto simp: Let_def)
    moreover have "cs_pending (cut_step c e) = cs_pending c" "cs_run (cut_step c e) = cs_run c"
      using 5 assms(2) by (auto simp: cut_step_def Let_def)
    ultimately show ?thesis using assms(1) by (simp add: follows_def)
  qed (use assms in \<open>auto simp: follows_def cut_step_def Let_def kind_defs keys_update keys_delete simp del: update_keys\<close>)
qed

lemma follows_fold:
  "follows c sp \<Longrightarrow> no_checkpoint es \<Longrightarrow> runs_named es \<Longrightarrow> follows (foldl cut_step c es) (foldl replay_step sp es)"
proof (induction es arbitrary: c sp)
  case (Cons e es)
  have "follows (cut_step c e) (replay_step sp e)"
    using follows_step [of c "fst sp" "snd sp" e] Cons.prems by (simp add: runs_named_def)
  from Cons.IH [OF this] Cons.prems show ?case by (simp add: runs_named_def)
qed simp

lemma pending_keys: "fst ` set (pending_map es) = ev_request ` set es"
  by (induction es rule: rev_induct) (auto simp: keys_update simp del: update_keys)

lemma follows_log:
  assumes "log_ok es" "runs_named es"
  shows "follows (foldl cut_step zero_cut es) (foldl replay_step (fresh_snapshot, []) es)"
proof (cases es)
  case (Cons e r)
  show ?thesis
  proof (cases "ev_kind e = HistoryCheckpointKind")
    case True
    let ?s = "checkpoint_snapshot e"
    have v: "valid_checkpoint e" "contiguous (ev_seq e) r"
      using assms(1) True by (simp_all add: log_ok_def log_shape_def Cons)
    have step: "replay_step (fresh_snapshot, []) e = (?s, pending_map (sn_pending ?s))"
      using v(1) True by (auto simp: valid_checkpoint_def checkpoint_snapshot_def split: prod.splits)
    have keys: "fst ` set (foldl (\<lambda>p v. AList.update (ev_request v) True p) m vs) = fst ` set m \<union> ev_request ` set vs"
      for m and vs :: "event list"
      by (induction vs arbitrary: m) (auto simp: keys_update simp del: update_keys)
    have "follows (cut_step zero_cut e) (?s, pending_map (sn_pending ?s))"
      using True by (simp add: follows_def cut_step_def Let_def zero_cut_def checkpoint_of_def
          checkpoint_snapshot_def pending_keys keys)
    from follows_fold [OF this contiguous_no_checkpoint [OF v(2)]] show ?thesis
      using assms(2) step by (simp add: Cons runs_named_def del: replay_step.simps)
  next
    case False
    then have "contiguous 0 es" using assms(1) by (simp add: log_ok_def log_shape_def Cons)
    from follows_fold [OF _ contiguous_no_checkpoint [OF this] assms(2)] show ?thesis
      by (simp add: follows_def zero_cut_def fresh_snapshot_def zero_snapshot_def)
  qed
qed (simp add: follows_def zero_cut_def fresh_snapshot_def zero_snapshot_def)

lemma cut_scan_spec:
  "cut_scan target n i c remaining es = Some k \<Longrightarrow>
   \<exists>j. k = i + j \<and> j < length es \<and> k < n \<and> ev_kind (es ! j) = ''state'' \<and> settled_state (ev_text (es ! j)) \<and>
     cs_pending (foldl cut_step c (take (Suc j) es)) = [] \<and>
     \<not> any_active (cs_background (foldl cut_step c (take (Suc j) es))) \<and>
     remaining - sum_list (map stored_size (take (Suc j) es)) \<le> target"
proof (induction target n i c remaining es rule: cut_scan.induct)
  case (2 target n i c remaining e es)
  let ?c = "cut_step c e" and ?r = "remaining - stored_size e"
  let ?here = "ev_kind e = ''state'' \<and> settled_state (ev_text e) \<and> ?r \<le> target \<and> cs_pending ?c = [] \<and>
      \<not> any_active (cs_background ?c)"
  have i: "i < n" using "2.prems" by (auto simp: Let_def split: if_splits)
  show ?case
  proof (cases ?here)
    case True
    then have "k = i" using "2.prems" i by (simp add: Let_def)
    then show ?thesis using True i by (intro exI [of _ 0]) simp
  next
    case False
    then have "cut_scan target n (Suc i) ?c ?r es = Some k"
      using "2.prems" i by (simp add: Let_def split: if_splits)
    from "2.IH" [OF refl refl _ False this] i obtain j where "k = Suc i + j" "j < length es" "k < n"
      "ev_kind (es ! j) = ''state''" "settled_state (ev_text (es ! j))"
      "cs_pending (foldl cut_step ?c (take (Suc j) es)) = []"
      "\<not> any_active (cs_background (foldl cut_step ?c (take (Suc j) es)))"
      "?r - sum_list (map stored_size (take (Suc j) es)) \<le> target" by auto
    then show ?thesis by (intro exI [of _ "Suc j"]) (simp add: algebra_simps)
  qed
qed simp

text \<open>C27. Retention cuts only where it may: the chosen event ends a settled turn with nothing pending and
  no background work active, what stays is within four fifths of the budget, the last turn is
  kept whole, and the checkpoint of that prefix is never refused for not being a boundary.\<close>

theorem find_cut_boundary:
  assumes "log_ok es" "runs_named es" "find_cut limit es = Some i"
  shows "i < length es \<and> (\<forall>n. last_input es = Some n \<longrightarrow> i < n) \<and>
    sum_list (map stored_size (drop (Suc i) es)) \<le> limit * 8 div 10 \<and>
    \<not> any_active (cs_background (foldl cut_step zero_cut (take (Suc i) es))) \<and>
    sn_pending (Replay (take (Suc i) es)) = [] \<and> settled_state (sn_state (Replay (take (Suc i) es))) \<and>
    makeHistoryCheckpoint (take (Suc i) es) \<noteq> Inl Not_a_boundary"
proof -
  let ?n = "case last_input es of None \<Rightarrow> length es - 1 | Some i \<Rightarrow> i"
  let ?pre = "take (Suc i) es"
  from cut_scan_spec [OF assms(3) [unfolded find_cut_def]]
  have c: "i < length es" "i < ?n" "ev_kind (es ! i) = ''state''" "settled_state (ev_text (es ! i))"
    "cs_pending (foldl cut_step zero_cut ?pre) = []" "\<not> any_active (cs_background (foldl cut_step zero_cut ?pre))"
    "sum_list (map stored_size es) - sum_list (map stored_size ?pre) \<le> limit * 8 div 10"
    by auto
  have "sum_list (map stored_size (?pre @ drop (Suc i) es)) =
      sum_list (map stored_size ?pre) + sum_list (map stored_size (drop (Suc i) es))"
    by (simp only: map_append sum_list_append)
  then have size: "sum_list (map stored_size (drop (Suc i) es)) \<le> limit * 8 div 10"
    using c(7) unfolding append_take_drop_id by linarith
  have ok: "log_ok ?pre" "runs_named ?pre"
    using log_ok_prefix [of ?pre "drop (Suc i) es"] assms(1,2) by (simp_all add: runs_named_def) (meson in_set_takeD)
  obtain s p where sp: "foldl replay_step (fresh_snapshot, []) ?pre = (s, p)"
    by (cases "foldl replay_step (fresh_snapshot, []) ?pre")
  then have rep: "Replay ?pre = replay_close (s, p)" by (simp add: Replay_fresh ReplayFrom_def)
  have "p = []" using follows_log [OF ok] c(5) sp by (simp add: follows_def)
  then have pend: "sn_pending (Replay ?pre) = []" by (simp add: rep replay_close_def)
  have upto: "?pre = take i es @ [es ! i]" using c(1) by (simp add: take_Suc_conv_app_nth)
  have "sn_state s = ev_text (es ! i)"
  proof -
    obtain s0 p0 where "foldl replay_step (fresh_snapshot, []) (take i es) = (s0, p0)"
      by (cases "foldl replay_step (fresh_snapshot, []) (take i es)")
    then have "replay_step (s0, p0) (es ! i) = (s, p)" using sp by (simp add: upto del: replay_step.simps)
    then show ?thesis using c(3) by (auto simp: Let_def kind_defs split: if_splits)
  qed
  then have st: "settled_state (sn_state (Replay ?pre))" using c(4) by (simp add: rep replay_close_def)
  have "makeHistoryCheckpoint ?pre \<noteq> Inl Not_a_boundary"
  proof -
    have "latest_of m fs \<noteq> Inl Not_a_boundary" for m fs
    proof (induction fs arbitrary: m)
      case (Cons f fs)
      show ?case
      proof (cases "latest_step m f")
        case (Inl e)
        then have bad: "e = Bad_record" by (auto simp: latest_step_def Let_def split: if_splits prod.splits)
        then show ?thesis using Inl by simp
      qed (use Cons in simp)
    qed simp
    then show ?thesis
      using pend st by (auto simp: makeHistoryCheckpoint_def Let_def bind_res_def split: sum.splits)
  qed
  then show ?thesis using c size pend st by (auto split: option.splits)
qed


section \<open>How far shedding goes\<close>

definition before_input :: "nat option \<Rightarrow> nat \<Rightarrow> bool" where
  "before_input li i = (case li of None \<Rightarrow> True | Some n \<Rightarrow> i < n)"

lemma shed_freed_Cons:
  "shed_freed k (e # es) =
     (if ev_kind e = ''raw'' \<and> ev_seq e \<le> k \<and> ev_raw e \<noteq> [] then length (ev_raw e) else 0) + shed_freed k es"
  by (simp add: shed_freed_def)

lemma shed_freed_zero: "(\<And>e. e \<in> set es \<Longrightarrow> k < ev_seq e) \<Longrightarrow> shed_freed k es = 0"
  by (auto simp: shed_freed_def not_le [symmetric])

lemma shed_scan_spec:
  assumes "sorted_wrt (<) (map ev_seq es)" "\<forall>e\<in>set es. through < ev_seq e"
    and "k = shed_scan target li i remaining through es"
  shows "through \<le> k \<and>
    (remaining - int (shed_freed k es) \<le> target \<or>
     (\<forall>j<length es. before_input li (i + j) \<and> ev_kind (es ! j) = ''raw'' \<and> ev_raw (es ! j) \<noteq> [] \<longrightarrow> ev_seq (es ! j) \<le> k)) \<and>
    (k = through \<or> (\<exists>j<length es. before_input li (i + j) \<and> ev_kind (es ! j) = ''raw'' \<and> ev_raw (es ! j) \<noteq> [] \<and> ev_seq (es ! j) = k)) \<and>
    (\<forall>m. through \<le> m \<and> m < k \<longrightarrow> target < remaining - int (shed_freed m es))"
  using assms
proof (induction target li i remaining through es rule: shed_scan.induct)
  case (2 target li i remaining through e es)
  let ?stop = "case li of None \<Rightarrow> False | Some n \<Rightarrow> n \<le> i"
  let ?raw = "ev_kind e = ''raw'' \<and> ev_raw e \<noteq> []"
  let ?A = "\<lambda>j x. before_input li (i + j) \<and> ev_kind x = ''raw'' \<and> ev_raw x \<noteq> [] \<longrightarrow> ev_seq x \<le> k"
  let ?E = "\<lambda>j x. before_input li (i + j) \<and> ev_kind x = ''raw'' \<and> ev_raw x \<noteq> [] \<and> ev_seq x = k"
  have bef: "before_input li i \<longleftrightarrow> \<not> ?stop" by (auto simp: before_input_def split: option.splits)
  have srt: "sorted_wrt (<) (map ev_seq es)" "\<forall>x\<in>set es. ev_seq e < ev_seq x" "\<forall>x\<in>set es. through < ev_seq x"
    "through < ev_seq e" using "2.prems"(1,2) by auto
  have all: "(\<forall>j<length (e # es). P j ((e # es) ! j)) \<longleftrightarrow> P 0 e \<and> (\<forall>j<length es. P (Suc j) (es ! j))" for P
    by (auto simp: less_Suc_eq_0_disj)
  have ex: "(\<exists>j<length (e # es). P j ((e # es) ! j)) \<longleftrightarrow> P 0 e \<or> (\<exists>j<length es. P (Suc j) (es ! j))" for P
    by (auto simp: less_Suc_eq_0_disj)
  consider (stop) ?stop | (skip) "\<not> ?stop" "\<not> ?raw" | (enough) "\<not> ?stop" ?raw "remaining \<le> target"
    | (shed) "\<not> ?stop" ?raw "\<not> remaining \<le> target" by blast
  then show ?case
  proof cases
    case stop
    then show ?thesis using "2.prems"(3) by (auto simp: before_input_def split: option.splits)
  next
    case skip
    then have k: "k = shed_scan target li (Suc i) remaining through es" using "2.prems"(3) by auto
    have IH: "through \<le> k \<and> (remaining - int (shed_freed k es) \<le> target \<or>
        (\<forall>j<length es. before_input li (Suc i + j) \<and> ev_kind (es ! j) = ''raw'' \<and> ev_raw (es ! j) \<noteq> [] \<longrightarrow> ev_seq (es ! j) \<le> k)) \<and>
        (k = through \<or> (\<exists>j<length es. before_input li (Suc i + j) \<and> ev_kind (es ! j) = ''raw'' \<and> ev_raw (es ! j) \<noteq> [] \<and> ev_seq (es ! j) = k)) \<and>
        (\<forall>m. through \<le> m \<and> m < k \<longrightarrow> target < remaining - int (shed_freed m es))"
      by (rule "2.IH"(1) [OF _ _ srt(1,3) k]) (use skip in auto)
    show ?thesis unfolding all [of ?A] ex [of ?E] using IH skip(2) by (auto simp: shed_freed_Cons)
  next
    case enough
    then have "k = through" using "2.prems"(3) by auto
    moreover have "shed_freed through (e # es) = 0" using "2.prems"(2) by (intro shed_freed_zero) blast
    ultimately show ?thesis using enough(3) by simp
  next
    case shed
    then have k: "k = shed_scan target li (Suc i) (remaining - int (length (ev_raw e))) (ev_seq e) es"
      using "2.prems"(3) by auto
    have IH: "ev_seq e \<le> k \<and> (remaining - int (length (ev_raw e)) - int (shed_freed k es) \<le> target \<or>
        (\<forall>j<length es. before_input li (Suc i + j) \<and> ev_kind (es ! j) = ''raw'' \<and> ev_raw (es ! j) \<noteq> [] \<longrightarrow> ev_seq (es ! j) \<le> k)) \<and>
        (k = ev_seq e \<or> (\<exists>j<length es. before_input li (Suc i + j) \<and> ev_kind (es ! j) = ''raw'' \<and> ev_raw (es ! j) \<noteq> [] \<and> ev_seq (es ! j) = k)) \<and>
        (\<forall>m. ev_seq e \<le> m \<and> m < k \<longrightarrow> target < remaining - int (length (ev_raw e)) - int (shed_freed m es))"
      by (rule "2.IH"(2) [OF _ _ _ srt(1,2) k]) (use shed in auto)
    then have freed: "shed_freed k (e # es) = length (ev_raw e) + shed_freed k es"
      using shed(2) by (simp add: shed_freed_Cons)
    have least: "target < remaining - int (shed_freed m (e # es))" if "through \<le> m" "m < k" for m
    proof (cases "ev_seq e \<le> m")
      case True
      then have "target < remaining - int (length (ev_raw e)) - int (shed_freed m es)" using IH that(2) by blast
      then show ?thesis using True shed(2) by (simp add: shed_freed_Cons)
    next
      case False
      then have "shed_freed m (e # es) = 0" using srt(2) by (intro shed_freed_zero) fastforce
      then show ?thesis using shed(3) by simp
    qed
    have "through \<le> k" using IH srt(4) by simp
    moreover have "remaining - int (shed_freed k (e # es)) \<le> target \<or> (\<forall>j<length (e # es). ?A j ((e # es) ! j))"
      unfolding all [of ?A] freed using IH by auto
    moreover have "\<exists>j<length (e # es). ?E j ((e # es) ! j)"
      unfolding ex [of ?E] using IH shed(1,2) bef by auto
    ultimately show ?thesis using least by blast
  qed
qed auto

lemma last_input_from_spec:
  "last_input_from i acc es = Some n \<Longrightarrow> acc = Some n \<or> (i \<le> n \<and> n < i + length es \<and> ev_kind (es ! (n - i)) = ''input'')"
proof (induction es arbitrary: i acc)
  case (Cons e es)
  from Cons.IH [of "Suc i"] Cons.prems show ?case
    by (fastforce split: if_splits simp: Suc_diff_Suc nth_Cons')
qed simp

text \<open>C28. Shedding takes the oldest vendor payloads and stops as soon as it may: afterwards either what
  remains is within four fifths of its budget or every payload before the last turn is gone; shedding
  through any earlier point would have left more than that, so nothing more is taken than had to be; the
  point is the number of a vendor payload before the last turn, or nothing is shed; and no payload of
  the last turn is ever touched.\<close>

theorem shed_through_bounds:
  assumes "log_shape es" "k = shed_through limit es"
  shows "(int (raw_bytes (map (shed_event k) es)) \<le> limit * 8 div 10 \<or>
     (\<forall>j<length es. before_input (last_input es) j \<longrightarrow> ev_kind (es ! j) = ''raw'' \<longrightarrow> ev_raw (shed_event k (es ! j)) = [])) \<and>
    (\<forall>m<k. limit * 8 div 10 < int (raw_bytes (map (shed_event m) es))) \<and>
    (k = 0 \<or> (\<exists>j<length es. before_input (last_input es) j \<and> ev_kind (es ! j) = ''raw'' \<and> ev_raw (es ! j) \<noteq> [] \<and> ev_seq (es ! j) = k)) \<and>
    (\<forall>n j. last_input es = Some n \<and> n \<le> j \<and> j < length es \<longrightarrow> shed_event k (es ! j) = es ! j)"
proof -
  have srt: "sorted_wrt (<) (map ev_seq es)" by (rule log_shape_sorted [OF assms(1)])
  have pos: "\<forall>e\<in>set es. 0 < ev_seq e" using log_shape_seq_pos [OF assms(1)] by blast
  from shed_scan_spec [OF srt pos assms(2) [unfolded shed_through_def]]
  have s: "int (raw_bytes es) - int (shed_freed k es) \<le> limit * 8 div 10 \<or>
      (\<forall>j<length es. before_input (last_input es) j \<and> ev_kind (es ! j) = ''raw'' \<and> ev_raw (es ! j) \<noteq> [] \<longrightarrow> ev_seq (es ! j) \<le> k)"
    "k = 0 \<or> (\<exists>j<length es. before_input (last_input es) j \<and> ev_kind (es ! j) = ''raw'' \<and> ev_raw (es ! j) \<noteq> [] \<and> ev_seq (es ! j) = k)"
    "\<forall>m<k. limit * 8 div 10 < int (raw_bytes es) - int (shed_freed m es)" by auto
  have size: "int (raw_bytes es) - int (shed_freed m es) = int (raw_bytes (map (shed_event m) es))" for m
    using shed_freed_raw [of es m] by simp
  have keep: "shed_event k (es ! j) = es ! j" if "last_input es = Some n" "n \<le> j" "j < length es" for n j
  proof -
    have "k < ev_seq (es ! j)"
    proof (cases "k = 0")
      case True
      then show ?thesis using pos that(3) by simp
    next
      case False
      then obtain i where "before_input (last_input es) i" "ev_seq (es ! i) = k" using s(2) by auto
      then have "i < n" "ev_seq (es ! i) = k" using \<open>last_input es = Some n\<close> by (simp_all add: before_input_def)
      moreover have "ev_seq (es ! i) < ev_seq (es ! j)"
        using sorted_wrt_nth_less [OF srt, of i j] \<open>i < n\<close> that(2,3) by simp
      ultimately show ?thesis by simp
    qed
    then show ?thesis by (simp add: shed_event_def)
  qed
  have gone: "ev_raw (shed_event k (es ! j)) = []"
    if "ev_seq (es ! j) \<le> k" "ev_kind (es ! j) = ''raw''" for j
    using that by (simp add: shed_event_def)
  show ?thesis
  proof (intro conjI)
    show "int (raw_bytes (map (shed_event k) es)) \<le> limit * 8 div 10 \<or>
        (\<forall>j<length es. before_input (last_input es) j \<longrightarrow> ev_kind (es ! j) = ''raw'' \<longrightarrow> ev_raw (shed_event k (es ! j)) = [])"
      using s(1) gone unfolding size by (auto simp: shed_event_def)
    show "\<forall>m<k. limit * 8 div 10 < int (raw_bytes (map (shed_event m) es))" using s(3) unfolding size .
  qed (use s(2) keep in auto)
qed


section \<open>Concrete instances\<close>

definition sample_record :: command_record where
  "sample_record = compactRecord (zero_record\<lparr>rd_op := ''send'', rd_command := zero_command\<lparr>cm_client := ''q''\<rparr>\<rparr>)"

definition sample_prefix :: "event list" where
  "sample_prefix = [sample_kind 1 ''intent'' ''send''\<lparr>ev_payload := Some (record_json sample_record)\<rparr>,
     sample_kind 2 ''state'' ''idle'']"

definition sample_suffix :: "event list" where
  "sample_suffix = [sample_kind 3 ''input'' ''hello'']"

lemma sample_record_of:
  "unmarshal_payload dec_record (Some (record_json sample_record)) zero_record = (sample_record, True)"
  "cm_client (rd_command sample_record) = ''q''" "wf_json (record_json sample_record)"
  "compactRecord sample_record = sample_record"
  using dec_record_compact [of "zero_record\<lparr>rd_op := ''send'', rd_command := zero_command\<lparr>cm_client := ''q''\<rparr>\<rparr>"]
    wf_record_json
  by (simp_all add: unmarshal_payload_def sample_record_def compactRecord_idem)

lemma sample_log_ok: "log_ok (sample_prefix @ sample_suffix)" "list_all ok_event sample_prefix"
  "runs_named (sample_prefix @ sample_suffix)"
  using sample_record_of(3)
  by (simp_all add: log_ok_def log_shape_def sample_prefix_def sample_suffix_def runs_named_def sample_kind_defs ok_event_def)

lemma sample_resume: "resumeEvents sample_prefix = sample_prefix" "resumeEvents (sample_prefix @ sample_suffix) = sample_prefix @ sample_suffix"
  by (simp_all add: resumeEvents_def resume_step_def sample_prefix_def sample_suffix_def sample_kind_defs)

lemma sample_makes: "\<exists>cp. makeHistoryCheckpoint sample_prefix = Inr cp"
proof -
  have r: "Replay sample_prefix = fresh_snapshot\<lparr>sn_state := ''idle'', sn_run := ''r'', sn_last := 2\<rparr>"
    by (simp add: Replay_fresh ReplayFrom_def replay_close_def sample_prefix_def sample_kind_defs Let_def
        fresh_snapshot_def zero_snapshot_def)
  have "\<exists>m. latest_of [] sample_prefix = Inr m"
    using sample_record_of(1) by (simp add: sample_prefix_def latest_step_def sample_kind_defs Let_def bind_res_def)
  then show ?thesis
    by (auto simp: makeHistoryCheckpoint_def Let_def r sample_resume settled_state_def)
      (simp add: sample_prefix_def)
qed

theorem compaction_invisible_witness:
  "\<exists>cp. makeHistoryCheckpoint sample_prefix = Inr cp \<and>
     Replay (compact_events cp (sample_prefix @ sample_suffix)) = Replay (sample_prefix @ sample_suffix)"
  using sample_makes compaction_invisible [OF sample_log_ok(1,2)] by blast

lemma sample_records_ok: "list_all record_event_ok (resumeEvents sample_prefix)"
  unfolding sample_resume using sample_record_of(1)
  by (simp add: sample_prefix_def record_event_ok_def receipt_kind_def record_of_def sample_kind_defs)

lemma sample_recovered: "map_of (recover_receipts (resumeEvents (sample_prefix @ sample_suffix))) ''q'' = Some sample_record"
  unfolding sample_resume using sample_record_of(1,2)
  by (simp add: sample_prefix_def sample_suffix_def recover_receipts_def recover_step_def receipt_kind_def
      record_of_def sample_kind_defs)

theorem receipts_survive_witness:
  "\<exists>cp r'. makeHistoryCheckpoint sample_prefix = Inr cp \<and>
     map_of (recover_receipts (resumeEvents (compact_events cp (sample_prefix @ sample_suffix)))) ''q'' = Some r' \<and>
     rd_op r' = ''send''"
proof -
  obtain cp where cp: "makeHistoryCheckpoint sample_prefix = Inr cp" using sample_makes by blast
  have "rd_op sample_record = ''send''" by (simp add: sample_record_def compactRecord_def)
  then show ?thesis
    using receipts_survive [OF sample_log_ok(1,2) cp sample_records_ok refl refl, of "''q''"]
    by (auto simp: sample_recovered cp)
qed

lemma stored_size_pos: "0 \<le> stored_size e"
  by (simp add: stored_size_def)

lemma cut_three:
  assumes "ev_kind a = ''intent''" "ev_kind b = ''state''" "ev_text b = ''idle''" "ev_run b \<noteq> []" "ev_kind c = ''input''"
  shows "find_cut (10 * (stored_size a + (stored_size b + stored_size c))) [a, b, c] = Some 1"
proof -
  have s: "cut_step zero_cut a = zero_cut"
    "cut_step zero_cut b = \<lparr>cs_pending = [], cs_run = ev_run b, cs_background = zero_background\<rparr>"
    using assms by (simp_all add: cut_step_def zero_cut_def Let_def kind_defs)
  have "\<not> any_active zero_background" by (simp add: any_active_def zero_background_def tasks_of_def)
  moreover have "stored_size c \<le> 8 * (stored_size a + (stored_size b + stored_size c))"
    using stored_size_pos [of a] stored_size_pos [of b] stored_size_pos [of c] by simp
  ultimately show ?thesis
    using assms by (simp add: find_cut_def s settled_state_def)
qed

theorem find_cut_boundary_witness:
  "\<exists>limit. find_cut limit (sample_prefix @ sample_suffix) = Some 1 \<and>
     sn_pending (Replay (take 2 (sample_prefix @ sample_suffix))) = []"
proof -
  let ?es = "sample_prefix @ sample_suffix"
  obtain a b c where abc: "?es = [a, b, c]" "ev_kind a = ''intent''" "ev_kind b = ''state''" "ev_text b = ''idle''"
    "ev_run b \<noteq> []" "ev_kind c = ''input''"
    by (simp add: sample_prefix_def sample_suffix_def sample_kind_def sample_event_def)
  from cut_three [OF abc(2-6)] obtain limit where l: "find_cut limit ?es = Some 1" unfolding abc(1) by blast
  from find_cut_boundary [OF sample_log_ok(1,3) l] have "sn_pending (Replay (take (Suc 1) ?es)) = []" by blast
  then show ?thesis using l by (simp only: Suc_1) blast
qed

theorem shed_through_bounds_witness:
  "raw_bytes (map (shed_event (shed_through 0 (lg_events raw_log))) (lg_events raw_log)) = 0"
proof -
  have "log_shape (lg_events raw_log)"
    by (simp add: raw_log_def log_shape_def sample_event_def zero_event_def kind_defs)
  from shed_through_bounds [OF this refl, of 0] show ?thesis
    by (auto simp: raw_log_def raw_bytes_def sample_event_def before_input_def)
qed

end
