(* ===== verification/Questions.thy ===== *)
theory Questions
  imports History
begin

text \<open>
  \<^verbatim>\<open>internal/agentview/{questions,elicitation,question_history}.go\<close> and
  \<^verbatim>\<open>internal/core/answers.go\<close>: the forms a provider asks the user to fill in, the answers they
  accept, what of them is kept for the reading history, and which requests full mode may answer.
  The argument \<open>lib\<close> holds what is not in the repository: how \<open>float64\<close> rewrites a number
  literal (\<open>lb_float\<close>, \<open>None\<close> out of its range) and whether the jsonschema package accepts a
  document for a schema (\<open>lb_schema\<close>).
\<close>

record lib =
  lb_float :: "string \<Rightarrow> json option"
  lb_schema :: "json \<Rightarrow> json \<Rightarrow> bool"

section \<open>Strings\<close>

text \<open>\<open>unicode.IsSpace\<close>, in UTF-8.\<close>

definition space_runes :: "bytes list" where
  "space_runes = map utf8 ([9, 10, 11, 12, 13, 32, 0x85, 0xA0, 0x1680] @ [0x2000..<0x200B] @ [0x2028, 0x2029, 0x202F, 0x205F, 0x3000])"

definition strip_rune :: "bytes list \<Rightarrow> bytes \<Rightarrow> bytes option" where
  "strip_rune ws s = (case find (\<lambda>w. w \<noteq> [] \<and> prefix w s) ws of None \<Rightarrow> None | Some w \<Rightarrow> Some (drop (length w) s))"

lemma strip_rune_shorter: "strip_rune ws s = Some r \<Longrightarrow> length r < length s"
  by (auto simp: strip_rune_def find_Some_iff prefix_def split: option.splits)

function trim_left :: "bytes list \<Rightarrow> bytes \<Rightarrow> bytes" where
  "trim_left ws s = (case strip_rune ws s of None \<Rightarrow> s | Some r \<Rightarrow> trim_left ws r)"
  by auto
termination by (relation "measure (\<lambda>(ws, s). length s)") (auto dest: strip_rune_shorter)

declare trim_left.simps [simp del]

definition TrimSpace :: "bytes \<Rightarrow> bytes" where
  "TrimSpace s = rev (trim_left (map rev space_runes) (rev (trim_left space_runes s)))"

text \<open>\<open>strings.Fields\<close>: \<open>acc\<close> is the field being read, in reverse.\<close>

function fields_from :: "bytes \<Rightarrow> bytes \<Rightarrow> bytes list" where
  "fields_from acc s =
     (case strip_rune space_runes s of
        Some r \<Rightarrow> (if acc = [] then [] else [rev acc]) @ fields_from [] r
      | None \<Rightarrow> (case s of [] \<Rightarrow> (if acc = [] then [] else [rev acc]) | c # r \<Rightarrow> fields_from (c # acc) r))"
  by auto
termination by (relation "measure (\<lambda>(acc, s). length s)") (auto dest: strip_rune_shorter)

declare fields_from.simps [simp del]

definition Fields :: "bytes \<Rightarrow> bytes list" where
  "Fields s = fields_from [] s"

section \<open>Values of type any\<close>

text \<open>A document decoded into \<open>any\<close> and written again: numbers through \<open>float64\<close>, each key of an
  object once and in order.\<close>

fun canon :: "lib \<Rightarrow> json \<Rightarrow> json option"
and canon_list :: "lib \<Rightarrow> json list \<Rightarrow> json list option"
and canon_members :: "lib \<Rightarrow> (string \<times> json) list \<Rightarrow> (string, json) gomap \<Rightarrow> (string, json) gomap option" where
  "canon lib (JInt i) = (if \<bar>i\<bar> \<le> 2 ^ 53 then Some (JInt i) else lb_float lib (show_int i))"
| "canon lib (JReal l) = lb_float lib l"
| "canon lib (JArr xs) = map_option JArr (canon_list lib xs)"
| "canon lib (JObj kvs) = map_option (map_json (\<lambda>v. v)) (canon_members lib kvs [])"
| "canon lib JNull = Some JNull"
| "canon lib (JBool b) = Some (JBool b)"
| "canon lib (JStr s) = Some (JStr s)"
| "canon_list lib [] = Some []"
| "canon_list lib (x # xs) =
     (case canon lib x of None \<Rightarrow> None
      | Some y \<Rightarrow> (case canon_list lib xs of None \<Rightarrow> None | Some ys \<Rightarrow> Some (y # ys)))"
| "canon_members lib [] m = Some m"
| "canon_members lib ((k, x) # kvs) m =
     (case canon lib x of None \<Rightarrow> None | Some y \<Rightarrow> canon_members lib kvs (AList.update k y m))"

fun dec_any :: "lib \<Rightarrow> json dec" where
  "dec_any lib j d = (case canon lib j of None \<Rightarrow> (d, False) | Some v \<Rightarrow> (v, True))"

section \<open>The fields of a payload\<close>

definition object :: "json option \<Rightarrow> (string, json) gomap" where
  "object raw = (case raw of None \<Rightarrow> [] | Some j \<Rightarrow> obj_fields j)"

definition child :: "(string, json) gomap \<Rightarrow> string \<Rightarrow> (string, json) gomap" where
  "child f k = object (map_of f k)"

definition field_text :: "(string, json) gomap \<Rightarrow> string \<Rightarrow> string" where
  "field_text f k = fst (unmarshal_payload dec_string (map_of f k) [])"

section \<open>Questions\<close>

record question_option =
  qo_label :: string
  qo_description :: string
  qo_preview :: string

record question =
  qu_key :: string
  qu_header :: string
  qu_text :: string
  qu_multi :: bool
  qu_other :: bool
  qu_secret :: bool
  qu_optional :: bool
  qu_action :: bool
  qu_options :: "question_option list"

definition zero_option :: question_option where
  "zero_option = \<lparr>qo_label = [], qo_description = [], qo_preview = []\<rparr>"

definition zero_question :: question where
  "zero_question = \<lparr>qu_key = [], qu_header = [], qu_text = [], qu_multi = False, qu_other = False,
     qu_secret = False, qu_optional = False, qu_action = False, qu_options = []\<rparr>"

definition labels :: "question \<Rightarrow> string list" where
  "labels q = map qo_label (qu_options q)"

datatype question_error =
    Not_async | Missing_questions | Missing_title | Invalid_option
  | Unsupported_method | Invalid_questions | Empty_questions | Bad_question_key | Bad_option_label
  | Bad_elicitation | Unsupported_mode string | Not_an_object_schema
  | Answer_every_question | Missing_answer nat | Unknown_option nat | Other_not_supported nat | Answer_before_submitting nat
  | Incomplete_answers | Invalid_value string | Schema_rejects

text \<open>The test both forms make of their option labels, one after the other.\<close>

definition labels_ok :: "string list \<Rightarrow> bool" where
  "labels_ok ls \<longleftrightarrow> (\<forall>l\<in>set ls. TrimSpace l \<noteq> []) \<and> distinct ls"

definition dec_async_wire :: "(string \<times> string list) dec" where
  "dec_async_wire = dec_struct (\<lambda>kvs v.
     let (a, oka) = dec_field ''title'' dec_string kvs (fst v);
         (b, okb) = dec_field ''options'' (dec_list [] dec_string) kvs (snd v)
     in ((a, b), oka \<and> okb))"

fun async_questions :: "nat \<Rightarrow> (string \<times> string list) list \<Rightarrow> question_error + question list" where
  "async_questions i [] = Inr []"
| "async_questions i ((title, options) # ws) =
     (if TrimSpace title = [] then Inl Missing_title
      else if \<not> labels_ok options then Inl Invalid_option
      else bind_res (async_questions (Suc i) ws) (\<lambda>qs.
        Inr (zero_question\<lparr>qu_key := show_nat i, qu_text := title, qu_other := True,
               qu_options := map (\<lambda>l. zero_option\<lparr>qo_label := l\<rparr>) options\<rparr> # qs)))"

definition CodexAsyncQuestions :: "json option \<Rightarrow> question_error + question list" where
  "CodexAsyncQuestions raw =
     (let item = child (object raw) ''item'' in
      if field_text item ''type'' \<noteq> ''agentMessage'' \<or> field_text item ''delivery'' \<noteq> ''async'' \<or> field_text item ''id'' = []
      then Inl Not_async
      else case unmarshal_payload (dec_list ([], []) dec_async_wire) (map_of item ''questions'') [] of (wire, ok) \<Rightarrow>
        if \<not> ok \<or> wire = [] then Inl Missing_questions else async_questions 0 wire)"

record question_wire =
  qw_id :: string
  qw_header :: string
  qw_question :: string
  qw_multi :: bool
  qw_other :: bool
  qw_secret :: bool
  qw_options :: "question_option list"

definition zero_wire :: question_wire where
  "zero_wire = \<lparr>qw_id = [], qw_header = [], qw_question = [], qw_multi = False, qw_other = False,
     qw_secret = False, qw_options = []\<rparr>"

definition dec_option :: "question_option dec" where
  "dec_option = dec_struct (\<lambda>kvs v.
     let (a, oka) = dec_field ''label'' dec_string kvs (qo_label v);
         (b, okb) = dec_field ''description'' dec_string kvs (qo_description v);
         (c, okc) = dec_field ''preview'' dec_string kvs (qo_preview v)
     in (\<lparr>qo_label = a, qo_description = b, qo_preview = c\<rparr>, oka \<and> okb \<and> okc))"

definition dec_wire :: "question_wire dec" where
  "dec_wire = dec_struct (\<lambda>kvs v.
     let (a, oka) = dec_field ''id'' dec_string kvs (qw_id v);
         (b, okb) = dec_field ''header'' dec_string kvs (qw_header v);
         (c, okc) = dec_field ''question'' dec_string kvs (qw_question v);
         (d, okd) = dec_field ''multiSelect'' dec_bool kvs (qw_multi v);
         (e, oke) = dec_field ''isOther'' dec_bool kvs (qw_other v);
         (f, okf) = dec_field ''isSecret'' dec_bool kvs (qw_secret v);
         (g, okg) = dec_field ''options'' (dec_list zero_option dec_option) kvs (qw_options v)
     in (\<lparr>qw_id = a, qw_header = b, qw_question = c, qw_multi = d, qw_other = e, qw_secret = f, qw_options = g\<rparr>,
         oka \<and> okb \<and> okc \<and> okd \<and> oke \<and> okf \<and> okg))"

fun wire_questions :: "bool \<Rightarrow> string set \<Rightarrow> question_wire list \<Rightarrow> question_error + question list" where
  "wire_questions claude seen [] = Inr []"
| "wire_questions claude seen (w # ws) =
     (let key = if claude then qw_question w else qw_id w in
      if key = [] \<or> qw_question w = [] \<or> key \<in> seen then Inl Bad_question_key
      else if \<not> labels_ok (map qo_label (qw_options w)) then Inl Bad_option_label
      else bind_res (wire_questions claude (insert key seen) ws) (\<lambda>qs.
        Inr (\<lparr>qu_key = key, qu_header = qw_header w, qu_text = qw_question w, qu_multi = claude \<and> qw_multi w,
               qu_other = (claude \<or> qw_other w \<or> qw_options w = []), qu_secret = qw_secret w,
               qu_optional = False, qu_action = False, qu_options = qw_options w\<rparr> # qs)))"

section \<open>MCP elicitation\<close>

record elicitation =
  el_server :: string
  el_mode :: string
  el_message :: string
  el_url :: string
  el_schema :: "json option"

definition zero_elicitation :: elicitation where
  "zero_elicitation = \<lparr>el_server = [], el_mode = [], el_message = [], el_url = [], el_schema = None\<rparr>"

definition dec_elicitation :: "elicitation dec" where
  "dec_elicitation = dec_struct (\<lambda>kvs v.
     let (a, oka) = dec_field ''serverName'' dec_string kvs (el_server v);
         (b, okb) = dec_field ''mode'' dec_string kvs (el_mode v);
         (c, okc) = dec_field ''message'' dec_string kvs (el_message v);
         (d, okd) = dec_field ''url'' dec_string kvs (el_url v);
         (e, oke) = dec_field ''requestedSchema'' dec_raw kvs (el_schema v)
     in (\<lparr>el_server = a, el_mode = b, el_message = c, el_url = d, el_schema = e\<rparr>, oka \<and> okb \<and> okc \<and> okd \<and> oke))"

definition elicitation_of :: "json option \<Rightarrow> elicitation \<times> bool" where
  "elicitation_of raw = unmarshal_payload (dec_struct (\<lambda>kvs v. dec_field ''params'' dec_elicitation kvs v)) raw zero_elicitation"

definition readElicitation :: "json option \<Rightarrow> question_error + elicitation" where
  "readElicitation raw =
     (case elicitation_of raw of (p, ok) \<Rightarrow>
        if \<not> ok then Inl Bad_elicitation
        else if el_mode p = ''form'' \<or> el_mode p = ''url'' then Inr p
        else Inl (Unsupported_mode (el_mode p)))"

definition elicitationActionKey :: string where
  "elicitationActionKey = ''cxz:action''"

definition action_question :: "elicitation \<Rightarrow> question" where
  "action_question p = zero_question\<lparr>
     qu_key := elicitationActionKey, qu_header := ''MCP '' @ utf8 0xB7 @ '' '' @ el_server p,
     qu_text := el_message p @ (if el_mode p = ''url'' then [chr_newline] @ el_url p @ [chr_newline] @
       ''Complete the URL flow yourself, then accept. cxz does not open it automatically.'' else []),
     qu_action := True,
     qu_options := map (\<lambda>l. zero_option\<lparr>qo_label := l\<rparr>) [''Accept'', ''Decline'', ''Cancel'']\<rparr>"

record form_schema =
  fs_type :: string
  fs_properties :: "(string, json option) gomap"
  fs_required :: "string list"

definition dec_schema :: "form_schema dec" where
  "dec_schema = dec_struct (\<lambda>kvs v.
     let (a, oka) = dec_field ''type'' dec_string kvs (fs_type v);
         (b, okb) = dec_field ''properties'' (dec_map None dec_raw) kvs (fs_properties v);
         (c, okc) = dec_field ''required'' (dec_list [] dec_string) kvs (fs_required v)
     in (\<lparr>fs_type = a, fs_properties = b, fs_required = c\<rparr>, oka \<and> okb \<and> okc))"

definition dec_choice :: "(string \<times> string) dec" where
  "dec_choice = dec_struct (\<lambda>kvs v.
     let (a, oka) = dec_field ''const'' dec_string kvs (fst v);
         (b, okb) = dec_field ''title'' dec_string kvs (snd v)
     in ((a, b), oka \<and> okb))"

definition form_options :: "(string, json) gomap \<Rightarrow> question_option list" where
  "form_options f =
     (let values = (if field_text f ''type'' = ''boolean'' then [''true'', ''false'']
                    else fst (unmarshal_payload (dec_list [] dec_string) (map_of f ''enum'') []));
          choices = fst (unmarshal_payload (dec_list ([], []) dec_choice) (map_of f ''oneOf'') []);
          names = fst (unmarshal_payload (dec_list [] dec_string) (map_of f ''enumNames'') [])
      in map (\<lambda>(i, v). \<lparr>qo_label = v, qo_description = (if i < length names then names ! i else []), qo_preview = []\<rparr>)
           (enumerate 0 values) @
         map (\<lambda>(c, t). \<lparr>qo_label = c, qo_description = t, qo_preview = []\<rparr>) choices)"

definition form_question :: "elicitation \<Rightarrow> string list \<Rightarrow> string \<times> json option \<Rightarrow> question" where
  "form_question p required kv =
     (let key = fst kv; f = object (snd kv); typ = field_text f ''type''; title = field_text f ''title'';
          optional = key \<notin> set required; desc = field_text f ''description'';
          options = form_options f
      in zero_question\<lparr>qu_key := ''field:'' @ key, qu_header := el_server p,
           qu_text := (if title = [] then key else title) @
             (if desc = [] then [] else chr_newline # desc) @
             (if optional then chr_newline # ''Optional: leave blank to omit.'' else []) @
             (if typ \<noteq> ''string'' \<and> typ \<noteq> ''boolean'' then chr_newline # ''Enter a JSON '' @ typ @ '' value.'' else []),
           qu_other := (options = []), qu_optional := optional, qu_options := options\<rparr>)"

definition ElicitationQuestions :: "json option \<Rightarrow> question_error + question list" where
  "ElicitationQuestions raw = bind_res (readElicitation raw) (\<lambda>p.
     if el_mode p = ''url'' then Inr [action_question p]
     else case unmarshal_payload dec_schema (el_schema p) \<lparr>fs_type = [], fs_properties = [], fs_required = []\<rparr> of
       (schema, ok) \<Rightarrow>
         if \<not> ok \<or> fs_type schema \<noteq> ''object'' then Inl Not_an_object_schema
         else Inr (action_question p # map (form_question p (fs_required schema)) (sort_key fst (fs_properties schema))))"

definition Questions :: "string \<Rightarrow> string \<Rightarrow> json option \<Rightarrow> question_error + question list" where
  "Questions provider method raw =
     (if provider = ''codex'' \<and> method = CodexAsyncQuestion then CodexAsyncQuestions raw
      else if provider = ''codex'' \<and> method = CodexElicitation then ElicitationQuestions raw
      else
        let parse = (\<lambda>body. case unmarshal_payload (dec_list zero_wire dec_wire) (map_of body ''questions'') [] of (wire, ok) \<Rightarrow>
              if \<not> ok then Inl Invalid_questions
              else if wire = [] then Inl Empty_questions
              else wire_questions (provider = ''claude'') {} wire)
        in if provider = ''claude'' \<and> method = ''AskUserQuestion'' then parse (child (object raw) ''input'')
           else if provider = ''codex'' \<and> method = ''item/tool/requestUserInput'' then parse (child (object raw) ''params'')
           else Inl Unsupported_method)"

end
