(* ===== verification/Answers.thy ===== *)
theory Answers
  imports Questions
begin

text \<open>
  What the user answers to a form: the normal form of the answers (\<open>NormalizeAnswers\<close>), how a client
  sends them (\<open>EncodeQuestionAnswers\<close>, \<open>DecodeAnswers\<close>), what each provider is told, what the reading
  history keeps, and which requests the full mode answers itself.
\<close>

type_synonym answers = "(string, answer_selection) gomap"

section \<open>The normal form of the answers\<close>

fun clean_selected :: "string list \<Rightarrow> string list \<Rightarrow> string list \<Rightarrow> string list option" where
  "clean_selected known acc [] = Some acc"
| "clean_selected known acc (l # ls) =
     (if l \<notin> set known then None
      else clean_selected known (if l \<in> set acc then acc else acc @ [l]) ls)"

definition normalize_one :: "nat \<Rightarrow> question \<Rightarrow> answer_selection \<Rightarrow> question_error + answer_selection" where
  "normalize_one i q a =
     (let other = (if qu_secret q then as_other a else TrimSpace (as_other a)) in
      case clean_selected (labels q) [] (as_selected a) of
        None \<Rightarrow> Inl (Unknown_option (i + 1))
      | Some sel \<Rightarrow>
          if other \<noteq> [] \<and> \<not> qu_other q then Inl (Other_not_supported (i + 1))
          else
            let listed = other \<noteq> [] \<and> other \<in> set (labels q);
                sel = (if listed \<and> other \<notin> set sel then sel @ [other] else sel);
                other = (if listed then [] else other);
                count = length sel + (if other \<noteq> [] then 1 else 0)
            in if (count = 0 \<and> \<not> qu_optional q) \<or> (\<not> qu_multi q \<and> 1 < count)
               then Inl (Answer_before_submitting (i + 1))
               else Inr \<lparr>as_selected = sel, as_other = other\<rparr>)"

fun normalize_from :: "nat \<Rightarrow> question list \<Rightarrow> answers \<Rightarrow> answers \<Rightarrow> question_error + answers" where
  "normalize_from i [] values out = Inr out"
| "normalize_from i (q # qs) values out =
     (case map_of values (qu_key q) of
        None \<Rightarrow> Inl (Missing_answer (i + 1))
      | Some a \<Rightarrow> bind_res (normalize_one i q a) (\<lambda>clean.
          normalize_from (Suc i) qs values (AList.update (qu_key q) clean out)))"

definition ElicitationDismissed :: "question list \<Rightarrow> answers \<Rightarrow> bool" where
  "ElicitationDismissed qs values =
     (case qs of
        [] \<Rightarrow> False
      | q # _ \<Rightarrow> qu_action q \<and>
          (let a = get_or zero_selection values (qu_key q)
           in as_other a = [] \<and> (as_selected a = [''Decline''] \<or> as_selected a = [''Cancel''])))"

definition NormalizeAnswers :: "question list \<Rightarrow> answers \<Rightarrow> question_error + answers" where
  "NormalizeAnswers qs values =
     (if ElicitationDismissed qs values
      then Inr [(qu_key (hd qs), get_or zero_selection values (qu_key (hd qs)))]
      else if length values \<noteq> length qs then Inl Answer_every_question
      else normalize_from 0 qs values [])"

section \<open>Between client and supervisor\<close>

definition chosen :: "question \<Rightarrow> bool list \<Rightarrow> string list" where
  "chosen q marks = map fst (filter snd (zip (labels q) marks))"

definition given_answers :: "question list \<Rightarrow> bool list list \<Rightarrow> string list \<Rightarrow> answers" where
  "given_answers qs marks other =
     foldl (\<lambda>m (q, ms, o'). AList.update (qu_key q) \<lparr>as_selected = chosen q ms, as_other = o'\<rparr> m)
       [] (zip qs (zip marks other))"

definition EncodeQuestionAnswers :: "question list \<Rightarrow> bool list list \<Rightarrow> string list \<Rightarrow> question_error + string" where
  "EncodeQuestionAnswers qs marks other =
     (if length qs \<noteq> length marks \<or> length qs \<noteq> length other then Inl Incomplete_answers
      else bind_res (NormalizeAnswers qs (given_answers qs marks other)) (\<lambda>values. Inr (print_json (map_json selection_json values))))"

datatype answers_error = Answers_not_an_object | Empty_answer_key | Bad_answer | Mixed_answers

definition strict_selection :: "json \<Rightarrow> answer_selection option" where
  "strict_selection j =
     (case j of
        JObj kvs \<Rightarrow>
          (case dec_selection j zero_selection of (a, ok) \<Rightarrow>
             if ok \<and> list_all (\<lambda>(k, v). key_eq k ''selected'' \<or> key_eq k ''other'') kvs then Some a else None)
      | _ \<Rightarrow> None)"

fun decode_entries :: "(string \<times> json) list \<Rightarrow> (string, string) gomap \<Rightarrow> answers \<Rightarrow>
    answers_error + (string, string) gomap \<times> answers" where
  "decode_entries [] legacy choices = Inr (legacy, choices)"
| "decode_entries ((k, j) # kvs) legacy choices =
     (if k = [] then Inl Empty_answer_key
      else case j of
        JStr text \<Rightarrow> decode_entries kvs (AList.update k text legacy) choices
      | _ \<Rightarrow> (case strict_selection j of
                None \<Rightarrow> Inl Bad_answer
              | Some a \<Rightarrow> decode_entries kvs legacy (AList.update k a choices)))"

definition DecodeAnswers :: "string \<Rightarrow> answers_error + (string, string) gomap \<times> answers" where
  "DecodeAnswers raw =
     (if raw = [] then Inr ([], [])
      else case parse_json raw of
        Some (JObj kvs) \<Rightarrow>
          bind_res (decode_entries (obj_fields (JObj kvs)) [] []) (\<lambda>(legacy, choices).
            if legacy \<noteq> [] \<and> choices \<noteq> [] then Inl Mixed_answers else Inr (legacy, choices))
      | _ \<Rightarrow> Inl Answers_not_an_object)"

section \<open>What the providers are told\<close>

definition claude_note :: "question \<Rightarrow> answer_selection \<Rightarrow> (string, string) gomap" where
  "claude_note q a =
     (let note = (if as_other a \<noteq> [] \<or> qu_multi q
                  then [(''notes'', ''cxz structured selection: '' @ print_json (selection_json a))] else [])
      in case as_selected a of
           [l] \<Rightarrow> if qu_multi q then note
             else foldl (\<lambda>n o'. if qo_label o' = l \<and> qo_preview o' \<noteq> [] then AList.update ''preview'' (qo_preview o') n else n)
                    note (qu_options q)
         | _ \<Rightarrow> note)"

definition claude_answer :: "answer_selection \<Rightarrow> string" where
  "claude_answer a = join '', '' (as_selected a @ (if as_other a \<noteq> [] then [as_other a] else []))"

definition ClaudeAnswerAnnotations :: "question list \<Rightarrow> answers \<Rightarrow>
    (string, string) gomap \<times> (string, (string, string) gomap) gomap" where
  "ClaudeAnswerAnnotations qs values =
     foldl (\<lambda>(ans, notes) q.
        let a = get_or zero_selection values (qu_key q); note = claude_note q a
        in (AList.update (qu_key q) (claude_answer a) ans,
            if note \<noteq> [] then AList.update (qu_key q) note notes else notes)) ([], []) qs"

text \<open>The answers an older client sends as plain strings.\<close>

definition legacy_selection :: "(string, string) gomap \<Rightarrow> question \<Rightarrow> answer_selection" where
  "legacy_selection ans q =
     (let a = get_or [] ans (qu_key q) in
      if qu_other q then zero_selection\<lparr>as_other := a\<rparr>
      else if a \<noteq> [] then zero_selection\<lparr>as_selected := [a]\<rparr> else zero_selection)"

definition form_values :: "question list \<Rightarrow> (string, string) gomap \<Rightarrow> answers" where
  "form_values qs ans = foldl (\<lambda>m q. AList.update (qu_key q) (legacy_selection ans q) m) [] qs"

fun form_content :: "lib \<Rightarrow> (string, json) gomap \<Rightarrow> question list \<Rightarrow> answers \<Rightarrow> (string, json) gomap \<Rightarrow>
    question_error + (string, json) gomap" where
  "form_content lib props [] values m = Inr m"
| "form_content lib props (q # qs) values m =
     (let a = get_or zero_selection values (qu_key q);
          value = (case as_selected a of [] \<Rightarrow> as_other a | l # _ \<Rightarrow> l);
          key = (if prefix ''field:'' (qu_key q) then drop 6 (qu_key q) else qu_key q)
      in if value = [] \<and> qu_optional q then form_content lib props qs values m
         else if field_text (child props key) ''type'' = ''string''
         then form_content lib props qs values (AList.update key (JStr value) m)
         else case parse_json value of
             None \<Rightarrow> Inl (Invalid_value key)
           | Some j \<Rightarrow> (case canon lib j of
               None \<Rightarrow> Inl (Invalid_value key)
             | Some v \<Rightarrow> form_content lib props qs values (AList.update key v m)))"

definition elicitation_result :: "string \<Rightarrow> json \<Rightarrow> json" where
  "elicitation_result action content = JObj [(''action'', JStr action), (''content'', content)]"

definition ElicitationResponse :: "lib \<Rightarrow> json option \<Rightarrow> bool \<Rightarrow> answers \<Rightarrow> (string, string) gomap \<Rightarrow> question_error + json" where
  "ElicitationResponse lib raw allow values ans =
     (if \<not> allow then Inr (elicitation_result ''decline'' JNull)
      else bind_res (ElicitationQuestions raw) (\<lambda>qs.
        bind_res (NormalizeAnswers qs (if values = [] then form_values qs ans else values)) (\<lambda>values.
          let action = map lower (hd (as_selected (get_or zero_selection values elicitationActionKey)))
          in if action \<noteq> ''accept'' then Inr (elicitation_result action JNull)
             else
               let p = fst (elicitation_of raw) in
               if el_mode p = ''url'' then Inr (elicitation_result action JNull)
               else bind_res (form_content lib (child (object (el_schema p)) ''properties'') (tl qs) values []) (\<lambda>m.
                 let content = map_json (\<lambda>v. v) m
                 in case el_schema p of
                      None \<Rightarrow> Inl Schema_rejects
                    | Some schema \<Rightarrow> if lb_schema lib schema content then Inr (elicitation_result action content)
                                     else Inl Schema_rejects))))"

definition ElicitationSelection :: "string \<Rightarrow> answers" where
  "ElicitationSelection action = [(elicitationActionKey, zero_selection\<lparr>as_selected := [action]\<rparr>)]"

definition ElicitationButtons :: "lib \<Rightarrow> json option \<Rightarrow> bool" where
  "ElicitationButtons lib raw =
     (case readElicitation raw of
        Inl _ \<Rightarrow> False
      | Inr p \<Rightarrow>
          if el_mode p = ''url'' then True
          else case ElicitationQuestions raw of
              Inl _ \<Rightarrow> False
            | Inr qs \<Rightarrow> length qs = 1 \<and> is_ok (ElicitationResponse lib raw True (ElicitationSelection ''Accept'') []))"

definition QuestionRequest :: "lib \<Rightarrow> string \<Rightarrow> json option \<Rightarrow> bool" where
  "QuestionRequest lib name raw \<longleftrightarrow> Question name \<and> \<not> (name = CodexElicitation \<and> ElicitationButtons lib raw)"

definition AutomaticApproval :: "lib \<Rightarrow> string \<Rightarrow> json option \<Rightarrow> bool" where
  "AutomaticApproval lib name raw =
     (if name = CodexElicitation
      then (case readElicitation raw of Inl _ \<Rightarrow> False | Inr p \<Rightarrow> el_mode p = ''form'' \<and> ElicitationButtons lib raw)
      else core_AutomaticApproval name)"

section \<open>What the reading history keeps\<close>

record resolution =
  rs_state :: string
  rs_answers :: answers

definition resolution_json :: "resolution \<Rightarrow> json" where
  "resolution_json r = JObj ([(''state'', JStr (rs_state r))] @
     omit (rs_answers r = []) ''answers'' (map_json selection_json (rs_answers r)))"

definition native_method :: "string \<Rightarrow> json option \<Rightarrow> string" where
  "native_method method raw =
     (if method \<noteq> [] then method
      else
        let (m, t) = fst (unmarshal_payload (dec_struct (\<lambda>kvs v.
              let (a, oka) = dec_field ''method'' dec_string kvs (fst v);
                  (b, okb) = dec_field ''tool_name'' dec_string kvs (snd v)
              in ((a, b), oka \<and> okb))) raw ([], []))
        in if m = [] then t else m)"

definition reply_value :: "answers \<Rightarrow> (string, string) gomap \<Rightarrow> question \<Rightarrow> answer_selection" where
  "reply_value selections ans q =
     (if qu_secret q then zero_selection\<lparr>as_other := ''[redacted]''\<rparr>
      else case map_of selections (qu_key q) of
          Some v \<Rightarrow> v
        | None \<Rightarrow>
            let a = get_or [] ans (qu_key q)
            in zero_selection\<lparr>as_other := (if a = [] then get_or [] ans (qu_text q) else a)\<rparr>)"

definition QuestionReply :: "string \<Rightarrow> string \<Rightarrow> json option \<Rightarrow> string \<Rightarrow> (string, string) gomap \<Rightarrow> answers \<Rightarrow> resolution option" where
  "QuestionReply provider method raw state ans selections =
     (case Questions provider (native_method method raw) raw of
        Inl _ \<Rightarrow> None
      | Inr qs \<Rightarrow>
          if state \<noteq> ''allowed'' then Some \<lparr>rs_state = state, rs_answers = []\<rparr>
          else
            let selections = (case NormalizeAnswers qs selections of Inl _ \<Rightarrow> selections | Inr s \<Rightarrow> s)
            in Some \<lparr>rs_state = state,
                 rs_answers = foldl (\<lambda>m q. AList.update (qu_key q) (reply_value selections ans q) m) [] qs\<rparr>)"


section \<open>Trimming\<close>

lemma strip_rune_Nil [simp]: "strip_rune ws [] = None"
  by (auto simp: strip_rune_def find_Some_iff split: option.splits)

lemma TrimSpace_Nil [simp]: "TrimSpace [] = []"
  by (simp add: TrimSpace_def trim_left.simps)

lemma trim_left_suffix: "\<exists>u. s = u @ trim_left ws s"
proof (induction ws s rule: trim_left.induct)
  case (1 ws s)
  show ?case
  proof (cases "strip_rune ws s")
    case (Some r)
    then obtain u where "s = u @ r" by (auto simp: strip_rune_def find_Some_iff prefix_def split: option.splits)
    moreover obtain v where "r = v @ trim_left ws r" using 1 Some by blast
    ultimately have "s = (u @ v) @ trim_left ws r" by simp
    then show ?thesis unfolding trim_left.simps [of ws s] Some option.case by (rule exI)
  qed (simp add: trim_left.simps [of ws s])
qed

lemma trim_left_None: "strip_rune ws (trim_left ws s) = None"
proof (induction ws s rule: trim_left.induct)
  case (1 ws s)
  then show ?case by (cases "strip_rune ws s") (simp_all add: trim_left.simps [of ws s])
qed

lemma strip_rune_prefix: "strip_rune ws s = None \<Longrightarrow> prefix u s \<Longrightarrow> strip_rune ws u = None"
  by (auto simp: strip_rune_def find_None_iff split: option.splits dest: prefix_order.trans)

lemma TrimSpace_idem [simp]: "TrimSpace (TrimSpace s) = TrimSpace s"
proof -
  let ?l = "trim_left space_runes s"
  let ?r = "trim_left (map rev space_runes) (rev ?l)"
  obtain u where "rev ?l = u @ ?r" using trim_left_suffix by blast
  then have "?l = rev ?r @ rev u" by (metis rev_append rev_rev_ident)
  then have "strip_rune space_runes (rev ?r) = None"
    using strip_rune_prefix [OF trim_left_None [of space_runes s]] by (metis prefixI)
  then have a: "trim_left space_runes (TrimSpace s) = TrimSpace s"
    by (simp add: trim_left.simps [of space_runes "rev ?r"] TrimSpace_def)
  have "trim_left (map rev space_runes) ?r = ?r"
    by (simp add: trim_left.simps [of "map rev space_runes" ?r] trim_left_None)
  then have "trim_left (map rev space_runes) (rev (TrimSpace s)) = rev (TrimSpace s)"
    unfolding TrimSpace_def by simp
  then show ?thesis by (subst TrimSpace_def) (simp only: a rev_rev_ident)
qed

text \<open>A string that starts and ends with a byte no space starts or ends with is trimmed.\<close>

definition plain_char :: "char \<Rightarrow> bool" where
  "plain_char c \<longleftrightarrow> 33 \<le> byte c \<and> byte c \<le> 126"

lemma utf8_not_plain: "n \<le> 32 \<or> 128 \<le> n \<and> n < 65536 \<Longrightarrow> c \<in> set (utf8 n) \<Longrightarrow> \<not> plain_char c"
proof -
  assume n: "n \<le> 32 \<or> 128 \<le> n \<and> n < 65536" and c: "c \<in> set (utf8 n)"
  have b: "(128 + m mod 64) mod 256 = 128 + m mod 64" for m :: nat
  proof (rule mod_less)
    show "128 + m mod 64 < 256" using mod_less_divisor [of 64 m] by linarith
  qed
  have d: "(192 + n div 64) mod 256 = 192 + n div 64" if "n < 2048"
    using that by (intro mod_less) (simp add: div_less_iff_less_mult)
  have e: "(224 + n div 4096) mod 256 = 224 + n div 4096" if "n < 65536"
    using that by (intro mod_less) (simp add: div_less_iff_less_mult)
  show ?thesis using n c by (auto simp: utf8_def plain_char_def b d e split: if_splits)
qed

lemma space_rune_bytes: "w \<in> set space_runes \<Longrightarrow> c \<in> set w \<Longrightarrow> \<not> plain_char c"
proof -
  assume w: "w \<in> set space_runes" "c \<in> set w"
  obtain n where n: "w = utf8 n" "n \<in> set ([9, 10, 11, 12, 13, 32, 0x85, 0xA0, 0x1680] @ [0x2000..<0x200B] @ [0x2028, 0x2029, 0x202F, 0x205F, 0x3000])"
    using w(1) unfolding space_runes_def set_map by blast
  from n(2) have "n \<le> 32 \<or> 128 \<le> n \<and> n < 65536" by auto
  then show ?thesis using utf8_not_plain w(2) n(1) by blast
qed

lemma plain_heads: "plain_char c \<Longrightarrow> c \<notin> hd ` set space_runes \<and> c \<notin> last ` set space_runes"
proof -
  assume c: "plain_char c"
  have "w \<noteq> []" if "w \<in> set space_runes" for w using that by (auto simp: space_runes_def utf8_def)
  then show ?thesis using space_rune_bytes c by (metis hd_in_set imageE last_in_set)
qed

lemma strip_rune_hd: "hd s \<notin> hd ` set ws \<Longrightarrow> strip_rune ws s = None"
proof (rule ccontr)
  assume h: "hd s \<notin> hd ` set ws" and "strip_rune ws s \<noteq> None"
  then obtain w where "find (\<lambda>w. w \<noteq> [] \<and> prefix w s) ws = Some w" by (auto simp: strip_rune_def split: option.splits)
  then have "w \<in> set ws" "w \<noteq> []" "prefix w s" by (auto simp: find_Some_iff)
  then show False using h by (auto simp: prefix_def)
qed

lemma TrimSpace_plain:
  assumes "s = [] \<or> plain_char (hd s) \<and> plain_char (last s)"
  shows "TrimSpace s = s"
proof (cases "s = []")
  case False
  with assms have p: "plain_char (hd s)" "plain_char (last s)" by auto
  have a: "trim_left space_runes s = s"
    using strip_rune_hd [of s space_runes] plain_heads [OF p(1)] by (simp add: trim_left.simps [of space_runes s])
  have "hd ` set (map rev space_runes) = last ` set space_runes"
    by (simp add: image_image hd_rev)
  then have "strip_rune (map rev space_runes) (rev s) = None"
    using strip_rune_hd [of "rev s" "map rev space_runes"] plain_heads [OF p(2)] False by (simp add: hd_rev)
  then have "trim_left (map rev space_runes) (rev s) = rev s" by (simp add: trim_left.simps [of _ "rev s"])
  then show ?thesis by (simp add: TrimSpace_def a)
qed simp

section \<open>Normal answers\<close>

definition answer_ok :: "question \<Rightarrow> answer_selection \<Rightarrow> bool" where
  "answer_ok q a \<longleftrightarrow>
     set (as_selected a) \<subseteq> set (labels q) \<and> distinct (as_selected a) \<and>
     (as_other a \<noteq> [] \<longrightarrow> qu_other q \<and> as_other a \<notin> set (labels q)) \<and>
     (\<not> qu_secret q \<longrightarrow> TrimSpace (as_other a) = as_other a) \<and>
     (let n = length (as_selected a) + (if as_other a = [] then 0 else 1)
      in (n = 0 \<longrightarrow> qu_optional q) \<and> (1 < n \<longrightarrow> qu_multi q))"

lemma clean_selected_sound:
  "clean_selected known acc ls = Some sel \<Longrightarrow> set acc \<subseteq> set known \<Longrightarrow> distinct acc \<Longrightarrow>
   set sel = set acc \<union> set ls \<and> set sel \<subseteq> set known \<and> distinct sel"
  by (induction known acc ls rule: clean_selected.induct) (auto split: if_splits)

lemma clean_selected_id:
  "distinct (acc @ ls) \<Longrightarrow> set ls \<subseteq> set known \<Longrightarrow> clean_selected known acc ls = Some (acc @ ls)"
  by (induction known acc ls rule: clean_selected.induct) auto

lemma normalize_one_sound: "normalize_one i q a = Inr c \<Longrightarrow> answer_ok q c"
proof -
  assume n: "normalize_one i q a = Inr c"
  obtain sel where s: "clean_selected (labels q) [] (as_selected a) = Some sel"
    using n by (auto simp: normalize_one_def Let_def split: option.splits)
  have "set sel \<subseteq> set (labels q)" "distinct sel" using clean_selected_sound [OF s] by auto
  then show ?thesis
    using n by (auto simp: normalize_one_def Let_def s answer_ok_def split: if_splits)
qed

lemma normalize_one_id: "answer_ok q c \<Longrightarrow> normalize_one i q c = Inr c"
  using clean_selected_id [of "[]" "as_selected c" "labels q"]
  by (cases c) (auto simp: normalize_one_def answer_ok_def Let_def split: if_splits)

lemma normalize_one_index: "normalize_one i q a = Inr c \<longleftrightarrow> normalize_one 0 q a = Inr c"
  by (simp add: normalize_one_def Let_def split: option.splits)

lemma normalize_from_spec:
  "normalize_from i qs values out = Inr res \<Longrightarrow> distinct (map qu_key qs) \<Longrightarrow>
   (\<forall>q\<in>set qs. \<exists>a c. map_of values (qu_key q) = Some a \<and> normalize_one 0 q a = Inr c \<and> map_of res (qu_key q) = Some c) \<and>
   (\<forall>k. k \<notin> qu_key ` set qs \<longrightarrow> map_of res k = map_of out k)"
proof (induction qs arbitrary: i out)
  case (Cons q qs)
  obtain a c where a: "map_of values (qu_key q) = Some a" "normalize_one i q a = Inr c"
    "normalize_from (Suc i) qs values (AList.update (qu_key q) c out) = Inr res"
    using Cons.prems(1) by (auto simp: bind_res_Inr_iff split: option.splits)
  have d: "distinct (map qu_key qs)" "qu_key q \<notin> qu_key ` set qs" using Cons.prems(2) by auto
  note IH = Cons.IH [OF a(3) d(1)]
  have "map_of res (qu_key q) = Some c" using conjunct2 [OF IH] d(2) by simp
  moreover have "normalize_one 0 q a = Inr c" using a(2) normalize_one_index by blast
  ultimately show ?case using IH a(1) by (simp add: ball_simps)
qed simp

lemma normalize_from_keys:
  "normalize_from i qs values out = Inr res \<Longrightarrow> distinct (map fst out @ map qu_key qs) \<Longrightarrow>
   map fst res = map fst out @ map qu_key qs"
proof (induction qs arbitrary: i out)
  case (Cons q qs)
  obtain a c where a: "normalize_from (Suc i) qs values (AList.update (qu_key q) c out) = Inr res"
    using Cons.prems(1) by (auto simp: bind_res_Inr_iff split: option.splits)
  have u: "AList.update (qu_key q) c out = out @ [(qu_key q, c)]" using Cons.prems(2) by (intro update_new) auto
  show ?case using Cons.IH [OF a] Cons.prems(2) by (simp add: u)
qed simp


section \<open>The keys of a form\<close>

definition form_ok :: "question list \<Rightarrow> bool" where
  "form_ok qs \<longleftrightarrow> qs \<noteq> [] \<and> distinct (map qu_key qs) \<and> [] \<notin> qu_key ` set qs"

lemma async_keys: "async_questions i ws = Inr qs \<Longrightarrow> map qu_key qs = map show_nat [i..<i + length ws]"
proof (induction i ws arbitrary: qs rule: async_questions.induct)
  case (2 i title options ws)
  then show ?case by (auto simp: bind_res_Inr_iff zero_question_def upt_conv_Cons simp del: upt_Suc split: if_splits)
qed simp

lemma async_no_action: "async_questions i ws = Inr qs \<Longrightarrow> \<forall>q\<in>set qs. \<not> qu_action q"
  by (induction i ws arbitrary: qs rule: async_questions.induct)
    (auto simp: bind_res_Inr_iff zero_question_def split: if_splits)

lemma show_nat_inj: "inj show_nat"
  by (rule injI) (metis read_show_nat)

lemma wire_keys:
  "wire_questions claude seen ws = Inr qs \<Longrightarrow>
   length qs = length ws \<and> distinct (map qu_key qs) \<and> qu_key ` set qs \<inter> seen = {} \<and> [] \<notin> qu_key ` set qs \<and>
   (\<forall>q\<in>set qs. \<not> qu_action q)"
proof (induction claude seen ws arbitrary: qs rule: wire_questions.induct)
  case (2 claude seen w ws)
  then show ?case by (fastforce simp: bind_res_Inr_iff Let_def split: if_splits)
qed simp

lemma dec_entries_wf: "wf_map (fst st) \<Longrightarrow> wf_map (fst (dec_entries z e kvs st))"
  by (induction z e kvs st rule: dec_entries.induct) (auto split: prod.splits)

lemma dec_map_wf: "wf_map m \<Longrightarrow> wf_map (fst (dec_map z e j m))"
  by (cases "(z, e, j, m)" rule: dec_map.cases) (simp_all add: dec_entries_wf)

lemma schema_wf:
  assumes "unmarshal_payload dec_schema p \<lparr>fs_type = [], fs_properties = [], fs_required = []\<rparr> = (schema, ok)"
  shows "wf_map (fs_properties schema)"
proof (cases p)
  case (Some j)
  show ?thesis
  proof (cases j)
    case (JObj kvs)
    obtain b okb where b: "dec_field ''properties'' (dec_map None dec_raw) kvs [] = (b, okb)" by fastforce
    have "wf_map b" by (rule dec_field_inv [OF b]) (simp_all add: dec_map_wf)
    then show ?thesis
      using assms by (auto simp: Some JObj unmarshal_payload_def dec_schema_def b case_prod_unfold Let_def)
  qed (use assms in \<open>auto simp: Some unmarshal_payload_def dec_schema_def\<close>)
qed (use assms in \<open>auto simp: unmarshal_payload_def\<close>)

lemma form_question_key [simp]: "qu_key (form_question p r kv) = ''field:'' @ fst kv"
  by (simp add: form_question_def Let_def zero_question_def)

lemma action_question_simps [simp]:
  "qu_key (action_question p) = elicitationActionKey" "qu_action (action_question p)"
  "labels (action_question p) = [''Accept'', ''Decline'', ''Cancel'']"
  "\<not> qu_other (action_question p)" "\<not> qu_multi (action_question p)" "\<not> qu_optional (action_question p)"
  by (simp_all add: action_question_def zero_question_def zero_option_def labels_def)

lemma elicitation_form:
  assumes "ElicitationQuestions raw = Inr qs"
  shows "\<exists>p rest. readElicitation raw = Inr p \<and> qs = action_question p # rest \<and> form_ok qs"
proof -
  obtain p where p: "readElicitation raw = Inr p"
    using assms by (auto simp: ElicitationQuestions_def bind_res_Inr_iff)
  show ?thesis
  proof (cases "el_mode p = ''url''")
    case True
    then show ?thesis
      using assms p by (auto simp: ElicitationQuestions_def form_ok_def elicitationActionKey_def)
  next
    case False
    obtain schema ok where s:
      "unmarshal_payload dec_schema (el_schema p) \<lparr>fs_type = [], fs_properties = [], fs_required = []\<rparr> = (schema, ok)"
      by fastforce
    let ?kvs = "sort_key fst (fs_properties schema)"
    have qs: "qs = action_question p # map (form_question p (fs_required schema)) ?kvs"
      using assms p False s by (auto simp: ElicitationQuestions_def split: if_splits)
    have "distinct (map fst ?kvs)" using schema_wf [OF s] by (simp add: wf_map_def)
    then have "distinct (map (\<lambda>kv. ''field:'' @ fst kv) ?kvs)"
      by (auto simp: distinct_map inj_on_def)
    then have "form_ok qs"
      by (auto simp: qs form_ok_def comp_def elicitationActionKey_def)
    then show ?thesis using p qs by blast
  qed
qed

lemma Questions_form:
  assumes "Questions provider method raw = Inr qs"
  shows "form_ok qs \<and> (method \<noteq> CodexElicitation \<longrightarrow> (\<forall>q\<in>set qs. \<not> qu_action q))"
proof -
  consider (async) "CodexAsyncQuestions raw = Inr qs" "method = CodexAsyncQuestion"
    | (mcp) "ElicitationQuestions raw = Inr qs" "method = CodexElicitation"
    | (wire) ws where "ws \<noteq> []" "wire_questions (provider = ''claude'') {} ws = Inr qs"
    using assms by (auto simp: Questions_def Let_def split: if_splits prod.splits)
  then show ?thesis
  proof cases
    case async
    then obtain wire where w: "wire \<noteq> []" "async_questions 0 wire = Inr qs"
      by (auto simp: CodexAsyncQuestions_def Let_def split: if_splits prod.splits)
    have k: "map qu_key qs = map show_nat [0..<length wire]" using async_keys [OF w(2)] by simp
    then have "distinct (map qu_key qs)" by (simp add: distinct_map inj_on_subset [OF show_nat_inj])
    moreover have "[] \<notin> set (map qu_key qs)" unfolding k using show_nat_nonempty by (metis imageE list.set_map)
    moreover have "qs \<noteq> []" using k w(1) by auto
    ultimately show ?thesis using async_no_action [OF w(2)] by (simp add: form_ok_def)
  next
    case mcp
    then show ?thesis using elicitation_form by blast
  next
    case wire
    then show ?thesis using wire_keys [OF wire(2)] by (auto simp: form_ok_def)
  qed
qed

section \<open>The properties\<close>

lemma normalize_parts:
  assumes "NormalizeAnswers qs values = Inr out" "\<not> ElicitationDismissed qs values" "distinct (map qu_key qs)"
  shows "map fst out = map qu_key qs"
    "q \<in> set qs \<Longrightarrow> \<exists>a c. map_of values (qu_key q) = Some a \<and> normalize_one 0 q a = Inr c \<and> map_of out (qu_key q) = Some c"
proof -
  have n: "normalize_from 0 qs values [] = Inr out"
    using assms(1,2) by (auto simp: NormalizeAnswers_def split: if_splits)
  show "map fst out = map qu_key qs" using normalize_from_keys [OF n] assms(3) by simp
  show "q \<in> set qs \<Longrightarrow> \<exists>a c. map_of values (qu_key q) = Some a \<and> normalize_one 0 q a = Inr c \<and> map_of out (qu_key q) = Some c"
    using normalize_from_spec [OF n assms(3)] by blast
qed

lemma normalize_one_keeps:
  assumes "normalize_one i q a = Inr c"
  shows "set (as_selected a) \<subseteq> set (as_selected c)"
proof -
  obtain sel where s: "clean_selected (labels q) [] (as_selected a) = Some sel"
    using assms by (auto simp: normalize_one_def Let_def split: option.splits)
  have "as_selected c = sel \<or> (\<exists>l. as_selected c = sel @ [l])"
    using assms by (simp add: normalize_one_def Let_def s split: if_splits) auto
  moreover have "set sel = set (as_selected a)" using clean_selected_sound [OF s] by simp
  ultimately show ?thesis by auto
qed

text \<open>C35. Answers that are accepted are answers: every question of the form has one, every option
  chosen is an option of its question and is kept, chosen once, free text is given only where the
  question takes it and is never the name of an option, a question with one answer has one, and
  only an optional one has none.\<close>

theorem NormalizeAnswers_sound:
  assumes "Questions provider method raw = Inr qs" "NormalizeAnswers qs values = Inr out"
    "\<not> ElicitationDismissed qs values"
  shows "map fst out = map qu_key qs \<and>
    (\<forall>q\<in>set qs. \<exists>a c. map_of values (qu_key q) = Some a \<and> map_of out (qu_key q) = Some c \<and>
       answer_ok q c \<and> set (as_selected a) \<subseteq> set (as_selected c))"
proof -
  have d: "distinct (map qu_key qs)" using Questions_form [OF assms(1)] by (simp add: form_ok_def)
  show ?thesis
    using normalize_parts [OF assms(2,3) d] normalize_one_sound normalize_one_keeps by metis
qed

lemma normalize_from_id:
  assumes "\<forall>q\<in>set qs. \<exists>c. map_of values (qu_key q) = Some c \<and> answer_ok q c"
    "distinct (map fst out @ map qu_key qs)"
  shows "normalize_from i qs values out = Inr (out @ map (\<lambda>q. (qu_key q, the (map_of values (qu_key q)))) qs)"
  using assms
proof (induction qs arbitrary: i out)
  case (Cons q qs)
  obtain c where c: "map_of values (qu_key q) = Some c" "answer_ok q c" using Cons.prems(1) by auto
  have u: "AList.update (qu_key q) c out = out @ [(qu_key q, c)]" using Cons.prems(2) by (intro update_new) auto
  show ?case using Cons.IH [of "out @ [(qu_key q, c)]" "Suc i"] Cons.prems c by (simp add: u normalize_one_id)
qed simp

lemma alist_keys: "map fst m = map f qs \<Longrightarrow> distinct (map fst m) \<Longrightarrow> map (\<lambda>q. (f q, the (map_of m (f q)))) qs = m"
proof -
  assume a: "map fst m = map f qs" "distinct (map fst m)"
  have "map (\<lambda>k. (k, the (map_of m k))) (map fst m) = m"
    using a(2) by (auto simp: comp_def intro!: map_idI)
  then show ?thesis unfolding a(1) by (simp add: comp_def)
qed

text \<open>Normalising twice is normalising once: the client, the supervisor and the reading history
  all do it, and agree.\<close>

theorem NormalizeAnswers_idempotent:
  assumes "Questions provider method raw = Inr qs" "method \<noteq> CodexElicitation"
    "NormalizeAnswers qs values = Inr out"
  shows "NormalizeAnswers qs out = Inr out"
proof -
  have f: "form_ok qs" "\<forall>q\<in>set qs. \<not> qu_action q" using Questions_form [OF assms(1)] assms(2) by auto
  then have nd: "\<not> ElicitationDismissed qs v" for v by (auto simp: ElicitationDismissed_def split: list.splits)
  have d: "distinct (map qu_key qs)" using f by (simp add: form_ok_def)
  note p = normalize_parts [OF assms(3) nd d]
  have ok: "\<forall>q\<in>set qs. \<exists>c. map_of out (qu_key q) = Some c \<and> answer_ok q c"
    using p(2) normalize_one_sound by blast
  have "length out = length qs" using p(1) by (metis length_map)
  moreover have "map (\<lambda>q. (qu_key q, the (map_of out (qu_key q)))) qs = out"
    by (rule alist_keys [OF p(1)]) (simp add: p(1) d)
  ultimately show ?thesis
    using normalize_from_id [OF ok, of "[]" 0] d by (simp add: NormalizeAnswers_def nd)
qed

lemma fold_update_distinct:
  "distinct (map fst (out @ kvs)) \<Longrightarrow> foldl (\<lambda>m (k, v). AList.update k v m) out kvs = out @ kvs"
  by (induction kvs arbitrary: out) (auto simp: update_new)

lemma strict_selection_json [codec]: "strict_selection (selection_json a) = Some a"
  by (simp add: strict_selection_def selection_json_def dec_selection_def zero_selection_def dec_simps key_simps
      omit_def comp_def list_all_iff)

lemma decode_selections:
  "distinct (map fst (choices @ kvs)) \<Longrightarrow> [] \<notin> fst ` set kvs \<Longrightarrow>
   decode_entries (map (\<lambda>(k, a). (k, selection_json a)) kvs) legacy choices = Inr (legacy, choices @ kvs)"
proof (induction kvs arbitrary: choices)
  case (Cons kv kvs)
  obtain k a where kv: "kv = (k, a)" by (cases kv)
  obtain fs where j: "selection_json a = JObj fs" by (simp add: selection_json_def)
  have u: "AList.update k a choices = choices @ [(k, a)]" using Cons.prems(1) by (intro update_new) (auto simp: kv)
  show ?case
    using Cons.IH [of "choices @ [(k, a)]"] Cons.prems strict_selection_json [of a]
    by (auto simp: kv j u)
qed simp

lemma wf_selection_json: "wf_json (selection_json a)"
  by (simp add: selection_json_def omit_def list_all_iff)

lemma DecodeAnswers_selections:
  assumes "wf_map m" "[] \<notin> fst ` set m"
  shows "DecodeAnswers (print_json (map_json selection_json m)) = Inr ([], sort_key fst m)"
proof -
  let ?kvs = "map (\<lambda>(k, a). (k, selection_json a)) (sort_key fst m)"
  have keys: "map fst ?kvs = map fst (sort_key fst m)" by (simp add: comp_def case_prod_unfold)
  have d: "distinct (map fst (sort_key fst m))" using assms(1) by (simp add: wf_map_def)
  have "wf_json (JObj ?kvs)" by (auto simp: list_all_iff wf_selection_json)
  then have "parse_json (print_json (JObj ?kvs)) = Some (JObj ?kvs)" by (rule parse_print_json)
  moreover have "distinct (map fst ?kvs)" using d by (simp only: keys)
  then have "obj_fields (JObj ?kvs) = ?kvs"
    unfolding obj_fields.simps using fold_update_distinct [of "[]" ?kvs] by (simp only: append_Nil)
  moreover have "decode_entries ?kvs [] [] = Inr ([], sort_key fst m)"
    using decode_selections [of "[]" "sort_key fst m"] d assms(2) by simp
  moreover have "print_json (JObj ?kvs) \<noteq> []" by simp
  ultimately show ?thesis by (simp add: DecodeAnswers_def map_json_def del: print_json.simps obj_fields.simps)
qed

text \<open>C36. What a client encodes is what the supervisor decodes: the marks and the free text of a form,
  encoded and sent, arrive as the normal form of those answers, and never as plain strings.\<close>

theorem answers_roundtrip:
  assumes "Questions provider method raw = Inr qs" "EncodeQuestionAnswers qs marks other = Inr text"
  shows "\<exists>values choices. NormalizeAnswers qs (given_answers qs marks other) = Inr values \<and>
    DecodeAnswers text = Inr ([], choices) \<and> map_of choices = map_of values"
proof -
  have f: "form_ok qs" using Questions_form [OF assms(1)] by simp
  obtain vs where v: "NormalizeAnswers qs (given_answers qs marks other) = Inr vs"
    "text = print_json (map_json selection_json vs)"
    using assms(2) by (auto simp: EncodeQuestionAnswers_def bind_res_Inr_iff split: if_splits)
  have wf: "wf_map vs \<and> [] \<notin> fst ` set vs"
  proof (cases "ElicitationDismissed qs (given_answers qs marks other)")
    case True
    then show ?thesis using v(1) f by (cases qs) (auto simp: NormalizeAnswers_def form_ok_def wf_map_def)
  next
    case False
    have "map fst vs = map qu_key qs"
      using normalize_parts(1) [OF v(1) False] f by (simp add: form_ok_def)
    moreover from this have "fst ` set vs = qu_key ` set qs" by (metis list.set_map)
    ultimately show ?thesis using f by (simp add: form_ok_def wf_map_def)
  qed
  have "map_of (sort_key fst vs) = map_of vs"
    using wf map_of_inject_set [of "sort_key fst vs" vs] by (simp add: wf_map_def)
  then show ?thesis using v DecodeAnswers_selections wf by blast
qed

lemma reply_values:
  "distinct (map qu_key qs) \<Longrightarrow> q \<in> set qs \<Longrightarrow>
   map_of (foldl (\<lambda>m q. AList.update (qu_key q) (f q) m) [] qs) (qu_key q) = Some (f q)"
proof (induction qs rule: rev_induct)
  case (snoc x qs)
  have k: "qu_key x \<notin> qu_key ` set qs" "distinct (map qu_key qs)" using snoc.prems(1) by auto
  show ?case
  proof (cases "q = x")
    case False
    then have "q \<in> set qs" using snoc.prems(2) by simp
    moreover from this have "qu_key q \<noteq> qu_key x" using k(1) by (metis imageI)
    ultimately show ?thesis using snoc.IH [OF k(2)] by simp
  qed simp
qed simp

text \<open>Answers that differ only in what they give to secret questions, accepted or refused alike.\<close>

definition open_alike :: "question list \<Rightarrow> (string, string) gomap \<Rightarrow> answers \<Rightarrow> (string, string) gomap \<Rightarrow> answers \<Rightarrow> bool" where
  "open_alike qs ans selections ans' selections' \<longleftrightarrow>
     isl (NormalizeAnswers qs selections) = isl (NormalizeAnswers qs selections') \<and>
     (\<forall>q\<in>set qs. \<not> qu_secret q \<longrightarrow>
        map_of selections' (qu_key q) = map_of selections (qu_key q) \<and>
        map_of ans' (qu_key q) = map_of ans (qu_key q) \<and> map_of ans' (qu_text q) = map_of ans (qu_text q))"

lemma action_open: "Questions provider method raw = Inr (q # qs) \<Longrightarrow> qu_action q \<Longrightarrow> \<not> qu_secret q"
proof (cases "provider = ''codex'' \<and> method = CodexElicitation")
  case True
  assume "Questions provider method raw = Inr (q # qs)"
  then have "ElicitationQuestions raw = Inr (q # qs)"
    using True by (auto simp: Questions_def CodexElicitation_def CodexAsyncQuestion_def)
  then obtain p where "q = action_question p" using elicitation_form by blast
  then show ?thesis by (simp add: action_question_def zero_question_def)
next
  case False
  assume q: "Questions provider method raw = Inr (q # qs)" "qu_action q"
  show ?thesis
  proof (cases "provider = ''codex'' \<and> method = CodexAsyncQuestion")
    case True
    then have "method \<noteq> CodexElicitation" by (simp add: CodexElicitation_def CodexAsyncQuestion_def)
    then show ?thesis using Questions_form [OF q(1)] q(2) by simp
  next
    case async: False
    obtain ws where "wire_questions (provider = ''claude'') {} ws = Inr (q # qs)"
      using q(1) False async by (auto simp: Questions_def Let_def split: if_splits prod.splits)
    then show ?thesis using q(2) wire_keys by fastforce
  qed
qed

lemma dismissed_alike:
  assumes "Questions provider method raw = Inr qs" "open_alike qs ans values ans' values'"
  shows "ElicitationDismissed qs values' = ElicitationDismissed qs values"
proof (cases qs)
  case (Cons q rest)
  then show ?thesis
    using assms action_open [of _ _ _ q rest]
    by (auto simp: ElicitationDismissed_def open_alike_def get_or_def Let_def)
qed (simp add: ElicitationDismissed_def)

text \<open>What \<open>QuestionReply\<close> takes for the selections.\<close>

definition taken :: "question list \<Rightarrow> answers \<Rightarrow> answers" where
  "taken qs selections = (case NormalizeAnswers qs selections of Inl _ \<Rightarrow> selections | Inr s \<Rightarrow> s)"

lemma taken_alike:
  assumes "Questions provider method raw = Inr qs" "open_alike qs ans values ans' values'" "q \<in> set qs" "\<not> qu_secret q"
  shows "map_of (taken qs values') (qu_key q) = map_of (taken qs values) (qu_key q)"
proof -
  have same: "map_of values' (qu_key q) = map_of values (qu_key q)" using assms(2-4) by (simp add: open_alike_def)
  consider (refused) e e' where "NormalizeAnswers qs values = Inl e" "NormalizeAnswers qs values' = Inl e'"
    | (accepted) out out' where "NormalizeAnswers qs values = Inr out" "NormalizeAnswers qs values' = Inr out'"
    using assms(2) by (cases "NormalizeAnswers qs values"; cases "NormalizeAnswers qs values'") (auto simp: open_alike_def)
  then show ?thesis
  proof cases
    case accepted
    show ?thesis
    proof (cases "ElicitationDismissed qs values")
      case True
      obtain a rest where qs: "qs = a # rest" using assms(3) by (cases qs) auto
      have "\<not> qu_secret a" using True assms(1) action_open by (auto simp: ElicitationDismissed_def qs)
      then have "map_of values' (qu_key a) = map_of values (qu_key a)" using assms(2) by (simp add: open_alike_def qs)
      then have "NormalizeAnswers qs values' = NormalizeAnswers qs values"
        using True dismissed_alike [OF assms(1,2)] by (simp add: NormalizeAnswers_def qs get_or_def)
      then show ?thesis by (simp add: taken_def accepted(1))
    next
      case False
      have d: "distinct (map qu_key qs)" using Questions_form [OF assms(1)] by (simp add: form_ok_def)
      have False': "\<not> ElicitationDismissed qs values'" using False dismissed_alike [OF assms(1,2)] by simp
      from normalize_parts(2) [OF accepted(1) False d assms(3)] normalize_parts(2) [OF accepted(2) False' d assms(3)]
      show ?thesis using same by (auto simp: taken_def accepted)
    qed
  qed (simp add: taken_def same)
qed

text \<open>C37. The resolution of a question, the record from which the history shows what was answered, tells
  nothing about the answers to its secret questions: it holds the same marker for each, and two
  answers to the form that differ only there leave the same record.  The answers to the other
  questions are in it as they were accepted, and a form that was refused leaves no answer at all.  The
  record of the command itself is another one and holds every answer.\<close>

theorem QuestionReply_redacts:
  assumes "Questions provider (native_method method raw) raw = Inr qs"
  shows "\<exists>r. QuestionReply provider method raw state ans selections = Some r \<and>
    (state \<noteq> ''allowed'' \<longrightarrow> rs_answers r = []) \<and>
    (\<forall>q\<in>set qs. state = ''allowed'' \<and> qu_secret q \<longrightarrow>
       map_of (rs_answers r) (qu_key q) = Some \<lparr>as_selected = [], as_other = ''[redacted]''\<rparr>) \<and>
    (\<forall>q\<in>set qs. \<forall>out v. state = ''allowed'' \<and> \<not> qu_secret q \<and> NormalizeAnswers qs selections = Inr out \<and>
       map_of out (qu_key q) = Some v \<longrightarrow> map_of (rs_answers r) (qu_key q) = Some v) \<and>
    (\<forall>ans' selections'. open_alike qs ans selections ans' selections' \<longrightarrow>
       QuestionReply provider method raw state ans' selections' = Some r)"
proof (cases "state = ''allowed''")
  case True
  have d: "distinct (map qu_key qs)" using Questions_form [OF assms] by (simp add: form_ok_def)
  have r: "QuestionReply provider method raw state ans selections = Some \<lparr>rs_state = state,
      rs_answers = foldl (\<lambda>m q. AList.update (qu_key q) (reply_value (taken qs selections) ans q) m) [] qs\<rparr>" for ans selections
    unfolding QuestionReply_def assms sum.case Let_def taken_def [symmetric] using True by (simp only: if_False not_True_eq_False simp_thms)
  have "reply_value (taken qs selections') ans' q = reply_value (taken qs selections) ans q"
    if "open_alike qs ans selections ans' selections'" "q \<in> set qs" for ans' selections' q
  proof (cases "qu_secret q")
    case False
    have g: "get_or [] ans' (qu_key q) = get_or [] ans (qu_key q)" "get_or [] ans' (qu_text q) = get_or [] ans (qu_text q)"
      using that False by (simp_all add: open_alike_def get_or_def)
    show ?thesis unfolding reply_value_def taken_alike [OF assms that False] g ..
  qed (simp add: reply_value_def)
  then have same: "QuestionReply provider method raw state ans' selections' = QuestionReply provider method raw state ans selections"
    if "open_alike qs ans selections ans' selections'" for ans' selections'
    unfolding r using that by (intro arg_cong [where f = "\<lambda>m. Some \<lparr>rs_state = state, rs_answers = m\<rparr>"] foldl_cong) simp_all
  let ?m = "foldl (\<lambda>m q. AList.update (qu_key q) (reply_value (taken qs selections) ans q) m) [] qs"
  have held: "map_of ?m (qu_key q) = Some (reply_value (taken qs selections) ans q)" if "q \<in> set qs" for q
    by (rule reply_values [OF d that])
  have secret: "reply_value (taken qs selections) ans q = \<lparr>as_selected = [], as_other = ''[redacted]''\<rparr>" if "qu_secret q" for q
    using that by (simp add: reply_value_def zero_selection_def)
  have given: "reply_value (taken qs selections) ans q = v"
    if "\<not> qu_secret q" "NormalizeAnswers qs selections = Inr out" "map_of out (qu_key q) = Some v" for q out v
    using that by (simp add: reply_value_def taken_def)
  show ?thesis
  proof (intro exI [of _ "\<lparr>rs_state = state, rs_answers = ?m\<rparr>"] conjI)
    show "\<forall>q\<in>set qs. state = ''allowed'' \<and> qu_secret q \<longrightarrow>
        map_of (rs_answers \<lparr>rs_state = state, rs_answers = ?m\<rparr>) (qu_key q) = Some \<lparr>as_selected = [], as_other = ''[redacted]''\<rparr>"
      using held secret by simp
    show "\<forall>q\<in>set qs. \<forall>out v. state = ''allowed'' \<and> \<not> qu_secret q \<and> NormalizeAnswers qs selections = Inr out \<and>
        map_of out (qu_key q) = Some v \<longrightarrow> map_of (rs_answers \<lparr>rs_state = state, rs_answers = ?m\<rparr>) (qu_key q) = Some v"
      using held given by simp
  qed (use r same True in simp_all)
qed (simp add: QuestionReply_def assms)

lemma action_answer:
  assumes "NormalizeAnswers (action_question p # rest) values = Inr out" "form_ok (action_question p # rest)"
  shows "\<exists>l. as_selected (get_or zero_selection out elicitationActionKey) = [l] \<and> l \<in> {''Accept'', ''Decline'', ''Cancel''}"
proof (cases "ElicitationDismissed (action_question p # rest) values")
  case True
  then show ?thesis
    using assms(1) by (auto simp: NormalizeAnswers_def ElicitationDismissed_def Let_def get_or_def split: if_splits)
next
  case False
  have d: "distinct (map qu_key (action_question p # rest))" using assms(2) by (simp add: form_ok_def)
  obtain a c where c: "normalize_one 0 (action_question p) a = Inr c" "map_of out elicitationActionKey = Some c"
    using normalize_parts(2) [OF assms(1) False d, of "action_question p"] by auto
  have "answer_ok (action_question p) c" by (rule normalize_one_sound [OF c(1)])
  then have "as_selected c \<noteq> []" "\<not> 1 < length (as_selected c)" "set (as_selected c) \<subseteq> {''Accept'', ''Decline'', ''Cancel''}"
    by (auto simp: answer_ok_def Let_def split: if_splits)
  then show ?thesis using c(2) by (cases "as_selected c") (auto simp: get_or_def)
qed

lemma lower_actions [simp]:
  "map lower ''Accept'' = ''accept''" "map lower ''Decline'' = ''decline''" "map lower ''Cancel'' = ''cancel''"
  by code_simp+

definition response_ok :: "lib \<Rightarrow> json option \<Rightarrow> bool \<Rightarrow> string \<Rightarrow> json \<Rightarrow> bool" where
  "response_ok lib raw allow action content \<longleftrightarrow>
     action = ''decline'' \<and> content = JNull \<or> action = ''cancel'' \<and> allow \<and> content = JNull \<or>
     action = ''accept'' \<and> allow \<and>
       (el_mode (fst (elicitation_of raw)) = ''url'' \<and> content = JNull \<or>
        (\<exists>schema. el_schema (fst (elicitation_of raw)) = Some schema \<and> lb_schema lib schema content))"

lemma response_cases:
  assumes "ElicitationResponse lib raw True values ans = Inr r" "ElicitationQuestions raw = Inr qs"
    "NormalizeAnswers qs (if values = [] then form_values qs ans else values) = Inr out"
    "as_selected (get_or zero_selection out elicitationActionKey) = [l]" "l \<in> {''Accept'', ''Decline'', ''Cancel''}"
  shows "\<exists>content. r = elicitation_result (map lower l) content \<and> response_ok lib raw True (map lower l) content"
proof -
  let ?p = "fst (elicitation_of raw)"
  let ?form = "form_content lib (child (object (el_schema ?p)) ''properties'') (tl qs) out []"
  have r: "(if map lower l \<noteq> ''accept'' then Inr (elicitation_result (map lower l) JNull)
     else if el_mode ?p = ''url'' then Inr (elicitation_result (map lower l) JNull)
     else bind_res ?form (\<lambda>m. case el_schema ?p of None \<Rightarrow> Inl Schema_rejects
            | Some schema \<Rightarrow> if lb_schema lib schema (map_json (\<lambda>v. v) m)
                then Inr (elicitation_result (map lower l) (map_json (\<lambda>v. v) m)) else Inl Schema_rejects)) = Inr r"
    using assms(1-4) by (simp add: ElicitationResponse_def Let_def cong: if_cong option.case_cong)
  show ?thesis
  proof (cases "map lower l = ''accept''")
    case True
    show ?thesis
    proof (cases "el_mode ?p = ''url''")
      case False
      obtain m where "(case el_schema ?p of None \<Rightarrow> Inl Schema_rejects
            | Some schema \<Rightarrow> if lb_schema lib schema (map_json (\<lambda>v. v) m)
                then Inr (elicitation_result (map lower l) (map_json (\<lambda>v. v) m)) else Inl Schema_rejects) = Inr r"
        using r True False by (auto simp only: if_False simp_thms bind_res_Inr_iff)
      then obtain schema where "el_schema ?p = Some schema" "lb_schema lib schema (map_json (\<lambda>v. v) m)"
        "r = elicitation_result (map lower l) (map_json (\<lambda>v. v) m)"
        by (cases "el_schema ?p") (simp_all split: if_splits)
      then show ?thesis using True by (auto simp: response_ok_def)
    qed (use r True in \<open>auto simp: response_ok_def\<close>)
  next
    case False
    have "map lower l = ''decline'' \<or> map lower l = ''cancel''"
      using assms(5) False lower_actions by (metis insertE singletonD)
    then show ?thesis using r False by (auto simp: response_ok_def)
  qed
qed

text \<open>C38. An MCP form never sends a partial or an invalid answer: the reply declines or cancels without
  any content, or accepts; and it accepts with content only when the schema of the request accepts
  that content, and without any only for a URL to visit.\<close>

theorem ElicitationResponse_safe:
  assumes "ElicitationResponse lib raw allow values ans = Inr r"
  shows "\<exists>action content. r = elicitation_result action content \<and> response_ok lib raw allow action content"
proof (cases allow)
  case True
  obtain qs out where q: "ElicitationQuestions raw = Inr qs"
    "NormalizeAnswers qs (if values = [] then form_values qs ans else values) = Inr out"
    using assms True by (auto simp: ElicitationResponse_def bind_res_Inr_iff)
  obtain p rest where p: "qs = action_question p # rest" "form_ok qs" using elicitation_form [OF q(1)] by blast
  obtain l where l: "as_selected (get_or zero_selection out elicitationActionKey) = [l]" "l \<in> {''Accept'', ''Decline'', ''Cancel''}"
    using action_answer [of p rest] q(2) p by blast
  have "ElicitationResponse lib raw True values ans = Inr r" using assms True by simp
  from response_cases [OF this q l] show ?thesis unfolding eqTrueI [OF True] by blast
qed (use assms in \<open>auto simp: ElicitationResponse_def response_ok_def\<close>)

text \<open>Full mode answers a request by itself only when there is nothing to fill in: never a question,
  and of the MCP forms only one without any field, which it accepts with content the schema accepts.\<close>

theorem AutomaticApproval_no_content:
  assumes "AutomaticApproval lib name raw"
  shows "name \<noteq> ''AskUserQuestion'' \<and> name \<noteq> ''item/tool/requestUserInput'' \<and> name \<noteq> CodexAsyncQuestion \<and>
    (name = CodexElicitation \<longrightarrow>
       (\<exists>p schema content. readElicitation raw = Inr p \<and> el_mode p = ''form'' \<and>
          ElicitationQuestions raw = Inr [action_question p] \<and> el_schema p = Some schema \<and> lb_schema lib schema content \<and>
          ElicitationResponse lib raw True (ElicitationSelection ''Accept'') [] = Inr (elicitation_result ''accept'' content)))"
proof (cases "name = CodexElicitation")
  case True
  obtain p where p: "readElicitation raw = Inr p" "el_mode p = ''form''" "ElicitationButtons lib raw"
    using assms True by (auto simp: AutomaticApproval_def split: sum.splits)
  obtain qs where q: "ElicitationQuestions raw = Inr qs" "length qs = 1"
    and ok: "is_ok (ElicitationResponse lib raw True (ElicitationSelection ''Accept'') [])"
    using p by (auto simp: ElicitationButtons_def split: sum.splits)
  have qs: "qs = [action_question p]" using elicitation_form [OF q(1)] q(2) p(1) by (auto simp: length_Suc_conv)
  obtain r where r: "ElicitationResponse lib raw True (ElicitationSelection ''Accept'') [] = Inr r"
    using ok by (cases "ElicitationResponse lib raw True (ElicitationSelection ''Accept'') []") auto
  have ep: "elicitation_of raw = (p, True)" using p(1) by (auto simp: readElicitation_def split: prod.splits if_splits)
  have n: "normalize_one 0 (action_question p) (zero_selection\<lparr>as_selected := [''Accept'']\<rparr>) =
      Inr (zero_selection\<lparr>as_selected := [''Accept'']\<rparr>)"
    by (rule normalize_one_id) (simp add: answer_ok_def zero_selection_def)
  have "NormalizeAnswers qs (ElicitationSelection ''Accept'') = Inr (ElicitationSelection ''Accept'')"
    by (simp add: NormalizeAnswers_def qs ElicitationDismissed_def ElicitationSelection_def get_or_def zero_selection_def
        n [unfolded zero_selection_def, simplified])
  moreover have accepted: "get_or zero_selection [(elicitationActionKey, zero_selection\<lparr>as_selected := [''Accept'']\<rparr>)]
      elicitationActionKey = \<lparr>as_selected = [''Accept''], as_other = []\<rparr>"
    by (simp add: get_or_def zero_selection_def)
  ultimately have "\<exists>content. r = elicitation_result (map lower ''Accept'') content \<and> response_ok lib raw True (map lower ''Accept'') content"
    by (intro response_cases [OF r q(1), where out = "ElicitationSelection ''Accept''"])
      (simp_all add: ElicitationSelection_def accepted del: lower_actions)
  then have "\<exists>schema content. el_schema p = Some schema \<and> lb_schema lib schema content \<and> r = elicitation_result ''accept'' content"
    using p(2) by (auto simp: response_ok_def ep)
  then show ?thesis using True p q qs r by (auto simp: CodexElicitation_def CodexAsyncQuestion_def)
next
  case False
  then show ?thesis using assms by (simp add: AutomaticApproval_def core_AutomaticApproval_def Question_def)
qed

section \<open>Concrete instances\<close>

lemma char_eval [simp]: "char_of (97::nat) = CHR ''a''" "char_of (99::nat) = CHR ''c''" "char_of (100::nat) = CHR ''d''"
  by code_simp+

definition sample_form :: json where
  "sample_form = JObj [(''input'', JObj [(''questions'', JArr [JObj [(''question'', JStr ''Color?''),
     (''options'', JArr [JObj [(''label'', JStr ''Red'')], JObj [(''label'', JStr ''Blue'')]])]])])]"

definition sample_question :: question where
  "sample_question = zero_question\<lparr>qu_key := ''Color?'', qu_text := ''Color?'', qu_other := True,
     qu_options := [zero_option\<lparr>qo_label := ''Red''\<rparr>, zero_option\<lparr>qo_label := ''Blue''\<rparr>]\<rparr>"

definition sample_secret :: json where
  "sample_secret = JObj [(''params'', JObj [(''questions'', JArr [JObj [(''id'', JStr ''k''), (''question'', JStr ''Key?''),
     (''isSecret'', JBool True)]])])]"

definition sample_mcp :: json where
  "sample_mcp = JObj [(''params'', JObj [(''serverName'', JStr ''m''), (''mode'', JStr ''form''), (''message'', JStr ''ok?''),
     (''requestedSchema'', JObj [(''type'', JStr ''object'')])])]"

definition sample_lib :: lib where
  "sample_lib = \<lparr>lb_float = (\<lambda>_. None), lb_schema = (\<lambda>_ _. True)\<rparr>"

lemmas question_eval = Questions_def object_def child_def field_text_def unmarshal_payload_def dec_wire_def dec_option_def
  dec_field_def key_simps zero_wire_def zero_option_def zero_question_def labels_ok_def TrimSpace_plain plain_char_def
  CodexAsyncQuestion_def CodexElicitation_def labels_def Let_def

lemmas answer_eval = NormalizeAnswers_def ElicitationDismissed_def normalize_one_def sample_question_def zero_question_def
  zero_option_def labels_def TrimSpace_plain plain_char_def get_or_def

lemma sample_form_questions: "Questions ''claude'' ''AskUserQuestion'' (Some sample_form) = Inr [sample_question]"
  by (simp add: sample_form_def sample_question_def question_eval)

theorem NormalizeAnswers_sound_witness:
  "\<exists>c. answer_ok sample_question c \<and> as_selected c = [''Red'']"
proof -
  have n: "NormalizeAnswers [sample_question] [(''Color?'', \<lparr>as_selected = [''Red'', ''Red''], as_other = ''Red''\<rparr>)] =
      Inr [(''Color?'', \<lparr>as_selected = [''Red''], as_other = []\<rparr>)]"
    "\<not> ElicitationDismissed [sample_question] [(''Color?'', \<lparr>as_selected = [''Red'', ''Red''], as_other = ''Red''\<rparr>)]"
    by (simp_all add: answer_eval)
  show ?thesis
    using NormalizeAnswers_sound [OF sample_form_questions n] by (intro exI [of _ "\<lparr>as_selected = [''Red''], as_other = []\<rparr>"]) auto
qed

theorem NormalizeAnswers_idempotent_witness:
  "NormalizeAnswers [sample_question] [(''Color?'', \<lparr>as_selected = [], as_other = ''Green''\<rparr>)] =
     Inr [(''Color?'', \<lparr>as_selected = [], as_other = ''Green''\<rparr>)]"
proof (rule NormalizeAnswers_idempotent [OF sample_form_questions])
  show "NormalizeAnswers [sample_question] [(''Color?'', \<lparr>as_selected = [], as_other = ''Green''\<rparr>)] =
     Inr [(''Color?'', \<lparr>as_selected = [], as_other = ''Green''\<rparr>)]"
    by (simp add: answer_eval)
qed (simp add: CodexElicitation_def)

theorem answers_roundtrip_witness:
  "\<exists>text choices. EncodeQuestionAnswers [sample_question] [[False, True]] [[]] = Inr text \<and>
     DecodeAnswers text = Inr ([], choices) \<and> map_of choices ''Color?'' = Some \<lparr>as_selected = [''Blue''], as_other = []\<rparr>"
proof -
  have n: "NormalizeAnswers [sample_question] (given_answers [sample_question] [[False, True]] [[]]) =
      Inr [(''Color?'', \<lparr>as_selected = [''Blue''], as_other = []\<rparr>)]"
    by (simp add: answer_eval given_answers_def chosen_def)
  then obtain enc where t: "EncodeQuestionAnswers [sample_question] [[False, True]] [[]] = Inr enc"
    by (simp add: EncodeQuestionAnswers_def)
  obtain choices where "DecodeAnswers enc = Inr ([], choices)"
    "map_of choices = map_of [(''Color?'', \<lparr>as_selected = [''Blue''], as_other = []\<rparr>)]"
    using answers_roundtrip [OF sample_form_questions t] n by auto
  then show ?thesis using t by (intro exI [of _ enc] exI [of _ choices]) simp
qed

lemmas elicitation_eval = ElicitationQuestions_def readElicitation_def elicitation_of_def dec_elicitation_def dec_schema_def
  sample_mcp_def sample_lib_def zero_elicitation_def ElicitationSelection_def action_question_def zero_selection_def
  elicitationActionKey_def NormalizeAnswers_def ElicitationDismissed_def normalize_one_def labels_def TrimSpace_plain
  plain_char_def get_or_def zero_question_def zero_option_def unmarshal_payload_def dec_field_def key_simps child_def
  object_def Let_def

theorem QuestionReply_redacts_witness:
  "\<exists>r. QuestionReply ''codex'' ''item/tool/requestUserInput'' (Some sample_secret) ''allowed'' [(''k'', ''hunter2'')] [] = Some r \<and>
     map_of (rs_answers r) ''k'' = Some \<lparr>as_selected = [], as_other = ''[redacted]''\<rparr> \<and>
     QuestionReply ''codex'' ''item/tool/requestUserInput'' (Some sample_secret) ''allowed'' [(''k'', ''swordfish'')] [] = Some r"
proof -
  obtain q where q: "Questions ''codex'' (native_method ''item/tool/requestUserInput'' (Some sample_secret)) (Some sample_secret) = Inr [q]"
    "qu_key q = ''k''" "qu_secret q"
  proof
    show "Questions ''codex'' (native_method ''item/tool/requestUserInput'' (Some sample_secret)) (Some sample_secret) =
        Inr [zero_question\<lparr>qu_key := ''k'', qu_text := ''Key?'', qu_other := True, qu_secret := True\<rparr>]"
      by (simp add: native_method_def sample_secret_def question_eval)
  qed (simp_all add: zero_question_def)
  show ?thesis
    using QuestionReply_redacts [OF q(1), of "''allowed''" "[(''k'', ''hunter2'')]" "[]"] q(2,3) by (auto simp: open_alike_def)
qed

theorem ElicitationResponse_safe_witness:
  "\<exists>r. ElicitationResponse sample_lib (Some sample_mcp) True (ElicitationSelection ''Cancel'') [] = Inr r \<and>
     r = elicitation_result ''cancel'' JNull"
proof -
  have r: "ElicitationResponse sample_lib (Some sample_mcp) True (ElicitationSelection ''Cancel'') [] =
      Inr (elicitation_result ''cancel'' JNull)"
    by (simp add: ElicitationResponse_def elicitation_eval)
  obtain action content where "elicitation_result ''cancel'' JNull = elicitation_result action content"
    "response_ok sample_lib (Some sample_mcp) True action content"
    using ElicitationResponse_safe [OF r] by blast
  then show ?thesis using r by blast
qed

theorem AutomaticApproval_no_content_witness:
  "\<exists>content. ElicitationResponse sample_lib (Some sample_mcp) True (ElicitationSelection ''Accept'') [] =
     Inr (elicitation_result ''accept'' content)"
proof -
  have "AutomaticApproval sample_lib CodexElicitation (Some sample_mcp)"
    by (simp add: AutomaticApproval_def ElicitationButtons_def ElicitationResponse_def elicitation_eval)
  from AutomaticApproval_no_content [OF this] show ?thesis by blast
qed

end
