(* ===== verification/Models.thy ===== *)
theory Models
  imports Answers
begin

text \<open>
  \<^verbatim>\<open>internal/agentview/models.go\<close>: the model catalog a provider reports, and which of its entries
  is the one in use.
\<close>

record model_option =
  mo_id :: string
  mo_resolved :: string
  mo_name :: string
  mo_efforts :: "string list"
  mo_default_effort :: string
  mo_default :: bool

definition zero_model :: model_option where
  "zero_model = \<lparr>mo_id = [], mo_resolved = [], mo_name = [], mo_efforts = [], mo_default_effort = [], mo_default = False\<rparr>"

definition model_json :: "model_option \<Rightarrow> json" where
  "model_json m = JObj ([(''id'', JStr (mo_id m))] @ omit (mo_resolved m = []) ''resolved_id'' (JStr (mo_resolved m)) @
     [(''name'', JStr (mo_name m))] @ omit (mo_efforts m = []) ''efforts'' (JArr (map JStr (mo_efforts m))) @
     omit (mo_default_effort m = []) ''default_effort'' (JStr (mo_default_effort m)) @
     omit (\<not> mo_default m) ''default'' (JBool True))"

record model_row =
  mr_id :: string
  mr_model :: string
  mr_value :: string
  mr_name :: string
  mr_resolved :: string
  mr_hidden :: bool
  mr_disabled :: bool
  mr_default :: bool
  mr_levels :: "string list"
  mr_efforts :: "string list"
  mr_default_effort :: string

definition zero_row :: model_row where
  "zero_row = \<lparr>mr_id = [], mr_model = [], mr_value = [], mr_name = [], mr_resolved = [], mr_hidden = False,
     mr_disabled = False, mr_default = False, mr_levels = [], mr_efforts = [], mr_default_effort = []\<rparr>"

definition dec_effort :: "string dec" where
  "dec_effort = dec_struct (\<lambda>kvs v. dec_field ''reasoningEffort'' dec_string kvs v)"

definition dec_row :: "model_row dec" where
  "dec_row = dec_struct (\<lambda>kvs v.
     let (a, oka) = dec_field ''id'' dec_string kvs (mr_id v);
         (b, okb) = dec_field ''model'' dec_string kvs (mr_model v);
         (c, okc) = dec_field ''value'' dec_string kvs (mr_value v);
         (d, okd) = dec_field ''displayName'' dec_string kvs (mr_name v);
         (e, oke) = dec_field ''resolvedModel'' dec_string kvs (mr_resolved v);
         (f, okf) = dec_field ''hidden'' dec_bool kvs (mr_hidden v);
         (g, okg) = dec_field ''disabled'' dec_bool kvs (mr_disabled v);
         (h, okh) = dec_field ''isDefault'' dec_bool kvs (mr_default v);
         (i, oki) = dec_field ''supportedEffortLevels'' (dec_list [] dec_string) kvs (mr_levels v);
         (j, okj) = dec_field ''supportedReasoningEfforts'' (dec_list [] dec_effort) kvs (mr_efforts v);
         (k, okk) = dec_field ''defaultReasoningEffort'' dec_string kvs (mr_default_effort v)
     in (\<lparr>mr_id = a, mr_model = b, mr_value = c, mr_name = d, mr_resolved = e, mr_hidden = f, mr_disabled = g,
          mr_default = h, mr_levels = i, mr_efforts = j, mr_default_effort = k\<rparr>,
         oka \<and> okb \<and> okc \<and> okd \<and> oke \<and> okf \<and> okg \<and> okh \<and> oki \<and> okj \<and> okk))"

definition model_of_row :: "string \<Rightarrow> json \<Rightarrow> model_option option" where
  "model_of_row provider j =
     (case dec_row j zero_row of (v, ok) \<Rightarrow>
        if \<not> ok \<or> mr_hidden v \<or> mr_disabled v then None
        else
          let id = (if provider = ''codex'' then (if mr_model v = [] then mr_id v else mr_model v) else mr_value v)
          in if id = [] then None
             else Some \<lparr>mo_id = id, mo_resolved = mr_resolved v, mo_name = mr_name v,
                    mo_efforts = mr_levels v @ mr_efforts v, mo_default_effort = mr_default_effort v,
                    mo_default = (mr_default v \<or> provider = ''claude'' \<and> id = ''default'')\<rparr>)"

fun dec_raw_doc :: "json dec" where
  "dec_raw_doc j d = (j, True)"

definition Models :: "string \<Rightarrow> json option \<Rightarrow> model_option list" where
  "Models provider raw =
     (case unmarshal_payload (dec_struct (\<lambda>kvs v.
         let (a, oka) = dec_field ''models'' (dec_list JNull dec_raw_doc) kvs (fst v);
             (b, okb) = dec_field ''data'' (dec_list JNull dec_raw_doc) kvs (snd v)
         in ((a, b), oka \<and> okb))) raw ([], []) of
        ((models, data), ok) \<Rightarrow>
          if \<not> ok then [] else List.map_filter (model_of_row provider) (if provider = ''codex'' then data else models))"

definition SelectedModel :: "model_option list \<Rightarrow> string \<Rightarrow> string \<Rightarrow> model_option option" where
  "SelectedModel options selected applied =
     (case find (\<lambda>o'. mo_id o' = selected \<and> (applied = [] \<or> mo_id o' = applied \<or> mo_resolved o' = applied)) options of
        Some o' \<Rightarrow> Some o'
      | None \<Rightarrow>
          let target = (if applied = [] then selected else applied)
          in if target \<noteq> [] \<and> target \<noteq> ''default'' then
               (case find (\<lambda>o'. mo_id o' = target \<or> mo_resolved o' = target) options of
                  Some o' \<Rightarrow> Some o'
                | None \<Rightarrow> find (\<lambda>o'. mo_id o' = selected \<and> mo_resolved o' = []) options)
             else find (\<lambda>o'. mo_default o' \<or> mo_id o' = ''default'') options)"

lemma model_of_row_id: "model_of_row p j = Some m \<Longrightarrow> mo_id m \<noteq> []"
  by (auto simp: model_of_row_def Let_def split: prod.splits if_splits)

lemma Models_ids: "m \<in> set (Models p raw) \<Longrightarrow> mo_id m \<noteq> []"
  by (auto simp: Models_def map_filter_def model_of_row_id split: prod.splits if_splits)

lemma find_member: "find P xs = Some x \<Longrightarrow> x \<in> set xs \<and> P x"
  by (auto simp: find_Some_iff)

text \<open>The model taken to be in use is one the provider listed, and when the provider said which one
  it applied it is that one, by its id or its alias, unless the catalog does not resolve the alias the
  user selected or the provider applied its default.\<close>

theorem SelectedModel_listed:
  assumes "SelectedModel options selected applied = Some m"
  shows "m \<in> set options \<and>
    (applied \<noteq> [] \<and> applied \<noteq> ''default'' \<longrightarrow>
       mo_id m = applied \<or> mo_resolved m = applied \<or>
       mo_id m = selected \<and> mo_resolved m = [] \<and> (\<forall>o'\<in>set options. mo_id o' \<noteq> applied \<and> mo_resolved o' \<noteq> applied))"
  using assms
  by (auto simp: SelectedModel_def Let_def find_None_iff dest!: find_member split: option.splits if_splits)

definition sample_catalog :: json where
  "sample_catalog = JObj [(''models'', JArr [JObj [(''value'', JStr ''default'')],
     JObj [(''value'', JStr ''opus''), (''resolvedModel'', JStr ''opus-4'')], JObj [(''value'', JStr ''x''), (''hidden'', JBool True)]])]"

theorem SelectedModel_listed_witness:
  "\<exists>m. SelectedModel (Models ''claude'' (Some sample_catalog)) ''default'' ''opus-4'' = Some m \<and> mo_resolved m = ''opus-4''"
proof -
  have ms: "Models ''claude'' (Some sample_catalog) =
      [zero_model\<lparr>mo_id := ''default'', mo_default := True\<rparr>, zero_model\<lparr>mo_id := ''opus'', mo_resolved := ''opus-4''\<rparr>]"
    by (simp add: Models_def sample_catalog_def unmarshal_payload_def dec_field_def key_simps map_filter_def
        model_of_row_def dec_row_def zero_row_def zero_model_def)
  have s: "SelectedModel (Models ''claude'' (Some sample_catalog)) ''default'' ''opus-4'' =
      Some (zero_model\<lparr>mo_id := ''opus'', mo_resolved := ''opus-4''\<rparr>)"
    by (simp add: ms SelectedModel_def zero_model_def)
  have "mo_resolved (zero_model\<lparr>mo_id := ''opus'', mo_resolved := ''opus-4''\<rparr>) = ''opus-4''"
    using SelectedModel_listed [OF s] by (simp add: zero_model_def)
  then show ?thesis using s by blast
qed

end
