(* ===== verification/Event_Log.thy ===== *)
theory Event_Log
  imports History
begin

text \<open>
  What the supervisor relies on from the log that keeps its events, whichever file is underneath:
  the events it holds, appending a batch, replacing a prefix by a checkpoint, and shedding.  The
  laws say what each does to the events when it succeeds; the lemmas say what that means for the
  state replayed from them.  The journal provides it here, the session store in its own theory.
\<close>

locale event_log =
  fixes evs :: "'l \<Rightarrow> event list"
    and inv :: "'l \<Rightarrow> bool"
    and app :: "'l \<Rightarrow> event list \<Rightarrow> (event list \<times> 'l) option"
    and cmp :: "'l \<Rightarrow> event \<Rightarrow> 'l option"
    and shd :: "'l \<Rightarrow> nat \<Rightarrow> 'l option"
  assumes inv_shape: "inv l \<Longrightarrow> log_shape (evs l) \<and> list_all ok_event (evs l)"
    and app_law: "inv l \<Longrightarrow> no_checkpoint es \<Longrightarrow> app l es = Some (b, l') \<Longrightarrow> list_all ok_event b \<Longrightarrow>
      inv l' \<and> evs l' = evs l @ b \<and> contiguous (lastSeq (evs l)) b"
    and cmp_law: "inv l \<Longrightarrow> ok_event cp \<Longrightarrow> valid_checkpoint cp \<Longrightarrow> ev_raw cp = [] \<Longrightarrow> cmp l cp = Some l' \<Longrightarrow>
      inv l' \<and> evs l' = compact_events cp (evs l)"
    and shd_law: "inv l \<Longrightarrow> shd l k = Some l' \<Longrightarrow> inv l' \<and> evs l' = map (shed_event k) (evs l)"
begin

text \<open>One upkeep of the log: a compaction at a checkpoint of a prefix, or a shedding.\<close>

inductive upkeep :: "'l \<Rightarrow> 'l \<Rightarrow> bool" where
  compacted: "evs l = pre @ post \<Longrightarrow> makeHistoryCheckpoint pre = Inr cp \<Longrightarrow> cmp l cp = Some l' \<Longrightarrow> upkeep l l'"
| shedded: "shd l k = Some l' \<Longrightarrow> upkeep l l'"

definition good :: "'l \<Rightarrow> bool" where
  "good l \<longleftrightarrow> inv l \<and> log_ok (evs l)"

lemma app_state:
  assumes "good l" "no_checkpoint es" "app l es = Some (b, l')" "list_all ok_event b"
  shows "good l'" "Replay (evs l') = ReplayFrom (Replay (evs l)) b"
proof -
  have l': "inv l'" "evs l' = evs l @ b" "contiguous (lastSeq (evs l)) b"
    using app_law assms by (auto simp: good_def)
  have ok: "log_ok (evs l @ b)"
  proof (cases "evs l")
    case Nil
    then have "contiguous 0 b" using l'(3) by (simp add: lastSeq_def)
    then show ?thesis using Nil by (cases b) (auto simp: log_ok_def log_shape_def)
  next
    case (Cons e r)
    then show ?thesis
      using assms(1) log_shape_append [OF _ l'(3)] by (simp add: good_def log_ok_def)
  qed
  then show "good l'" using l' by (simp add: good_def)
  show "Replay (evs l') = ReplayFrom (Replay (evs l)) b"
  proof (cases "evs l = []")
    case True
    have "replay_close (fresh_snapshot, []) = fresh_snapshot"
      by (simp add: replay_close_def fresh_snapshot_def zero_snapshot_def)
    then show ?thesis using True by (simp add: l'(2) Replay_fresh) (simp add: ReplayFrom_def)
  qed (use Replay_prefix [OF ok] l'(2) in simp)
qed

lemma upkeep_state: "upkeep l l' \<Longrightarrow> good l \<Longrightarrow> good l' \<and> Replay (evs l') = Replay (evs l) \<and> lastSeq (evs l') = lastSeq (evs l)"
proof (induction rule: upkeep.induct)
  case (compacted l pre post cp l')
  have ok: "log_ok (pre @ post)" "list_all ok_event pre"
    using compacted.prems inv_shape [of l] by (auto simp: good_def compacted.hyps(1))
  obtain latest where c: "pre \<noteq> []" "ok_event cp" "valid_checkpoint cp" "ev_seq cp = lastSeq pre"
    using makeHistoryCheckpoint_parts [OF compacted.hyps(2) log_ok_prefix [OF ok(1)] ok(2)] by metis
  have "ev_raw cp = []"
    using compacted.hyps(2) by (auto simp: makeHistoryCheckpoint_def Let_def bind_res_Inr_iff zero_event_def split: if_splits)
  then have l': "inv l'" "evs l' = cp # post"
    using cmp_law [OF _ c(2,3) _ compacted.hyps(3)] compacted.prems compact_prefix [OF ok(1) c(1,4)]
    by (auto simp: good_def compacted.hyps(1))
  have "lastSeq (cp # post) = lastSeq (pre @ post)"
    using c(1,4) by (simp add: lastSeq_def)
  then show ?case
    using checkpoint_replays [OF ok(1) compacted.hyps(2) ok(2)] l' by (simp add: good_def compacted.hyps(1))
next
  case (shedded l k l')
  then have l': "inv l'" "evs l' = map (shed_event k) (evs l)" using shd_law by (auto simp: good_def)
  have "Replay (evs l') = Replay (evs l)" by (simp add: Replay_def l'(2) ReplayFrom_def foldl_map replay_step_shed)
  moreover have "log_ok (evs l')"
  proof (cases "evs l")
    case (Cons e r)
    then show ?thesis
      using shedded.prems shed_shape [of k "evs l"] by (simp add: good_def log_ok_def l'(2) checkpoint_snapshot_def)
  qed (simp add: l'(2) log_ok_def log_shape_def)
  moreover have "lastSeq (evs l') = lastSeq (evs l)" unfolding l'(2) lastSeq_def shed_seqs ..
  ultimately show ?case using l'(1) by (simp add: good_def)
qed

text \<open>However often the log is compacted and shed, the state it replays to is the same.\<close>

lemma upkeep_star:
  "upkeep\<^sup>*\<^sup>* l l' \<Longrightarrow> good l \<Longrightarrow> good l' \<and> Replay (evs l') = Replay (evs l) \<and> lastSeq (evs l') = lastSeq (evs l)"
  by (induction rule: rtranclp_induct) (auto dest: upkeep_state)

end

section \<open>The journal\<close>

definition journal_app :: "io_env \<Rightarrow> log \<Rightarrow> event list \<Rightarrow> (event list \<times> log) option" where
  "journal_app io l es = (case AppendBatch io l es of (Inl _, _) \<Rightarrow> None | (Inr b, l') \<Rightarrow> Some (b, l'))"

definition journal_cmp :: "io_env \<Rightarrow> log \<Rightarrow> event \<Rightarrow> log option" where
  "journal_cmp io l cp = (case Compact io l cp of (None, l') \<Rightarrow> Some l' | (Some _, _) \<Rightarrow> None)"

definition journal_shd :: "io_env \<Rightarrow> log \<Rightarrow> nat \<Rightarrow> log option" where
  "journal_shd io l k = (case Shed io l k of (_, None, l') \<Rightarrow> Some l' | (_, Some _, _) \<Rightarrow> None)"

lemma AppendBatch_law:
  assumes "journal_inv l" "no_checkpoint es" "AppendBatch io l es = (Inr b, l')" "list_all ok_event b"
  shows "journal_inv l' \<and> lg_events l' = lg_events l @ b \<and> contiguous (lastSeq (lg_events l)) b \<and>
    b = number_batch (io_now io) (lastSeq (lg_events l)) es"
proof -
  have b: "es \<noteq> []" "b = number_batch (io_now io) (lastSeq (lg_events l)) es"
    "l' = l\<lparr>lg_file := lg_file l @ batch_line b, lg_events := lg_events l @ b\<rparr>"
    using assms(3) by (auto simp: AppendBatch_def Let_def split: if_splits)
  obtain ls where ls: "committed l ls" using assms(1) by (auto simp: journal_inv_def)
  have c: "contiguous (lastSeq (lg_events l)) b" using assms(2) by (simp add: b(2) number_batch_contiguous)
  then have "line_ok (lastSeq (lg_events l)) (Batch b)" using assms(4) b(1,2) by simp
  from committed_append [OF ls this] have "journal_inv l'" by (auto simp: b(3) journal_inv_def)
  then show ?thesis using c by (simp add: b(3)) (simp add: b(2))
qed

lemma Compact_law:
  assumes "journal_inv l" "ok_event cp" "Compact io l cp = (None, l')"
  shows "journal_inv l' \<and> lg_events l' = compact_events cp (lg_events l)"
proof -
  note v = Compact_valid [OF assms(3) _ assms(2), simplified]
  have sh: "log_shape (lg_events l)" "list_all ok_event (lg_events l)"
    using journal_inv_shape assms(1) by blast+
  have "log_shape (compact_events cp (lg_events l))"
    using compact_suffix_contiguous [OF sh(1) v(3-5)] v(1,2) by (simp add: log_shape_def compact_events_def)
  moreover have "list_all ok_event (compact_events cp (lg_events l))"
    using sh(2) assms(2) by (auto simp: compact_events_def list_all_iff)
  ultimately show ?thesis
    using rewrite_committed [OF v(6)] by (auto simp: journal_inv_def)
qed

lemma Shed_law:
  assumes "journal_inv l" "Shed io l k = (n, None, l')"
  shows "journal_inv l' \<and> lg_events l' = map (shed_event k) (lg_events l)"
proof (cases "shed_freed k (lg_events l) = 0")
  case True
  then have "shed_event k e = e" if "e \<in> set (lg_events l)" for e
    using that by (auto simp: shed_freed_def shed_event_def)
  then have "map (shed_event k) (lg_events l) = lg_events l" by (intro map_idI)
  then show ?thesis using assms True by (simp add: Shed_def)
next
  case False
  then have "rewrite io l (map (shed_event k) (lg_events l)) = (None, l')"
    using assms(2) by (auto simp: Shed_def Let_def split: prod.splits option.splits journal_error.splits)
  then have "committed l' (map Single (map (shed_event k) (lg_events l))) \<and> lg_events l' = map (shed_event k) (lg_events l)"
    by (rule rewrite_committed) (use journal_inv_shape [OF assms(1)] shed_shape shed_ok in simp_all)
  then show ?thesis by (auto simp: journal_inv_def)
qed

interpretation jlog: event_log lg_events journal_inv "journal_app io" "journal_cmp io" "journal_shd io" for io
proof
  show "log_shape (lg_events l) \<and> list_all ok_event (lg_events l)" if "journal_inv l" for l
    by (rule journal_inv_shape [OF that])
next
  fix l es b l'
  assume "journal_inv l" "no_checkpoint es" "journal_app io l es = Some (b, l')" "list_all ok_event b"
  then show "journal_inv l' \<and> lg_events l' = lg_events l @ b \<and> contiguous (lastSeq (lg_events l)) b"
    using AppendBatch_law [of l es io b l'] by (auto simp: journal_app_def split: prod.splits sum.splits)
next
  fix l cp l'
  assume "journal_inv l" "ok_event cp" "journal_cmp io l cp = Some l'"
  then show "journal_inv l' \<and> lg_events l' = compact_events cp (lg_events l)"
    using Compact_law [of l cp io l'] by (auto simp: journal_cmp_def split: prod.splits option.splits)
next
  fix l k l'
  assume "journal_inv l" "journal_shd io l k = Some l'"
  then show "journal_inv l' \<and> lg_events l' = map (shed_event k) (lg_events l)"
    using Shed_law [of l io k _ l'] by (auto simp: journal_shd_def split: prod.splits option.splits)
qed

end
