(* ===== verification/Session_Store.thy ===== *)
theory Session_Store
  imports Event_Log
begin

text \<open>
  \<^verbatim>\<open>internal/sessionstore\<close>: the file a session's conversation lives in, as the rows of its
  \<open>events\<close> table (sequence to record) and of its \<open>meta\<close> table, and \<open>Log\<close>, the same conversation
  as its supervisor holds it in memory.  A transaction commits whole or changes nothing, so what
  the database answers is one boolean per transaction or statement, in the argument \<open>io\<close>.
  \<open>transcripthistory.SyncWith\<close> writes only the tables of the reading projection, which nothing
  here reads back; what matters of it is whether it fails, \<open>si_sync\<close>.
\<close>

record store_io =
  si_open :: bool
  si_tx :: bool          \<comment> \<open>the transaction, up to its commit\<close>
  si_sync :: bool        \<comment> \<open>\<open>transcripthistory.SyncWith\<close>\<close>
  si_read :: bool        \<comment> \<open>queries\<close>
  si_meta :: "nat \<Rightarrow> bool" \<comment> \<open>writes of the meta table, in their order\<close>
  si_now :: int

datatype store_error =
    Session_required
  | Db_error
  | Newer_store nat
  | Reduce_error
  | Bad_row
  | Bad_meta
  | Empty_batch
  | Not_a_checkpoint
  | Beyond_conversation
  | Journal_failed journal_error

record store =
  st_rows :: "(nat, bytes) gomap"
  st_meta :: "(string, string) gomap"
  st_background :: "(string, background_state) gomap option"   \<comment> \<open>the writer's memory of them\<close>

definition Schema :: nat where "Schema = 2"
definition Compat :: nat where "Compat = 2"
definition Format :: nat where "Format = 7"

section \<open>The record as a reader sees it\<close>

definition FromCore :: "event \<Rightarrow> event" where
  "FromCore e =
     (let e = (if ev_kind e = HistoryCheckpointKind
               then e\<lparr>ev_kind := HistoryTrimmedKind,
                      ev_text := ''Earlier display history was removed by the size limit.'',
                      ev_payload := Some (boundary_json (ev_seq e))\<rparr>
               else e);
          e = (if ev_kind e = ''raw'' \<and> IsBackgroundEvent (parse_json (ev_raw e))
               then e\<lparr>ev_kind := ''background'', ev_payload := parse_json (ev_raw e)\<rparr>
               else e)
      in e\<lparr>ev_raw := []\<rparr>)"

section \<open>Meta\<close>

text \<open>\<open>CAST(value AS INTEGER)\<close> of a stored number.\<close>

definition cast_number :: "string \<Rightarrow> nat" where
  "cast_number s = read_nat (takeWhile is_digit s)"

definition number :: "store \<Rightarrow> string \<Rightarrow> nat" where
  "number s key = (case map_of (st_meta s) key of None \<Rightarrow> 0 | Some v \<Rightarrow> cast_number v)"

text \<open>The statements of one call, stopping at the first that fails.\<close>

fun write_meta :: "(nat \<Rightarrow> bool) \<Rightarrow> nat \<Rightarrow> (string \<times> string) list \<Rightarrow> store \<Rightarrow> bool \<times> store" where
  "write_meta ok i [] s = (True, s)"
| "write_meta ok i ((k, v) # kvs) s =
     (if ok i then write_meta ok (Suc i) kvs (s\<lparr>st_meta := AList.update k v (st_meta s)\<rparr>) else (False, s))"

definition generation :: "store_io \<Rightarrow> store \<Rightarrow> bool \<times> store" where
  "generation io s = write_meta (si_meta io) 0 [(''schema'', show_nat Schema), (''compat'', show_nat Compat)] s"

definition stamp :: "store_io \<Rightarrow> store \<Rightarrow> bool \<times> store" where
  "stamp io s = write_meta (si_meta io) 0
     [(''schema'', show_nat Schema), (''compat'', show_nat Compat), (''rows_format'', show_nat Format)] s"

definition empty_store :: store where
  "empty_store = \<lparr>st_rows = [], st_meta = [], st_background = None\<rparr>"

text \<open>\<open>Open\<close> of the file \<open>f\<close>, \<open>None\<close> when there is none yet.  The memory of background tasks is
  the opener's own and starts unloaded.\<close>

definition Store_Open :: "store_io \<Rightarrow> string \<Rightarrow> bool \<Rightarrow> store option \<Rightarrow> (store_error + store) \<times> store option" where
  "Store_Open io session write f =
     (if session = [] then (Inl Session_required, f)
      else if \<not> si_open io then (Inl Db_error, f)
      else
        let s = (case f of None \<Rightarrow> empty_store | Some s \<Rightarrow> s\<lparr>st_background := None\<rparr>)
        in if \<not> write then (case f of None \<Rightarrow> (Inl Db_error, f) | Some _ \<Rightarrow> (Inr s, f))
        else if \<not> si_tx io \<or> \<not> si_read io then (Inl Db_error, Some s)
        else
          let schema = number s ''schema''; compat = number s ''compat''
          in if Schema < compat then (Inl (Newer_store compat), Some s)
          else if schema = 0 then
            (case stamp io s of (ok, s) \<Rightarrow> (if ok then Inr s else Inl Db_error, Some s))
          else if schema < Schema then
            (case generation io s of (ok, s) \<Rightarrow> (if ok then Inr s else Inl Db_error, Some s))
          else (Inr s, Some s))"

section \<open>Rows\<close>

definition event_row :: "event \<Rightarrow> bytes" where
  "event_row e = print_json (event_json e)"

definition row_event :: "bytes \<Rightarrow> event option" where
  "row_event b = (case unmarshal dec_event b zero_event of (e, ok) \<Rightarrow> if ok then Some e else None)"

fun records :: "bytes list \<Rightarrow> store_error + event list" where
  "records [] = Inr []"
| "records (b # bs) =
     (case row_event b of
        None \<Rightarrow> Inl Bad_row
      | Some e \<Rightarrow> bind_res (records bs) (\<lambda>es. Inr (e # es)))"

definition ordered_rows :: "store \<Rightarrow> (nat \<times> bytes) list" where
  "ordered_rows s = sort_key fst (st_rows s)"

definition Events :: "store_io \<Rightarrow> store \<Rightarrow> store_error + event list" where
  "Events io s = (if \<not> si_read io then Inl Db_error else records (map snd (ordered_rows s)))"

definition Through :: "store_io \<Rightarrow> store \<Rightarrow> store_error + nat" where
  "Through io s = (if \<not> si_read io then Inl Db_error else Inr (foldr max (map fst (st_rows s)) 0))"

definition Bytes_stored :: "store_io \<Rightarrow> store \<Rightarrow> store_error + nat" where
  "Bytes_stored io s = (if \<not> si_read io then Inl Db_error else Inr (sum_list (map (length \<circ> snd) (st_rows s))))"

definition Recent :: "store_io \<Rightarrow> store \<Rightarrow> int \<Rightarrow> store_error + event list" where
  "Recent io s limit =
     (if limit \<le> 0 then Inr []
      else if \<not> si_read io then Inl Db_error
      else records (map snd (rev (take (nat limit) (rev (ordered_rows s))))))"

section \<open>Background tasks\<close>

definition task_json :: "background_task \<Rightarrow> json" where
  "task_json t = JObj
     [(''task_id'', JStr (bt_id t)), (''tool_use_id'', JStr (bt_tool t)), (''description'', JStr (bt_description t)),
      (''status'', JStr (bt_status t)), (''summary'', JStr (bt_summary t)), (''output_file'', JStr (bt_output t)),
      (''active'', JBool (bt_active t))]"

definition background_json :: "background_state \<Rightarrow> json" where
  "background_json b = JObj (
     [(''Tasks'', case bs_tasks b of None \<Rightarrow> JNull | Some m \<Rightarrow> map_json task_json m),
      (''Snapshot'', JBool (bs_snapshot b))] @
     omit (\<not> bs_unavailable b) ''Unavailable'' (JBool True))"

definition dec_opt_map :: "'v \<Rightarrow> 'v dec \<Rightarrow> (string, 'v) gomap option dec" where
  "dec_opt_map z e j d =
     (case j of JNull \<Rightarrow> (None, True)
      | _ \<Rightarrow> (case dec_map z e j (case d of None \<Rightarrow> [] | Some m \<Rightarrow> m) of (m, ok) \<Rightarrow> (Some m, ok)))"

definition dec_background :: "background_state dec" where
  "dec_background = dec_struct (\<lambda>kvs v.
     let (a, oka) = dec_field ''Tasks'' (dec_opt_map zero_task dec_task) kvs (bs_tasks v);
         (b, okb) = dec_field ''Snapshot'' dec_bool kvs (bs_snapshot v);
         (c, okc) = dec_field ''Unavailable'' dec_bool kvs (bs_unavailable v)
     in (\<lparr>bs_tasks = a, bs_snapshot = b, bs_unavailable = c\<rparr>, oka \<and> okb \<and> okc))"

text \<open>\<open>Background\<close>: what the meta table says of each run.\<close>

definition Background :: "store_io \<Rightarrow> store \<Rightarrow> store_error + (string, background_state) gomap" where
  "Background io s =
     (if \<not> si_read io then Inl Db_error
      else case map_of (st_meta s) ''background'' of
        None \<Rightarrow> Inr []
      | Some raw \<Rightarrow>
          (case unmarshal (dec_map zero_background dec_background) raw [] of
             (m, ok) \<Rightarrow> if ok then Inr m else Inl Bad_meta))"

text \<open>\<open>loadBackground\<close> forgets what was in memory first, also when the query then fails.\<close>

definition loadBackground :: "store_io \<Rightarrow> store \<Rightarrow> store_error option \<times> store" where
  "loadBackground io s =
     (case Background io s of
        Inl e \<Rightarrow> (Some e, s\<lparr>st_background := Some []\<rparr>)
      | Inr m \<Rightarrow> (None, s\<lparr>st_background := Some m\<rparr>))"

fun fold_frames :: "store_io \<Rightarrow> store \<Rightarrow> bool \<Rightarrow> event list \<Rightarrow> (store_error + bool) \<times> store" where
  "fold_frames io s changed [] = (Inr changed, s)"
| "fold_frames io s changed (e # es) =
     (let v = FromCore e in
      if ev_kind v \<noteq> ''background'' then fold_frames io s changed es
      else
        (case (case st_background s of None \<Rightarrow> loadBackground io s | Some _ \<Rightarrow> (None, s)) of
           (Some err, s) \<Rightarrow> (Inl err, s)
         | (None, s) \<Rightarrow>
             let m = (case st_background s of None \<Rightarrow> [] | Some m \<Rightarrow> m);
                 b = Apply (get_or zero_background m (ev_run e)) (ev_payload v)
             in fold_frames io (s\<lparr>st_background := Some (AList.update (ev_run e) b m)\<rparr>) True es))"

definition foldBackground :: "store_io \<Rightarrow> store \<Rightarrow> event list \<Rightarrow> store_error option \<times> store" where
  "foldBackground io s es =
     (case fold_frames io s False es of
        (Inl e, s) \<Rightarrow> (Some e, s)
      | (Inr changed, s) \<Rightarrow>
          if \<not> changed then (None, s)
          else if \<not> si_meta io 0 then (Some Db_error, s)
          else
            let m = (case st_background s of None \<Rightarrow> [] | Some m \<Rightarrow> m)
            in (None, s\<lparr>st_meta := AList.update ''background'' (print_json (map_json background_json m)) (st_meta s)\<rparr>))"

section \<open>Writing\<close>

definition put_row :: "(nat, bytes) gomap \<Rightarrow> event \<Rightarrow> (nat, bytes) gomap" where
  "put_row m e = AList.update (ev_seq e) (event_row e) m"

definition Store_Append :: "store_io \<Rightarrow> store \<Rightarrow> event list \<Rightarrow> store_error option \<times> store" where
  "Store_Append io s es =
     (if es = [] then (None, s)
      else if \<not> si_tx io then (Some Db_error, s)
      else
        let s = s\<lparr>st_rows := foldl put_row (st_rows s) es\<rparr>
        in if \<not> si_sync io then (Some Reduce_error, s) else foldBackground io s es)"

definition Trim :: "store_io \<Rightarrow> store \<Rightarrow> event \<Rightarrow> store_error option \<times> store" where
  "Trim io s cp =
     (if \<not> si_tx io then (Some Db_error, s)
      else
        let s = s\<lparr>st_rows := put_row (filter (\<lambda>(q, _). \<not> q < ev_seq cp) (st_rows s)) cp\<rparr>
        in if \<not> si_sync io then (Some Reduce_error, s) else (None, s))"

definition update_row :: "(nat, bytes) gomap \<Rightarrow> event \<Rightarrow> (nat, bytes) gomap" where
  "update_row m e = map (\<lambda>(q, b). if q = ev_seq e then (q, event_row e) else (q, b)) m"

definition Replace :: "store_io \<Rightarrow> store \<Rightarrow> event list \<Rightarrow> store_error option \<times> store" where
  "Replace io s es =
     (if es = [] then (None, s)
      else if \<not> si_tx io then (Some Db_error, s)
      else (None, s\<lparr>st_rows := foldl update_row (st_rows s) es\<rparr>))"

text \<open>\<open>Fill\<close> appends in batches; \<open>ios i\<close> is what the database answers to the i-th.\<close>

fun fill_batches :: "(nat \<Rightarrow> store_io) \<Rightarrow> nat \<Rightarrow> nat \<Rightarrow> store \<Rightarrow> event list list \<Rightarrow> (nat \<times> store_error option) \<times> store" where
  "fill_batches ios i done s [] = ((done, None), s)"
| "fill_batches ios i done s (b # bs) =
     (case Store_Append (ios i) s b of
        (Some e, s) \<Rightarrow> ((done, Some e), s)
      | (None, s) \<Rightarrow> fill_batches ios (Suc i) (done + length b) s bs)"

definition Fill :: "(nat \<Rightarrow> store_io) \<Rightarrow> store \<Rightarrow> event list \<Rightarrow> nat \<Rightarrow> (nat \<times> store_error option) \<times> store" where
  "Fill ios s es through = fill_batches ios 0 0 s (chunks 2048 (filter (\<lambda>e. through < ev_seq e) es))"

definition SetState :: "store_io \<Rightarrow> store \<Rightarrow> snapshot \<Rightarrow> store_error option \<times> store" where
  "SetState io s snap =
     (if \<not> si_meta io 0 then (Some Db_error, s)
      else (None, s\<lparr>st_meta := AList.update ''state'' (print_json (JObj [(''snapshot'', snapshot_json snap)])) (st_meta s)\<rparr>))"

definition dec_state :: "snapshot dec" where
  "dec_state = dec_struct (\<lambda>kvs v. dec_field ''snapshot'' dec_snapshot kvs v)"

definition State :: "store_io \<Rightarrow> store \<Rightarrow> store_error + snapshot option" where
  "State io s =
     (if \<not> si_read io then Inl Db_error
      else case map_of (st_meta s) ''state'' of
        None \<Rightarrow> Inr None
      | Some raw \<Rightarrow> (case unmarshal dec_state raw zero_snapshot of (v, ok) \<Rightarrow> if ok then Inr (Some v) else Inl Bad_meta))"

section \<open>The log of a supervisor\<close>

record store_log =
  lo_store :: store
  lo_events :: "event list"
  lo_raw :: int

definition raw_total :: "event list \<Rightarrow> int" where
  "raw_total es = sum_list (map (int \<circ> length \<circ> ev_raw) es)"

text \<open>The numbers and times of a batch, by the index of its events.\<close>

fun number_from :: "int \<Rightarrow> nat \<Rightarrow> nat \<Rightarrow> event list \<Rightarrow> event list" where
  "number_from now base i [] = []"
| "number_from now base i (e # es) =
     (let e = e\<lparr>ev_seq := base + i + 1\<rparr>
      in (if ev_time e = 0 then e\<lparr>ev_time := now\<rparr> else e) # number_from now base (Suc i) es)"

definition Log_AppendBatch :: "store_io \<Rightarrow> store_log \<Rightarrow> event list \<Rightarrow> (store_error + event list) \<times> store_log" where
  "Log_AppendBatch io l es =
     (if es = [] then (Inl Empty_batch, l)
      else
        let batch = number_from (si_now io) (lastSeq (lo_events l)) 0 es
        in case Store_Append io (lo_store l) batch of
             (Some e, s) \<Rightarrow> (Inl e, l\<lparr>lo_store := s\<rparr>)
           | (None, s) \<Rightarrow> (Inr batch, l\<lparr>lo_store := s, lo_events := lo_events l @ batch, lo_raw := lo_raw l + raw_total batch\<rparr>))"

definition Log_Append :: "store_io \<Rightarrow> store_log \<Rightarrow> event \<Rightarrow> (store_error + event) \<times> store_log" where
  "Log_Append io l e =
     (case Log_AppendBatch io l [e] of
        (Inl err, l) \<Rightarrow> (Inl err, l)
      | (Inr batch, l) \<Rightarrow> (Inr (hd batch), l))"

definition Log_After :: "store_log \<Rightarrow> nat \<Rightarrow> int \<Rightarrow> event list" where
  "Log_After l seq limit =
     (let es = lo_events l;
          start = sort_search (\<lambda>i. seq < ev_seq (es ! i)) 0 (length es);
          stop = start + min (length es - start) (nat (max 0 limit))
      in take (stop - start) (drop start es))"

definition Log_All :: "store_log \<Rightarrow> event list" where
  "Log_All l = Log_After l 0 (2 ^ 63 - 1)"

definition Log_Size :: "store_io \<Rightarrow> store_log \<Rightarrow> store_error + nat" where
  "Log_Size io l = Bytes_stored io (lo_store l)"

text \<open>\<open>Shed\<close> empties the payloads in memory first and the rows after: the bytes freed, the events to
  write back, and the conversation as it is then.\<close>

fun shed_loop :: "nat \<Rightarrow> event list \<Rightarrow> nat \<times> event list \<times> event list" where
  "shed_loop through [] = (0, [], [])"
| "shed_loop through (e # es) =
     (case shed_loop through es of (freed, shed, rest) \<Rightarrow>
        if ev_kind e \<noteq> ''raw'' \<or> through < ev_seq e \<or> ev_raw e = [] then (freed, shed, e # rest)
        else let x = e\<lparr>ev_raw := []\<rparr> in (length (ev_raw e) + freed, x # shed, x # rest))"

definition Log_Shed :: "store_io \<Rightarrow> store_log \<Rightarrow> nat \<Rightarrow> (nat \<times> store_error option) \<times> store_log" where
  "Log_Shed io l through =
     (case shed_loop through (lo_events l) of (freed, shed, es) \<Rightarrow>
        let l = l\<lparr>lo_events := es\<rparr>
        in if freed = 0 then ((0, None), l)
           else case Replace io (lo_store l) shed of
               (Some e, s) \<Rightarrow> ((0, Some e), l\<lparr>lo_store := s\<rparr>)
             | (None, s) \<Rightarrow> ((freed, None), l\<lparr>lo_store := s, lo_raw := lo_raw l - int freed\<rparr>))"

text \<open>The events past a checkpoint, with the bytes of their payloads.\<close>

fun keep_loop :: "nat \<Rightarrow> event list \<Rightarrow> event list \<times> int" where
  "keep_loop seq [] = ([], 0)"
| "keep_loop seq (e # es) =
     (case keep_loop seq es of (keep, raw) \<Rightarrow> if seq < ev_seq e then (e # keep, int (length (ev_raw e)) + raw) else (keep, raw))"

definition Log_Compact :: "store_io \<Rightarrow> store_log \<Rightarrow> event \<Rightarrow> store_error option \<times> store_log" where
  "Log_Compact io l cp =
     (if ev_kind cp \<noteq> HistoryCheckpointKind \<or> ev_seq cp = 0 then (Some Not_a_checkpoint, l)
      else if lo_events l = [] \<or> ev_seq cp < ev_seq (hd (lo_events l)) \<or> lastSeq (lo_events l) < ev_seq cp
      then (Some Beyond_conversation, l)
      else case Trim io (lo_store l) cp of
          (Some e, s) \<Rightarrow> (Some e, l\<lparr>lo_store := s\<rparr>)
        | (None, s) \<Rightarrow>
            (case keep_loop (ev_seq cp) (lo_events l) of (keep, raw) \<Rightarrow>
               (None, l\<lparr>lo_store := s, lo_events := cp # keep, lo_raw := raw\<rparr>)))"

text \<open>The loops of \<open>Log\<close> compute what those of the journal do.\<close>

definition sheds :: "nat \<Rightarrow> event \<Rightarrow> bool" where
  "sheds through e \<longleftrightarrow> ev_kind e = ''raw'' \<and> ev_seq e \<le> through \<and> ev_raw e \<noteq> []"

lemma number_from_batch: "number_from now base i es = number_batch now (base + i) es"
  by (induction es arbitrary: i) (simp_all add: Let_def)

lemma shed_loop_parts:
  "shed_loop k es = (shed_freed k es, map (shed_event k) (filter (sheds k) es), map (shed_event k) es)"
  by (induction es) (auto simp: shed_freed_def shed_event_def sheds_def Let_def)

lemma keep_loop_parts: "keep_loop k es = (filter (\<lambda>e. k < ev_seq e) es, raw_total (filter (\<lambda>e. k < ev_seq e) es))"
  by (induction es) (simp_all add: raw_total_def)

lemma Log_AppendBatch_eq:
  "Log_AppendBatch io l es =
     (if es = [] then (Inl Empty_batch, l)
      else
        let batch = number_batch (si_now io) (lastSeq (lo_events l)) es
        in case Store_Append io (lo_store l) batch of
             (Some e, s) \<Rightarrow> (Inl e, l\<lparr>lo_store := s\<rparr>)
           | (None, s) \<Rightarrow> (Inr batch, l\<lparr>lo_store := s, lo_events := lo_events l @ batch, lo_raw := lo_raw l + raw_total batch\<rparr>))"
  by (simp add: Log_AppendBatch_def number_from_batch)

lemma Log_After_eq: "Log_After l seq limit = events_after (lo_events l) seq limit"
  by (simp add: Log_After_def events_after_def Let_def)

lemma Log_Shed_eq:
  "Log_Shed io l through =
     (let freed = shed_freed through (lo_events l);
          shed = map (shed_event through) (filter (sheds through) (lo_events l));
          l = l\<lparr>lo_events := map (shed_event through) (lo_events l)\<rparr>
      in if freed = 0 then ((0, None), l)
         else case Replace io (lo_store l) shed of
             (Some e, s) \<Rightarrow> ((0, Some e), l\<lparr>lo_store := s\<rparr>)
           | (None, s) \<Rightarrow> ((freed, None), l\<lparr>lo_store := s, lo_raw := lo_raw l - int freed\<rparr>))"
  by (simp add: Log_Shed_def shed_loop_parts Let_def)

lemma Log_Compact_eq:
  "Log_Compact io l cp =
     (if ev_kind cp \<noteq> HistoryCheckpointKind \<or> ev_seq cp = 0 then (Some Not_a_checkpoint, l)
      else if lo_events l = [] \<or> ev_seq cp < ev_seq (hd (lo_events l)) \<or> lastSeq (lo_events l) < ev_seq cp
      then (Some Beyond_conversation, l)
      else case Trim io (lo_store l) cp of
          (Some e, s) \<Rightarrow> (Some e, l\<lparr>lo_store := s\<rparr>)
        | (None, s) \<Rightarrow>
            let keep = compact_events cp (lo_events l)
            in (None, l\<lparr>lo_store := s, lo_events := keep, lo_raw := raw_total (tl keep)\<rparr>))"
  by (simp add: Log_Compact_def keep_loop_parts compact_events_def Let_def split: option.split prod.split)

section \<open>From a journal\<close>

record session_dir =
  sd_journal :: "jfile option"
  sd_store :: "store option"

definition converted :: "store_io \<Rightarrow> string \<Rightarrow> store option \<Rightarrow> store_error + bool" where
  "converted io session f =
     (case f of
        None \<Rightarrow> Inr False
      | Some _ \<Rightarrow>
          (case Store_Open io session False f of
             (Inl e, _) \<Rightarrow> Inl e
           | (Inr s, _) \<Rightarrow> if si_read io then Inr (number s ''converted'' = 1) else Inl Db_error))"

definition Convert :: "store_io \<Rightarrow> (nat \<Rightarrow> store_io) \<Rightarrow> io_env \<Rightarrow> string \<Rightarrow> session_dir \<Rightarrow> (store_error + nat) \<times> session_dir" where
  "Convert io ios jio session d =
     (case converted io session (sd_store d) of
        Inl e \<Rightarrow> (Inl e, d)
      | Inr True \<Rightarrow> (Inr 0, d)
      | Inr False \<Rightarrow>
          let r = ReadSince jio (\<lambda>_. True) (sd_journal d) zero_cursor
          in case rr_error r of
               Some e \<Rightarrow> (Inl (Journal_failed e), d)
             | None \<Rightarrow>
                 (case Store_Open io session True (sd_store d) of
                    (Inl e, f) \<Rightarrow> (Inl e, d\<lparr>sd_store := f\<rparr>)
                  | (Inr s, f) \<Rightarrow>
                      let d = d\<lparr>sd_store := f\<rparr>
                      in case Through io s of
                           Inl e \<Rightarrow> (Inl e, d)
                         | Inr through \<Rightarrow>
                             (case Fill ios s (rr_events r) through of
                                ((_, Some e), s) \<Rightarrow> (Inl e, d\<lparr>sd_store := Some s\<rparr>)
                              | ((_, None), s) \<Rightarrow>
                                  (case write_meta (si_meta io) 3 [(''converted'', ''1'')] s of
                                     (False, s) \<Rightarrow> (Inl Db_error, d\<lparr>sd_store := Some s\<rparr>)
                                   | (True, s) \<Rightarrow> (Inr (length (rr_events r)), d\<lparr>sd_store := Some s\<rparr>)))))"

definition OpenLog :: "store_io \<Rightarrow> (nat \<Rightarrow> store_io) \<Rightarrow> io_env \<Rightarrow> string \<Rightarrow> session_dir \<Rightarrow> (store_error + store_log) \<times> session_dir" where
  "OpenLog io ios jio session d =
     (case Convert io ios jio session d of
        (Inl e, d) \<Rightarrow> (Inl e, d)
      | (Inr _, d) \<Rightarrow>
          (case Store_Open io session True (sd_store d) of
             (Inl e, f) \<Rightarrow> (Inl e, d\<lparr>sd_store := f\<rparr>)
           | (Inr s, f) \<Rightarrow>
               (case Events io s of
                  Inl e \<Rightarrow> (Inl e, d\<lparr>sd_store := f\<rparr>)
                | Inr es \<Rightarrow> (Inr \<lparr>lo_store = s, lo_events = es, lo_raw = raw_total es\<rparr>, d\<lparr>sd_store := f\<rparr>))))"


section \<open>The rows hold the conversation\<close>

definition row_of :: "event \<Rightarrow> nat \<times> bytes" where
  "row_of e = (ev_seq e, event_row e)"

definition holds :: "store \<Rightarrow> event list \<Rightarrow> bool" where
  "holds s es \<longleftrightarrow> wf_map (st_rows s) \<and> set (st_rows s) = row_of ` set es"

definition log_inv :: "store_log \<Rightarrow> bool" where
  "log_inv l \<longleftrightarrow> log_shape (lo_events l) \<and> list_all ok_event (lo_events l) \<and> holds (lo_store l) (lo_events l) \<and>
     lo_raw l = raw_total (lo_events l)"

lemma row_event_row [simp]: "ok_event e \<Longrightarrow> row_event (event_row e) = Some e"
  by (simp add: row_event_def event_row_def unmarshal_def parse_print_json wf_event_json dec_event_json)

lemma records_rows: "list_all ok_event es \<Longrightarrow> records (map event_row es) = Inr es"
  by (induction es) simp_all

lemma sorted_seqs_distinct: "sorted_wrt (<) (map ev_seq es) \<Longrightarrow> distinct (map row_of es)"
proof -
  assume "sorted_wrt (<) (map ev_seq es)"
  moreover have "map ev_seq es = map fst (map row_of es)" by (simp add: row_of_def)
  ultimately have "distinct (map fst (map row_of es))" by (simp only: strict_sorted_iff)
  then show ?thesis by (simp only: distinct_map [of fst])
qed

lemma ordered_holds:
  assumes "holds s es" "sorted_wrt (<) (map ev_seq es)"
  shows "ordered_rows s = map row_of es"
proof -
  have "distinct (map fst (st_rows s))" using assms(1) by (simp add: holds_def wf_map_def)
  then have d: "distinct (st_rows s)" "inj_on fst (set (st_rows s))" by (simp_all add: distinct_map)
  have "sort_key fst (st_rows s) = sort_key fst (map row_of es)"
    by (rule sorted_key_unique [OF _ d(1) sorted_seqs_distinct [OF assms(2)] d(2)])
      (use assms(1) in \<open>simp add: holds_def\<close>)
  also have "\<dots> = map row_of es"
    using assms(2) by (intro sort_key_id_if_sorted) (simp add: row_of_def comp_def strict_sorted_iff)
  finally show ?thesis by (simp add: ordered_rows_def)
qed

lemma Events_holds:
  assumes "holds s es" "sorted_wrt (<) (map ev_seq es)" "list_all ok_event es" "si_read io"
  shows "Events io s = Inr es"
  using assms(3,4) ordered_holds [OF assms(1,2)] records_rows
  by (simp add: Events_def row_of_def comp_def)

lemma set_update_new: "k \<notin> fst ` set m \<Longrightarrow> set (AList.update k v m) = insert (k, v) (set m)"
  by (simp add: update_new)

lemma put_rows:
  assumes "wf_map m" "\<forall>k\<in>fst ` set m. \<forall>e\<in>set es. k < ev_seq e" "sorted_wrt (<) (map ev_seq es)"
  shows "wf_map (foldl put_row m es) \<and> set (foldl put_row m es) = set m \<union> row_of ` set es"
  using assms
proof (induction es arbitrary: m)
  case (Cons e es)
  have new: "ev_seq e \<notin> fst ` set m" using Cons.prems(2) by fastforce
  have s: "set (put_row m e) = insert (row_of e) (set m)"
    unfolding put_row_def set_update_new [OF new] by (simp add: row_of_def)
  have "\<forall>k\<in>fst ` set (put_row m e). \<forall>x\<in>set es. k < ev_seq x"
    using Cons.prems(2,3) by (auto simp: s row_of_def)
  moreover have "wf_map (put_row m e)" using Cons.prems(1) by (simp add: put_row_def)
  ultimately show ?case using Cons.IH [of "put_row m e"] Cons.prems(3) by (simp add: s)
qed simp

lemma put_rows_holds:
  assumes "holds s es" "\<forall>e\<in>set es. \<forall>x\<in>set xs. ev_seq e < ev_seq x" "sorted_wrt (<) (map ev_seq xs)"
    "st_rows s' = foldl put_row (st_rows s) xs"
  shows "holds s' (es @ xs)"
  using put_rows [of "st_rows s" xs] assms by (auto simp: holds_def row_of_def)

lemma fold_frames_rows: "fold_frames io s ch es = (r, s') \<Longrightarrow> st_rows s' = st_rows s"
proof (induction io s ch es rule: fold_frames.induct)
  case (2 io s ch e es)
  have lb: "loadBackground io s = (x, s1) \<Longrightarrow> st_rows s1 = st_rows s" for x s1
    by (auto simp: loadBackground_def split: sum.splits)
  obtain x s1 where x: "(case st_background s of None \<Rightarrow> loadBackground io s | Some _ \<Rightarrow> (None, s)) = (x, s1)"
    by fastforce
  then have r: "st_rows s1 = st_rows s" using lb by (auto split: option.splits)
  show ?case
  proof (cases "ev_kind (FromCore e) = ''background''")
    case False
    then show ?thesis using "2.IH"(1) [OF refl] "2.prems" by (simp add: Let_def)
  next
    case True
    show ?thesis
    proof (cases x)
      case (Some a)
      then show ?thesis using "2.prems" True r by (simp add: Let_def x)
    next
      case None
      then have nf: "\<not> ev_kind (FromCore e) \<noteq> ''background''" using True by simp
      from "2.IH"(2) [OF refl nf x [symmetric] None refl refl] show ?thesis
        using "2.prems" True r None by (simp add: Let_def x)
    qed
  qed
qed simp

lemma foldBackground_rows: "foldBackground io s es = (r, s') \<Longrightarrow> st_rows s' = st_rows s"
  by (auto simp: foldBackground_def Let_def dest: fold_frames_rows split: prod.splits sum.splits if_splits)

lemma Store_Append_rows:
  assumes "Store_Append io s es = (None, s')"
  shows "st_rows s' = foldl put_row (st_rows s) es"
  using assms by (auto simp: Store_Append_def Let_def dest: foldBackground_rows split: if_splits)

lemma raw_total_append [simp]: "raw_total (xs @ ys) = raw_total xs + raw_total ys"
  by (simp add: raw_total_def)

lemma after_last:
  assumes "log_shape es" "contiguous (lastSeq es) xs"
  shows "\<forall>e\<in>set es. \<forall>x\<in>set xs. ev_seq e < ev_seq x"
proof (intro ballI)
  fix e x
  assume e: "e \<in> set es" and x: "x \<in> set xs"
  have "ev_seq e \<le> lastSeq es"
    by (rule seq_from_ge [OF log_shape_sorted [OF assms(1)] _ e]) (use e in auto)
  also have "\<dots> < ev_seq x" using contiguous_bounds [OF assms(2) x] by simp
  finally show "ev_seq e < ev_seq x" .
qed

lemma Log_AppendBatch_inv:
  assumes "log_inv l" "no_checkpoint es" "Log_AppendBatch io l es = (Inr batch, l')" "list_all ok_event batch"
  shows "log_inv l' \<and> lo_events l' = lo_events l @ batch \<and> contiguous (lastSeq (lo_events l)) batch \<and>
    batch = number_batch (si_now io) (lastSeq (lo_events l)) es"
proof -
  obtain s where b: "batch = number_batch (si_now io) (lastSeq (lo_events l)) es"
    "Store_Append io (lo_store l) batch = (None, s)"
    "l' = l\<lparr>lo_store := s, lo_events := lo_events l @ batch, lo_raw := lo_raw l + raw_total batch\<rparr>"
    using assms(3) by (auto simp: Log_AppendBatch_eq Let_def split: if_splits option.splits prod.splits)
  have c: "contiguous (lastSeq (lo_events l)) batch" using number_batch_contiguous [OF assms(2)] by (simp add: b(1))
  have i: "log_shape (lo_events l)" "holds (lo_store l) (lo_events l)" using assms(1) by (simp_all add: log_inv_def)
  have "\<forall>e\<in>set (lo_events l). \<forall>x\<in>set batch. ev_seq e < ev_seq x"
    using after_last [OF i(1) c] .
  from put_rows_holds [OF i(2) this contiguous_sorted [OF c] Store_Append_rows [OF b(2)]]
  have "holds s (lo_events l @ batch)" .
  then show ?thesis
    using assms(1,4) c log_shape_append [OF i(1) c] by (simp add: log_inv_def b(3)) (simp add: b(1))
qed

lemma trim_rows:
  assumes "wf_map m" "set m = row_of ` set es"
  shows "wf_map (put_row (filter (\<lambda>(q, _). \<not> q < ev_seq cp) m) cp) \<and>
    set (put_row (filter (\<lambda>(q, _). \<not> q < ev_seq cp) m) cp) = row_of ` set (compact_events cp es)"
proof -
  let ?f = "filter (\<lambda>(q, _). \<not> q < ev_seq cp) m"
  have wf: "wf_map ?f" using assms(1) by (simp add: wf_map_def distinct_map_filter)
  have upd: "set (AList.update k v n) = insert (k, v) {x \<in> set n. fst x \<noteq> k}" if "wf_map n" for k v and n :: "(nat, bytes) gomap"
    using that by (induction n) (auto simp: wf_map_def image_iff)
  have "set (put_row ?f cp) = insert (row_of cp) {x \<in> set m. ev_seq cp < fst x}"
    unfolding put_row_def upd [OF wf] by (auto simp: row_of_def)
  also have "\<dots> = row_of ` set (compact_events cp es)"
    by (auto simp: assms(2) compact_events_def row_of_def)
  finally show ?thesis using wf by (simp add: put_row_def)
qed

lemma Log_Compact_inv:
  assumes "log_inv l" "ok_event cp" "valid_checkpoint cp" "ev_raw cp = []" "Log_Compact io l cp = (None, l')"
  shows "log_inv l' \<and> lo_events l' = compact_events cp (lo_events l)"
proof -
  let ?k = "compact_events cp (lo_events l)"
  obtain s where c: "ev_kind cp = HistoryCheckpointKind" "lo_events l \<noteq> []" "ev_seq (hd (lo_events l)) \<le> ev_seq cp"
    "ev_seq cp \<le> lastSeq (lo_events l)" "Trim io (lo_store l) cp = (None, s)"
    "l' = l\<lparr>lo_store := s, lo_events := ?k, lo_raw := raw_total (tl ?k)\<rparr>"
    using assms(5) by (auto simp: Log_Compact_eq Let_def not_less split: if_splits option.splits prod.splits)
  have i: "log_shape (lo_events l)" "list_all ok_event (lo_events l)" "holds (lo_store l) (lo_events l)"
    using assms(1) by (simp_all add: log_inv_def)
  have "log_shape ?k"
    using compact_suffix_contiguous [OF i(1) c(2-4)] c(1) assms(3) by (simp add: log_shape_def compact_events_def)
  moreover have "list_all ok_event ?k" using i(2) assms(2) by (auto simp: compact_events_def list_all_iff)
  moreover have "st_rows s = put_row (filter (\<lambda>(q, _). \<not> q < ev_seq cp) (st_rows (lo_store l))) cp"
    using c(5) by (auto simp: Trim_def Let_def split: if_splits)
  then have "holds s ?k" using trim_rows [of "st_rows (lo_store l)" "lo_events l" cp] i(3) by (simp add: holds_def)
  moreover have "raw_total (tl ?k) = raw_total ?k" using assms(4) by (simp add: compact_events_def raw_total_def)
  ultimately show ?thesis by (simp add: log_inv_def c(6))
qed

lemma update_row_wf: "wf_map m \<Longrightarrow> wf_map (foldl update_row m es)"
proof (induction es arbitrary: m)
  case (Cons e es)
  have "map fst (update_row m e) = map fst m" by (auto simp: update_row_def)
  then show ?case using Cons by (simp add: wf_map_def)
qed simp

lemma update_rows:
  assumes "distinct (map ev_seq xs)"
  shows "foldl update_row m xs =
    map (\<lambda>(q, b). case find (\<lambda>e. ev_seq e = q) xs of None \<Rightarrow> (q, b) | Some e \<Rightarrow> (q, event_row e)) m"
  using assms
proof (induction xs arbitrary: m)
  case (Cons e xs)
  have none: "find (\<lambda>x. ev_seq x = ev_seq e) xs = None" using Cons.prems by (auto simp: find_None_iff image_iff)
  show ?case
    using Cons.IH [of "update_row m e"] Cons.prems none
    by (auto simp: update_row_def comp_def split: option.splits)
qed simp

lemma shed_not_sheds: "\<not> sheds k e \<Longrightarrow> shed_event k e = e"
  by (auto simp: sheds_def shed_event_def)

lemma shed_rows:
  assumes "holds s es" "sorted_wrt (<) (map ev_seq es)"
  shows "set (foldl update_row (st_rows s) (map (shed_event k) (filter (sheds k) es))) =
    row_of ` set (map (shed_event k) es)"
proof -
  let ?xs = "map (shed_event k) (filter (sheds k) es)"
  have d: "distinct (map ev_seq es)" using assms(2) by (simp add: strict_sorted_iff)
  then have dx: "distinct (map ev_seq ?xs)" by (simp add: comp_def distinct_map_filter)
  have inj: "e = e'" if "e \<in> set es" "e' \<in> set es" "ev_seq e = ev_seq e'" for e e'
    using d that by (auto simp: distinct_map dest: inj_onD)
  have look: "(case find (\<lambda>x. ev_seq x = ev_seq e) ?xs of None \<Rightarrow> (ev_seq e, event_row e) | Some x \<Rightarrow> (ev_seq e, event_row x)) =
      row_of (shed_event k e)" if "e \<in> set es" for e
  proof (cases "find (\<lambda>x. ev_seq x = ev_seq e) ?xs")
    case None
    then have "\<not> sheds k e" using that by (auto simp: find_None_iff)
    then show ?thesis using None by (simp add: row_of_def shed_not_sheds)
  next
    case (Some x)
    then obtain n where "n < length ?xs" "ev_seq (?xs ! n) = ev_seq e" "x = ?xs ! n"
      unfolding find_Some_iff by blast
    then have "x \<in> set ?xs" "ev_seq x = ev_seq e" by (simp_all only: nth_mem)
    then obtain e' where "e' \<in> set es" "x = shed_event k e'" "ev_seq x = ev_seq e" by auto
    then show ?thesis using Some inj [of e' e] that by (simp add: row_of_def)
  qed
  let ?g = "\<lambda>(q, b). case find (\<lambda>e. ev_seq e = q) ?xs of None \<Rightarrow> (q, b) | Some e \<Rightarrow> (q, event_row e)"
  have "set (foldl update_row (st_rows s) ?xs) = ?g ` row_of ` set es"
    using assms(1) by (simp only: update_rows [OF dx] set_map holds_def)
  also have "\<dots> = (\<lambda>e. row_of (shed_event k e)) ` set es"
    unfolding image_image by (rule image_cong [OF refl]) (simp only: row_of_def [of e for e] case_prod_conv look [unfolded row_of_def])
  finally show ?thesis by (simp add: image_image)
qed

lemma raw_total_shed:
  "raw_total (map (shed_event k) es) = raw_total es - int (shed_freed k es)"
  by (induction es) (auto simp: raw_total_def shed_freed_def shed_event_def)

lemma Log_Shed_inv:
  assumes "log_inv l" "Log_Shed io l k = ((freed, None), l')"
  shows "log_inv l' \<and> lo_events l' = map (shed_event k) (lo_events l) \<and> lo_raw l' = lo_raw l - int freed"
proof -
  have i: "log_shape (lo_events l)" "list_all ok_event (lo_events l)" "holds (lo_store l) (lo_events l)"
    "lo_raw l = raw_total (lo_events l)"
    using assms(1) by (simp_all add: log_inv_def)
  let ?es = "map (shed_event k) (lo_events l)" and ?xs = "map (shed_event k) (filter (sheds k) (lo_events l))"
  have "lo_events l' = ?es \<and> freed = shed_freed k (lo_events l) \<and> lo_raw l' = lo_raw l - int freed \<and> holds (lo_store l') ?es"
  proof (cases "shed_freed k (lo_events l) = 0")
    case True
    then have "\<not> sheds k e" if "e \<in> set (lo_events l)" for e using that by (auto simp: shed_freed_def sheds_def)
    then have "?es = lo_events l" by (intro map_idI) (simp add: shed_not_sheds)
    then show ?thesis using assms(2) True i(3) by (auto simp: Log_Shed_eq)
  next
    case False
    obtain x s where r: "Replace io (lo_store l) ?xs = (x, s)" by (cases "Replace io (lo_store l) ?xs")
    have "?xs \<noteq> []"
    proof
      assume "?xs = []"
      then have "shed_freed k (lo_events l) = 0" by (auto simp: shed_freed_def filter_empty_conv sheds_def)
      with False show False by simp
    qed
    have x: "x = None" "l' = l\<lparr>lo_store := s, lo_events := ?es, lo_raw := lo_raw l - int freed\<rparr>"
      "freed = shed_freed k (lo_events l)"
      using assms(2) False by (auto simp: Log_Shed_eq Let_def r split: option.splits)
    then have "st_rows s = foldl update_row (st_rows (lo_store l)) ?xs"
      using r \<open>?xs \<noteq> []\<close> by (auto simp: Replace_def split: if_splits)
    then have "holds s ?es"
      using shed_rows [OF i(3) log_shape_sorted [OF i(1)]] update_row_wf i(3) by (simp add: holds_def)
    then show ?thesis using x by simp
  qed
  then have ev: "lo_events l' = ?es" and fr: "freed = shed_freed k (lo_events l)"
    and raw: "lo_raw l' = lo_raw l - int freed" and "holds (lo_store l') ?es" by blast+
  then show ?thesis
    using i ev raw shed_shape shed_ok [OF i(2)] raw_total_shed [of k "lo_events l"] by (simp add: log_inv_def fr)
qed


section \<open>The store as the supervisor's log\<close>

definition store_app :: "store_io \<Rightarrow> store_log \<Rightarrow> event list \<Rightarrow> (event list \<times> store_log) option" where
  "store_app io l es = (case Log_AppendBatch io l es of (Inl _, _) \<Rightarrow> None | (Inr b, l') \<Rightarrow> Some (b, l'))"

definition store_cmp :: "store_io \<Rightarrow> store_log \<Rightarrow> event \<Rightarrow> store_log option" where
  "store_cmp io l cp = (case Log_Compact io l cp of (None, l') \<Rightarrow> Some l' | (Some _, _) \<Rightarrow> None)"

definition store_shd :: "store_io \<Rightarrow> store_log \<Rightarrow> nat \<Rightarrow> store_log option" where
  "store_shd io l k = (case Log_Shed io l k of ((_, None), l') \<Rightarrow> Some l' | ((_, Some _), _) \<Rightarrow> None)"

interpretation slog: event_log lo_events log_inv "store_app io" "store_cmp io" "store_shd io" for io
proof
  show "log_shape (lo_events l) \<and> list_all ok_event (lo_events l)" if "log_inv l" for l
    using that by (simp add: log_inv_def)
next
  fix l es b l'
  assume "log_inv l" "no_checkpoint es" "store_app io l es = Some (b, l')" "list_all ok_event b"
  then show "log_inv l' \<and> lo_events l' = lo_events l @ b \<and> contiguous (lastSeq (lo_events l)) b"
    using Log_AppendBatch_inv [of l es io b l'] by (auto simp: store_app_def split: prod.splits sum.splits)
next
  fix l cp l'
  assume "log_inv l" "ok_event cp" "valid_checkpoint cp" "ev_raw cp = []" "store_cmp io l cp = Some l'"
  then show "log_inv l' \<and> lo_events l' = compact_events cp (lo_events l)"
    using Log_Compact_inv [of l cp io l'] by (auto simp: store_cmp_def split: prod.splits option.splits)
next
  fix l k l'
  assume "log_inv l" "store_shd io l k = Some l'"
  then show "log_inv l' \<and> lo_events l' = map (shed_event k) (lo_events l)"
    using Log_Shed_inv [of l io k _ l'] by (auto simp: store_shd_def split: prod.splits option.splits)
qed

lemma log_inv_Events: "log_inv l \<Longrightarrow> si_read io \<Longrightarrow> Events io (lo_store l) = Inr (lo_events l)"
  by (auto simp: log_inv_def intro: Events_holds log_shape_sorted)

text \<open>A write that is reported as failed may have been committed.\<close>

lemma Store_Append_any:
  assumes "Store_Append io s es = (r, s')"
  shows "if es \<noteq> [] \<and> si_tx io then st_rows s' = foldl put_row (st_rows s) es else s' = s"
  using assms by (auto simp: Store_Append_def Let_def dest: foldBackground_rows split: if_splits)

lemma Log_AppendBatch_failed:
  assumes "log_inv l" "no_checkpoint es" "Log_AppendBatch io l es = (Inl e, l')" "si_read io'"
    and "batch = number_from (si_now io) (lastSeq (lo_events l)) 0 es" "list_all ok_event batch"
  shows "lo_events l' = lo_events l \<and> lo_raw l' = lo_raw l \<and>
    (if es \<noteq> [] \<and> si_tx io then Events io' (lo_store l') = Inr (lo_events l @ batch) else lo_store l' = lo_store l)"
proof (cases "es = []")
  case False
  have n: "batch = number_batch (si_now io) (lastSeq (lo_events l)) es" by (simp add: assms(5) number_from_batch)
  obtain s where s: "Store_Append io (lo_store l) batch = (Some e, s)" "l' = l\<lparr>lo_store := s\<rparr>"
    using assms(3) False by (auto simp: Log_AppendBatch_def Let_def assms(5) split: option.splits prod.splits)
  have "batch \<noteq> []" using False by (cases es) (simp_all add: n)
  then have r: "if si_tx io then st_rows s = foldl put_row (st_rows (lo_store l)) batch else s = lo_store l"
    using Store_Append_any [OF s(1)] by simp
  have i: "log_shape (lo_events l)" "holds (lo_store l) (lo_events l)" "list_all ok_event (lo_events l)"
    using assms(1) by (simp_all add: log_inv_def)
  have c: "contiguous (lastSeq (lo_events l)) batch" using number_batch_contiguous [OF assms(2)] by (simp add: n)
  have "Events io' s = Inr (lo_events l @ batch)" if "si_tx io"
  proof -
    have "holds s (lo_events l @ batch)"
      using put_rows_holds [OF i(2) after_last [OF i(1) c] contiguous_sorted [OF c]] r that by simp
    then show ?thesis
      using Events_holds log_shape_sorted [OF log_shape_append [OF i(1) c]] i(3) assms(4,6) by simp
  qed
  then show ?thesis using r False by (simp add: s(2))
qed (use assms(3) in \<open>simp add: Log_AppendBatch_def\<close>)

text \<open>Compacting by a checkpoint of the events themselves meets none of its guards.\<close>

lemma compacted_log:
  assumes "log_inv l" "log_ok (lo_events l)" "lo_events l = pre @ post" "makeHistoryCheckpoint pre = Inr cp"
  shows "log_inv l' \<Longrightarrow> lo_events l' = cp # post \<Longrightarrow> Replay (lo_events l') = Replay (lo_events l)"
    "Log_Compact io l cp = (None, l') \<Longrightarrow> log_inv l' \<and> lo_events l' = cp # post"
    "Log_Compact io l cp = (Some e, l') \<Longrightarrow> lo_events l' = lo_events l \<and> lo_raw l' = lo_raw l \<and>
      (if si_tx io then holds (lo_store l') (cp # post) else lo_store l' = lo_store l)"
    "log_shape (cp # post)" "list_all ok_event (cp # post)" "Replay (cp # post) = Replay (lo_events l)"
proof -
  have ok: "log_ok (pre @ post)" "list_all ok_event pre" "list_all ok_event post"
    using assms(1-3) by (auto simp: log_inv_def)
  have c: "pre \<noteq> []" "ok_event cp" "valid_checkpoint cp" "ev_seq cp = lastSeq pre"
    using makeHistoryCheckpoint_parts [OF assms(4) log_ok_prefix [OF ok(1)] ok(2)] by metis+
  have cp: "ev_kind cp = HistoryCheckpointKind" "ev_raw cp = []"
    using assms(4) by (auto simp: makeHistoryCheckpoint_def Let_def bind_res_Inr_iff zero_event_def split: if_splits)
  have k: "compact_events cp (lo_events l) = cp # post" using compact_prefix [OF ok(1) c(1,4)] assms(3) by simp
  have good: "slog.good l" using assms(1,2) by (simp add: slog.good_def)
  have i: "log_shape (lo_events l)" "holds (lo_store l) (lo_events l)" using assms(1) by (simp_all add: log_inv_def)
  have srt: "sorted_wrt (<) (map ev_seq (pre @ post))" using log_shape_sorted [OF i(1)] by (simp add: assms(3))
  have bounds: "ev_seq (hd (lo_events l)) \<le> ev_seq cp" "ev_seq cp \<le> lastSeq (lo_events l)" "lo_events l \<noteq> []" "ev_seq cp \<noteq> 0"
  proof -
    have l: "last pre \<in> set pre" "lastSeq pre = ev_seq (last pre)"
      using c(1) by (simp_all add: lastSeq_def last_or_last last_map)
    have "\<forall>e \<in> set (pre @ post). 0 < ev_seq e" using log_shape_seq_pos [OF i(1)] by (simp add: assms(3))
    then show "ev_seq cp \<noteq> 0" using l by (auto simp: c(4))
    show "lo_events l \<noteq> []" using c(1) by (simp add: assms(3))
    have "sorted_wrt (<) (map ev_seq pre)" using srt by (simp add: sorted_wrt_append)
    then show "ev_seq (hd (lo_events l)) \<le> ev_seq cp"
      using seq_from_ge [of pre "hd pre"] c(1) by (simp add: assms(3) c(4) lastSeq_def)
    show "ev_seq cp \<le> lastSeq (lo_events l)"
      using seq_from_ge [OF srt, of "last pre"] l c(1) by (simp add: assms(3) c(4) lastSeq_def)
  qed
  show "Log_Compact io l cp = (None, l') \<Longrightarrow> log_inv l' \<and> lo_events l' = cp # post"
    using Log_Compact_inv [OF assms(1) c(2,3) cp(2), of io l'] k by simp
  show "log_shape (cp # post)"
    using compact_suffix_contiguous [OF i(1) bounds(3,1,2)] cp(1) c(3) by (simp add: log_shape_def k [symmetric] compact_events_def)
  show "list_all ok_event (cp # post)" using c(2) ok(3) by simp
  show "Replay (cp # post) = Replay (lo_events l)"
    using checkpoint_replays [OF ok(1) assms(4) ok(2)] by (simp add: assms(3))
  then show "log_inv l' \<Longrightarrow> lo_events l' = cp # post \<Longrightarrow> Replay (lo_events l') = Replay (lo_events l)" by simp
  show "lo_events l' = lo_events l \<and> lo_raw l' = lo_raw l \<and> (if si_tx io then holds (lo_store l') (cp # post) else lo_store l' = lo_store l)"
    if f: "Log_Compact io l cp = (Some e, l')"
  proof -
    obtain s where s: "Trim io (lo_store l) cp = (Some e, s)" "l' = l\<lparr>lo_store := s\<rparr>"
      using f cp(1) bounds by (auto simp: Log_Compact_eq Let_def not_less split: if_splits option.splits prod.splits)
    show ?thesis
    proof (cases "si_tx io")
      case True
      then have "st_rows s = put_row (filter (\<lambda>(q, _). \<not> q < ev_seq cp) (st_rows (lo_store l))) cp"
        using s(1) by (auto simp: Trim_def Let_def split: if_splits)
      then show ?thesis using trim_rows [of "st_rows (lo_store l)" "lo_events l" cp] i(2) k True by (simp add: holds_def s(2))
    qed (use s in \<open>auto simp: Trim_def\<close>)
  qed
qed

lemma append_outcome:
  assumes "log_inv l" "log_ok (lo_events l)" "si_read io'"
    and a: "no_checkpoint es" "Log_AppendBatch io l es = (r, l')" "list_all ok_event (number_from (si_now io) (lastSeq (lo_events l)) 0 es)"
  shows "case r of
      Inr b \<Rightarrow> log_inv l' \<and> Events io' (lo_store l') = Inr (lo_events l @ b) \<and> lo_events l' = lo_events l @ b \<and>
        Replay (lo_events l') = ReplayFrom (Replay (lo_events l)) b
    | Inl e \<Rightarrow> lo_events l' = lo_events l \<and> lo_raw l' = lo_raw l \<and>
        (if es \<noteq> [] \<and> si_tx io
         then Events io' (lo_store l') = Inr (lo_events l @ number_from (si_now io) (lastSeq (lo_events l)) 0 es)
         else lo_store l' = lo_store l)"
proof (cases r)
  case (Inl e)
  then show ?thesis using Log_AppendBatch_failed [OF assms(1) a(1) _ assms(3) refl a(3)] a(2) by simp
next
  case (Inr b)
  have good: "slog.good l" using assms(1,2) by (simp add: slog.good_def)
  have b: "b = number_from (si_now io) (lastSeq (lo_events l)) 0 es"
    using a(2) by (auto simp: Inr Log_AppendBatch_def Let_def split: if_splits option.splits prod.splits)
  have app: "store_app io l es = Some (b, l')" using a(2) by (simp add: store_app_def Inr)
  have ok: "list_all ok_event b" using a(3) by (simp add: b)
  have l: "log_inv l'" "Replay (lo_events l') = ReplayFrom (Replay (lo_events l)) b"
    using slog.app_state [OF good a(1) app ok] by (simp_all add: slog.good_def)
  then show ?thesis
    using log_inv_Events [OF l(1) assms(3)] Log_AppendBatch_inv [OF assms(1) a(1) a(2) [unfolded Inr] ok] by (simp add: Inr)
qed

lemma compact_outcome:
  assumes "log_inv l" "log_ok (lo_events l)" "si_read io'"
    and a: "lo_events l = pre @ post" "makeHistoryCheckpoint pre = Inr cp" "Log_Compact io l cp = (r, l')"
  shows "Replay (cp # post) = Replay (lo_events l) \<and>
    (case r of
      None \<Rightarrow> log_inv l' \<and> Events io' (lo_store l') = Inr (cp # post) \<and> lo_events l' = cp # post
    | Some e \<Rightarrow> lo_events l' = lo_events l \<and> lo_raw l' = lo_raw l \<and>
        (if si_tx io then Events io' (lo_store l') = Inr (cp # post) else lo_store l' = lo_store l))"
proof -
  note c = compacted_log [OF assms(1,2) a(1,2)]
  have read: "holds s (cp # post) \<Longrightarrow> Events io' s = Inr (cp # post)" for s
    using Events_holds [OF _ log_shape_sorted [OF c(4)] c(5) assms(3)] by simp
  show ?thesis
  proof (cases r)
    case None
    then show ?thesis using c(2,6) a(3) log_inv_Events [OF _ assms(3), of l'] by auto
  next
    case (Some e)
    then show ?thesis using c(3) [of io e l'] c(6) a(3) read by (auto split: if_splits)
  qed
qed

lemma shed_outcome:
  assumes "log_inv l" "si_read io'" and a: "Log_Shed io l k = ((n, r), l')"
  shows "lo_events l' = map (shed_event k) (lo_events l) \<and> Replay (lo_events l') = Replay (lo_events l) \<and>
    (case r of
      None \<Rightarrow> log_inv l' \<and> Events io' (lo_store l') = Inr (lo_events l') \<and> lo_raw l' = lo_raw l - int n
    | Some e \<Rightarrow> n = 0 \<and> lo_raw l' = lo_raw l \<and> lo_store l' = lo_store l)"
proof -
  have es: "lo_events l' = map (shed_event k) (lo_events l)"
    using a by (auto simp: Log_Shed_eq Let_def split: if_splits option.splits prod.splits)
  then have replay: "Replay (lo_events l') = Replay (lo_events l)"
    by (simp add: Replay_def ReplayFrom_def foldl_map replay_step_shed)
  show ?thesis
  proof (cases r)
    case None
    then show ?thesis
      using es replay Log_Shed_inv [OF assms(1), of io k n l'] a log_inv_Events [OF _ assms(2), of l'] by auto
  next
    case (Some e)
    then have "n = 0 \<and> lo_raw l' = lo_raw l \<and> lo_store l' = lo_store l"
      using a by (auto simp: Log_Shed_eq Replace_def Let_def split: if_splits option.splits prod.splits)
    then show ?thesis using es replay Some by simp
  qed
qed

text \<open>C29. What a supervisor has in memory and what is on disk after every operation, whatever its outcome.
  Where an append, a compaction or a shedding succeeds the two agree: reading the store back gives the
  events of the log, the raw byte count is theirs, and the replayed state is the state before advanced by
  the batch, or unchanged.  Where one fails the log is as it was, but for a failed shedding, which has
  emptied the payloads in memory already; and the file is as it was unless the transaction was made: then
  it holds the batch or the compaction that was reported as failed.\<close>

theorem store_matches_memory:
  assumes "log_inv l" "log_ok (lo_events l)" "si_read io'"
  shows "(\<forall>es r l'. no_checkpoint es \<and> Log_AppendBatch io l es = (r, l') \<and>
      list_all ok_event (number_from (si_now io) (lastSeq (lo_events l)) 0 es) \<longrightarrow>
      (case r of
        Inr b \<Rightarrow> log_inv l' \<and> Events io' (lo_store l') = Inr (lo_events l @ b) \<and> lo_events l' = lo_events l @ b \<and>
          Replay (lo_events l') = ReplayFrom (Replay (lo_events l)) b
      | Inl e \<Rightarrow> lo_events l' = lo_events l \<and> lo_raw l' = lo_raw l \<and>
          (if es \<noteq> [] \<and> si_tx io
           then Events io' (lo_store l') = Inr (lo_events l @ number_from (si_now io) (lastSeq (lo_events l)) 0 es)
           else lo_store l' = lo_store l))) \<and>
    (\<forall>pre post cp r l'. lo_events l = pre @ post \<and> makeHistoryCheckpoint pre = Inr cp \<and> Log_Compact io l cp = (r, l') \<longrightarrow>
      Replay (cp # post) = Replay (lo_events l) \<and>
      (case r of
        None \<Rightarrow> log_inv l' \<and> Events io' (lo_store l') = Inr (cp # post) \<and> lo_events l' = cp # post
      | Some e \<Rightarrow> lo_events l' = lo_events l \<and> lo_raw l' = lo_raw l \<and>
          (if si_tx io then Events io' (lo_store l') = Inr (cp # post) else lo_store l' = lo_store l))) \<and>
    (\<forall>k n r l'. Log_Shed io l k = ((n, r), l') \<longrightarrow>
      lo_events l' = map (shed_event k) (lo_events l) \<and> Replay (lo_events l') = Replay (lo_events l) \<and>
      (case r of
        None \<Rightarrow> log_inv l' \<and> Events io' (lo_store l') = Inr (lo_events l') \<and> lo_raw l' = lo_raw l - int n
      | Some e \<Rightarrow> n = 0 \<and> lo_raw l' = lo_raw l \<and> lo_store l' = lo_store l))"
proof (intro conjI allI impI; (elim conjE)?)
  fix pre post cp r l'
  assume a: "lo_events l = pre @ post" "makeHistoryCheckpoint pre = Inr cp" "Log_Compact io l cp = (r, l')"
  note c = compact_outcome [OF assms a]
  show "Replay (cp # post) = Replay (lo_events l)" by (rule c [THEN conjunct1])
  show "case r of
      None \<Rightarrow> log_inv l' \<and> Events io' (lo_store l') = Inr (cp # post) \<and> lo_events l' = cp # post
    | Some e \<Rightarrow> lo_events l' = lo_events l \<and> lo_raw l' = lo_raw l \<and>
        (if si_tx io then Events io' (lo_store l') = Inr (cp # post) else lo_store l' = lo_store l)"
    by (rule c [THEN conjunct2])
next
  fix es r l'
  assume "no_checkpoint es" "Log_AppendBatch io l es = (r, l')"
    "list_all ok_event (number_from (si_now io) (lastSeq (lo_events l)) 0 es)"
  from append_outcome [OF assms this] show "case r of
      Inr b \<Rightarrow> log_inv l' \<and> Events io' (lo_store l') = Inr (lo_events l @ b) \<and> lo_events l' = lo_events l @ b \<and>
        Replay (lo_events l') = ReplayFrom (Replay (lo_events l)) b
    | Inl e \<Rightarrow> lo_events l' = lo_events l \<and> lo_raw l' = lo_raw l \<and>
        (if es \<noteq> [] \<and> si_tx io
         then Events io' (lo_store l') = Inr (lo_events l @ number_from (si_now io) (lastSeq (lo_events l)) 0 es)
         else lo_store l' = lo_store l)" .
qed (rule shed_outcome [OF assms(1,3), THEN conjunct1] shed_outcome [OF assms(1,3), THEN conjunct2, THEN conjunct1]
    shed_outcome [OF assms(1,3), THEN conjunct2, THEN conjunct2], assumption)+

text \<open>The store log is the journal in another file: on equal events, an append with the same clock
  gives the same numbered batch, reading a range gives the same events, and compacting and
  shedding leave the same events and free the same bytes.\<close>

theorem store_refines_journal:
  assumes "lo_events l = lg_events j" "si_now io = io_now jio" "ok_event cp"
  shows "(\<forall>es b b' l' j'. AppendBatch jio j es = (Inr b, j') \<and> Log_AppendBatch io l es = (Inr b', l') \<longrightarrow>
      b' = b \<and> lo_events l' = lg_events j') \<and>
    Log_After l seq limit = After j seq limit \<and>
    (\<forall>l' j'. Compact jio j cp = (None, j') \<and> Log_Compact io l cp = (None, l') \<longrightarrow> lo_events l' = lg_events j') \<and>
    (\<forall>k n n' l' j'. Shed jio j k = (n, None, j') \<and> Log_Shed io l k = ((n', None), l') \<longrightarrow>
      n' = n \<and> lo_events l' = lg_events j')"
proof (intro conjI allI impI)
  fix es b b' l' j'
  assume a: "AppendBatch jio j es = (Inr b, j') \<and> Log_AppendBatch io l es = (Inr b', l')"
  have j: "b = number_batch (io_now jio) (lastSeq (lg_events j)) es" "lg_events j' = lg_events j @ b"
    using a by (auto simp: AppendBatch_def Let_def split: if_splits)
  have s: "b' = number_batch (si_now io) (lastSeq (lo_events l)) es" "lo_events l' = lo_events l @ b'"
    using a by (auto simp: Log_AppendBatch_eq Let_def split: if_splits option.splits prod.splits)
  show "b' = b" by (simp only: j s assms)
  show "lo_events l' = lg_events j'" by (simp only: j s assms)
next
  show "Log_After l seq limit = After j seq limit" by (simp add: Log_After_eq After_def assms(1))
next
  fix l' j'
  assume a: "Compact jio j cp = (None, j') \<and> Log_Compact io l cp = (None, l')"
  have "rewrite jio j (compact_events cp (lg_events j)) = (None, j')"
    using Compact_valid(6) [OF _ _ assms(3)] a by blast
  then have "lg_events j' = compact_events cp (lg_events j)"
    by (auto simp: rewrite_def Let_def split: if_splits)
  moreover have "lo_events l' = compact_events cp (lo_events l)"
    using a by (auto simp: Log_Compact_eq Let_def split: if_splits option.splits prod.splits)
  ultimately show "lo_events l' = lg_events j'" by (simp add: assms(1))
next
  fix k n n' l' j'
  assume a: "Shed jio j k = (n, None, j') \<and> Log_Shed io l k = ((n', None), l')"
  have n: "n = shed_freed k (lg_events j)"
    using a by (auto simp: Shed_def Let_def split: if_splits prod.splits option.splits journal_error.splits)
  have n': "n' = shed_freed k (lo_events l)" "lo_events l' = map (shed_event k) (lo_events l)"
    using a by (auto simp: Log_Shed_eq Let_def split: if_splits option.splits prod.splits)
  show "n' = n" by (simp only: n n' assms(1))
  have "lg_events j' = map (shed_event k) (lg_events j)"
  proof (cases "shed_freed k (lg_events j) = 0")
    case True
    then have "map (shed_event k) (lg_events j) = lg_events j"
      by (intro map_idI) (auto simp: shed_freed_def shed_event_def)
    then show ?thesis using a True by (simp add: Shed_def)
  next
    case False
    then have "rewrite jio j (map (shed_event k) (lg_events j)) = (None, j')"
      using a by (auto simp: Shed_def Let_def split: prod.splits option.splits journal_error.splits)
    then show ?thesis by (auto simp: rewrite_def Let_def split: if_splits)
  qed
  then show "lo_events l' = lg_events j'" by (simp add: n' assms(1))
qed


section \<open>Opening, converting\<close>

lemma cast_show_nat [simp]: "cast_number (show_nat n) = n"
proof -
  have t: "takeWhile is_digit (show_nat n) = show_nat n" by (simp add: takeWhile_eq_all_conv show_nat_digits)
  show ?thesis by (simp only: cast_number_def t read_show_nat)
qed

lemma number_update:
  "number (s\<lparr>st_meta := AList.update k v (st_meta s)\<rparr>) key = (if key = k then cast_number v else number s key)"
  by (simp add: number_def)

lemma write_meta_rows: "write_meta ok i kvs s = (r, s') \<Longrightarrow> st_rows s' = st_rows s"
  by (induction ok i kvs s rule: write_meta.induct) (auto split: if_splits)

lemma write_meta_other:
  "write_meta ok i kvs s = (r, s') \<Longrightarrow> key \<notin> fst ` set kvs \<Longrightarrow> number s' key = number s key"
proof (induction ok i kvs s rule: write_meta.induct)
  case (2 ok i k v kvs s)
  show ?case
  proof (cases "ok i")
    case True
    then have w: "write_meta ok (Suc i) kvs (s\<lparr>st_meta := AList.update k v (st_meta s)\<rparr>) = (r, s')"
      using "2.prems"(1) by simp
    have "key \<noteq> k" "key \<notin> fst ` set kvs" using "2.prems"(2) by auto
    then show ?thesis using "2.IH" [OF True w] by (simp add: number_update)
  qed (use "2.prems" in auto)
qed simp

text \<open>Opening to write never changes a record, refuses a file of a newer generation as it is, and
  leaves a file this build may write at its generation, so that no older build writes it after.\<close>

theorem Store_Open_generation:
  assumes "Store_Open io session True (Some s) = (r, f)"
  shows "(\<exists>s'. f = Some s' \<and> st_rows s' = st_rows s) \<and>
    (Schema < number s ''compat'' \<longrightarrow> \<not> is_ok r \<and> (\<exists>s'. f = Some s' \<and> st_meta s' = st_meta s)) \<and>
    (\<forall>s'. r = Inr s' \<longrightarrow> number s ''compat'' \<le> Schema \<and> Schema \<le> number s' ''schema'' \<and>
       (number s ''schema'' < Schema \<longrightarrow> number s' ''schema'' = Schema \<and> number s' ''compat'' = Compat) \<and> f = Some s')"
proof -
  let ?s = "s\<lparr>st_background := None\<rparr>"
  have n: "number ?s k = number s k" for k by (simp add: number_def)
  have g: "st_rows s' = st_rows s \<and> (ok \<longrightarrow> number s' ''schema'' = Schema \<and> number s' ''compat'' = Compat)"
    if "generation io ?s = (ok, s')" for ok s'
    using that by (auto simp: generation_def number_def split: if_splits)
  have st: "st_rows s' = st_rows s \<and> (ok \<longrightarrow> number s' ''schema'' = Schema \<and> number s' ''compat'' = Compat)"
    if "stamp io ?s = (ok, s')" for ok s'
    using that by (auto simp: stamp_def number_def split: if_splits)
  obtain ok1 s1 where s1: "stamp io ?s = (ok1, s1)" by fastforce
  obtain ok2 s2 where s2: "generation io ?s = (ok2, s2)" by fastforce
  show ?thesis
    using assms st [OF s1] g [OF s2]
    by (auto simp: Store_Open_def Let_def n s1 s2 Schema_def split: if_splits)
qed

lemma concat_chunks: "0 < k \<Longrightarrow> concat (chunks k xs) = xs"
  by (induction k xs rule: chunks.induct) auto

lemma Store_Append_meta:
  assumes "Store_Append io s es = (None, s')" "key \<noteq> ''background''"
  shows "number s' key = number s key"
proof -
  have lb: "st_meta s1 = st_meta s0" if "loadBackground i s0 = (x, s1)" for i s0 x s1
    using that by (auto simp: loadBackground_def split: sum.splits)
  have ff: "fold_frames i s0 ch xs = (r, s1) \<Longrightarrow> st_meta s1 = st_meta s0" for i s0 ch xs r s1
  proof (induction i s0 ch xs rule: fold_frames.induct)
    case (2 i s0 ch e xs)
    obtain x sx where x: "(case st_background s0 of None \<Rightarrow> loadBackground i s0 | Some _ \<Rightarrow> (None, s0)) = (x, sx)"
      by fastforce
    then have m: "st_meta sx = st_meta s0" using lb by (auto split: option.splits)
    show ?case
    proof (cases "ev_kind (FromCore e) = ''background''")
      case False
      then show ?thesis using "2.IH"(1) [OF refl] "2.prems" by (simp add: Let_def)
    next
      case True
      then have nf: "\<not> ev_kind (FromCore e) \<noteq> ''background''" by simp
      show ?thesis
      proof (cases x)
        case None
        from "2.IH"(2) [OF refl nf x [symmetric] None refl refl] show ?thesis
          using "2.prems" True m None by (simp add: Let_def x)
      qed (use "2.prems" True m in \<open>simp add: Let_def x\<close>)
    qed
  qed simp
  show ?thesis
    using assms
    by (auto simp: Store_Append_def foldBackground_def Let_def number_def dest!: ff split: if_splits prod.splits sum.splits)
qed

lemma fill_rows:
  "fill_batches ios i n s bs = ((m, None), s') \<Longrightarrow>
   st_rows s' = foldl put_row (st_rows s) (concat bs) \<and> (\<forall>key. key \<noteq> ''background'' \<longrightarrow> number s' key = number s key)"
proof (induction ios i n s bs rule: fill_batches.induct)
  case (2 ios i n s b bs)
  obtain x s1 where s1: "Store_Append (ios i) s b = (x, s1)" by fastforce
  then have x: "x = None" using "2.prems" by (cases x) simp_all
  have "fill_batches ios (Suc i) (n + length b) s1 bs = ((m, None), s')" using "2.prems" s1 x by simp
  from "2.IH" [OF s1 [symmetric] x this] show ?case
    using Store_Append_rows [of "ios i" s b s1] Store_Append_meta [of "ios i" s b s1] s1 x by simp
qed simp

lemma through_rows:
  assumes "holds s (take k es)" "log_shape es" "si_read io" "Through io s = Inr n"
  shows "filter (\<lambda>e. n < ev_seq e) es = drop k es"
proof -
  have srt: "sorted_wrt (<) (map ev_seq (take k es @ drop k es))"
    using log_shape_sorted [OF assms(2)] by simp
  have fm: "foldr max xs 0 = (if xs = [] then 0 else Max (set xs))" for xs :: "nat list"
    by (induction xs) auto
  have keys: "set (map fst (st_rows s)) = ev_seq ` set (take k es)"
    using assms(1) by (auto simp: holds_def row_of_def image_image)
  have n: "n = foldr max (map fst (st_rows s)) 0" using assms(3,4) by (simp add: Through_def)
  have low: "ev_seq e \<le> n" if "e \<in> set (take k es)" for e
  proof -
    have m: "ev_seq e \<in> set (map fst (st_rows s))" using that keys by blast
    then have "map fst (st_rows s) \<noteq> []" by force
    then show ?thesis using m unfolding n fm by (simp del: set_map)
  qed
  have high: "n < ev_seq e" if e: "e \<in> set (drop k es)" for e
  proof (cases "take k es = []")
    case True
    then have "set (map fst (st_rows s)) = {}" using keys by simp
    then have "n = 0" by (simp add: n)
    moreover have "0 < ev_seq e" using log_shape_seq_pos [OF assms(2) in_set_dropD [OF e]] .
    ultimately show ?thesis by simp
  next
    case False
    then have "set (map fst (st_rows s)) \<noteq> {}" using keys by simp
    then have "n \<in> set (map fst (st_rows s))"
      unfolding n fm by (metis List.finite_set Max_in set_empty)
    then obtain x where "x \<in> set (take k es)" "n = ev_seq x" unfolding keys by blast
    then show ?thesis using srt e unfolding map_append sorted_wrt_append by simp
  qed
  have "filter (\<lambda>e. n < ev_seq e) (take k es @ drop k es) = drop k es"
    unfolding filter_append
    using low high by (subst filter_eq_Nil, force) (subst filter_eq_self, simp_all)
  then show ?thesis by simp
qed

text \<open>C30. Converting a journal is complete and finishes what an interrupted conversion left: from a
  store that holds any first part of the journal, a conversion that succeeds leaves every record
  of the journal in it, marked, and converting again then changes nothing.\<close>

theorem Convert_complete:
  assumes "sd_journal d = Some f" "full_read f = Inr es" "list_all ok_event es" "\<forall>c. io_ok jio c"
    and "sd_store d = Some s" "holds s (take k es)" "number s ''converted'' \<noteq> 1" "si_read io"
    and "Convert io ios jio session d = (Inr n, d')"
  shows "\<exists>s'. sd_store d' = Some s' \<and> Events io s' = Inr es \<and> n = length es \<and> sd_journal d' = Some f \<and>
    Convert io ios jio session d' = (Inr 0, d')"
proof -
  obtain evs off b where sc: "scan (\<lambda>_. True) 0 (fl_bytes f) 0 0 [] = Inr (evs, off, b)" and evs: "evs = es"
    using assms(2) by (auto simp: full_read_def split: sum.splits)
  have shape: "log_shape es" using scan_shape [OF sc] by (simp add: log_shape_def evs)
  let ?r = "ReadSince jio (\<lambda>_. True) (sd_journal d) zero_cursor"
  have r: "rr_error ?r = None" "rr_events ?r = es"
    using assms(1,4) sc evs
    by (simp_all add: ReadSince_def Let_def needs_reset_def zero_cursor_def)
  have open_ro: "session \<noteq> [] \<and> si_open io"
    using assms(5,9) by (auto simp: Convert_def converted_def Store_Open_def split: if_splits)
  then have conv: "converted io session (sd_store d) = Inr False"
    using assms(5,7,8) by (simp add: converted_def Store_Open_def Let_def number_def)
  from assms(9) obtain s1 g where s1: "Store_Open io session True (sd_store d) = (Inr s1, g)"
    by (auto simp: Convert_def conv r Let_def split: sum.splits prod.splits option.splits bool.splits)
  obtain th where th: "Through io s1 = Inr th" using assms(8) by (simp add: Through_def)
  from assms(9) obtain m s2 where s2: "Fill ios s1 es th = ((m, None), s2)"
    by (auto simp: Convert_def conv r s1 th Let_def split: sum.splits prod.splits option.splits bool.splits)
  from assms(9) obtain s3 where s3: "write_meta (si_meta io) 3 [(''converted'', ''1'')] s2 = (True, s3)"
    "n = length es" "sd_store d' = Some s3" "sd_journal d' = sd_journal d"
    by (auto simp: Convert_def conv r s1 th s2 Let_def split: prod.splits bool.splits)
  have rows1: "st_rows s1 = st_rows s"
    using s1 assms(5) write_meta_rows
    by (auto simp: Store_Open_def Let_def stamp_def generation_def split: if_splits prod.splits)
  have h1: "holds s1 (take k es)" using assms(6) rows1 by (simp add: holds_def)
  have "st_rows s2 = foldl put_row (st_rows s1) (drop k es)"
    using fill_rows [of ios 0 0 s1 _ m s2] s2 through_rows [OF h1 shape assms(8) th]
    by (simp add: Fill_def concat_chunks)
  then have h2: "holds s2 es"
    using put_rows_holds [OF h1, of "drop k es" s2] log_shape_sorted [OF shape]
      sorted_wrt_append [of "(<)" "map ev_seq (take k es)" "map ev_seq (drop k es)"]
    by (simp flip: map_append)
  have "st_rows s3 = st_rows s2" using write_meta_rows [OF s3(1)] .
  then have h3: "holds s3 es" using h2 by (simp add: holds_def)
  have marked: "number s3 ''converted'' = 1"
    using s3(1) by (auto simp: number_def cast_number_def is_digit_def read_nat_def split: if_splits)
  have "converted io session (Some s3) = Inr True"
    using open_ro assms(8) marked by (simp add: converted_def Store_Open_def Let_def number_def)
  then have "Convert io ios jio session d' = (Inr 0, d')" using s3(3) by (simp add: Convert_def)
  then show ?thesis
    using Events_holds [OF h3 log_shape_sorted [OF shape] assms(3,8)] s3 assms(1) by auto
qed


section \<open>State, the tail, and a reduction that fails\<close>

text \<open>The recorded state is read back as it was recorded, whatever was recorded before, and
  recording it changes no event.\<close>

theorem State_roundtrip:
  assumes "ok_snapshot snap" "SetState io s snap = (None, s')" "si_read io'"
  shows "State io' s' = Inr (Some snap) \<and> st_rows s' = st_rows s"
proof -
  let ?j = "JObj [(''snapshot'', snapshot_json snap)]"
  have "wf_json (snapshot_json snap)"
    using assms(1) wf_events_json by (simp add: snapshot_json_def omit_def ok_snapshot_def)
  then have "unmarshal dec_state (print_json ?j) zero_snapshot = (snap, True)"
    using parse_print_json [of ?j] dec_snapshot_json [OF assms(1)]
    by (simp add: unmarshal_def dec_state_def dec_field_def key_simps del: print_json.simps)
  then show ?thesis
    using assms(2,3) by (auto simp: SetState_def State_def split: if_splits)
qed

text \<open>\<open>Recent\<close> is the end of the conversation: its last records, in order, never more than asked for.\<close>

theorem Recent_correct:
  assumes "log_inv l" "si_read io"
  shows "Recent io (lo_store l) limit = Inr (drop (length (lo_events l) - nat limit) (lo_events l))"
proof (cases "limit \<le> 0")
  case False
  let ?es = "lo_events l"
  have o: "ordered_rows (lo_store l) = map row_of ?es"
    using assms(1) by (auto simp: log_inv_def intro: ordered_holds log_shape_sorted)
  have "map snd (rev (take (nat limit) (rev (map row_of ?es)))) = map event_row (drop (length ?es - nat limit) ?es)"
    by (simp add: rev_map [symmetric] take_map [symmetric] rev_take row_of_def comp_def flip: drop_map)
  moreover have "list_all ok_event (drop (length ?es - nat limit) ?es)"
    using assms(1) by (auto simp: log_inv_def list_all_iff dest: in_set_dropD)
  ultimately show ?thesis
    using False assms(2) by (simp add: Recent_def o records_rows)
qed (simp add: Recent_def)

text \<open>C31. When the reading projection cannot be reduced the batch is committed all the same, but the
  append fails: the file holds the batch, the log in memory does not, and a log opened from the
  file has it.\<close>

theorem reduce_failure:
  assumes "log_inv l" "no_checkpoint es" "es \<noteq> []" "si_tx io" "\<not> si_sync io" "si_read io'"
    and "batch = number_batch (si_now io) (lastSeq (lo_events l)) es" "list_all ok_event batch"
  shows "fst (Log_AppendBatch io l es) = Inl Reduce_error \<and>
    lo_events (snd (Log_AppendBatch io l es)) = lo_events l \<and>
    Events io' (lo_store (snd (Log_AppendBatch io l es))) = Inr (lo_events l @ batch)"
proof -
  let ?s = "(lo_store l)\<lparr>st_rows := foldl put_row (st_rows (lo_store l)) batch\<rparr>"
  have ne: "batch \<noteq> []" using assms(3,7) by simp
  have r: "Log_AppendBatch io l es = (Inl Reduce_error, l\<lparr>lo_store := ?s\<rparr>)"
    using assms(3-5) ne by (simp add: Log_AppendBatch_eq Store_Append_def Let_def assms(7))
  have i: "log_shape (lo_events l)" "holds (lo_store l) (lo_events l)" "list_all ok_event (lo_events l)"
    using assms(1) by (simp_all add: log_inv_def)
  have c: "contiguous (lastSeq (lo_events l)) batch" using number_batch_contiguous [OF assms(2)] by (simp add: assms(7))
  have "holds ?s (lo_events l @ batch)"
    by (rule put_rows_holds [OF i(2) after_last [OF i(1) c] contiguous_sorted [OF c]]) simp
  then show ?thesis
    using Events_holds [of ?s "lo_events l @ batch" io'] log_shape_sorted [OF log_shape_append [OF i(1) c]]
      i(3) assms(6,8) by (simp add: r)
qed

section \<open>Concrete instances\<close>

definition store_fine :: store_io where
  "store_fine = \<lparr>si_open = True, si_tx = True, si_sync = True, si_read = True, si_meta = (\<lambda>_. True), si_now = 7\<rparr>"

definition sample_store :: "event list \<Rightarrow> store" where
  "sample_store es = \<lparr>st_rows = map row_of es, st_meta = [(''schema'', ''1''), (''compat'', ''1'')], st_background = None\<rparr>"

definition sample_events :: "event list" where
  "sample_events = [sample_event 1, sample_event 2]"

definition sample_store_log :: store_log where
  "sample_store_log = \<lparr>lo_store = sample_store sample_events, lo_events = sample_events, lo_raw = 0\<rparr>"

lemma store_fine_simps [simp]:
  "si_open store_fine" "si_tx store_fine" "si_sync store_fine" "si_read store_fine" "si_meta store_fine i" "si_now store_fine = 7"
  by (simp_all add: store_fine_def)

lemma sample_event_ok: "n < 2 ^ 64 \<Longrightarrow> ok_event (sample_event n)"
  by (simp add: sample_event_def zero_event_def ok_event_def)

lemma sample_store_holds: "distinct (map ev_seq es) \<Longrightarrow> holds (sample_store es) es"
  by (simp add: holds_def sample_store_def wf_map_def row_of_def comp_def)

lemma sample_events_ok: "log_ok sample_events" "log_shape sample_events" "list_all ok_event sample_events"
  "distinct (map ev_seq sample_events)" "lastSeq sample_events = 2"
  by (simp_all add: sample_events_def log_ok_def log_shape_def sample_event_ok lastSeq_def)
    (simp_all add: sample_event_def kind_defs)

lemma sample_store_inv: "log_inv sample_store_log"
  using sample_events_ok sample_store_holds [of sample_events]
  by (simp add: log_inv_def sample_store_log_def raw_total_def)
    (simp add: sample_events_def sample_event_def zero_event_def)

lemma sample_numbered: "number_batch 7 2 [sample_event 0] = [sample_event 3]"
  by (simp add: sample_event_def)

theorem store_matches_memory_witness:
  "\<exists>l'. Log_AppendBatch store_fine sample_store_log [sample_event 0] = (Inr [sample_event 3], l') \<and>
     Events store_fine (lo_store l') = Inr (sample_events @ [sample_event 3])"
proof -
  have n: "number_batch 7 (lastSeq (lo_events sample_store_log)) [sample_event 0] = [sample_event 3]"
    using sample_numbered by (simp add: sample_store_log_def sample_events_ok del: number_batch.simps)
  have bg: "foldBackground store_fine s [sample_event 3] = (None, s)" for s
    by (simp add: foldBackground_def FromCore_def sample_event_def kind_defs)
  obtain l' where l': "Log_AppendBatch store_fine sample_store_log [sample_event 0] = (Inr [sample_event 3], l')"
    by (simp add: Log_AppendBatch_eq Store_Append_def Let_def n bg del: number_batch.simps)
  have "no_checkpoint [sample_event 0]" by (simp add: sample_event_def kind_defs)
  then have pre: "no_checkpoint [sample_event 0] \<and>
      Log_AppendBatch store_fine sample_store_log [sample_event 0] = (Inr [sample_event 3], l') \<and>
      list_all ok_event (number_from (si_now store_fine) (lastSeq (lo_events sample_store_log)) 0 [sample_event 0])"
    using l' sample_event_ok [of 3] n by (simp add: number_from_batch del: number_from.simps number_batch.simps)
  have "log_ok (lo_events sample_store_log)" "si_read store_fine"
    using sample_events_ok(1) by (simp_all add: sample_store_log_def)
  from store_matches_memory [OF sample_store_inv this, THEN conjunct1, rule_format, OF pre]
  have "Events store_fine (lo_store l') = Inr (lo_events sample_store_log @ [sample_event 3])" by simp
  then show ?thesis using l' by (simp add: sample_store_log_def)
qed

theorem store_refines_journal_witness:
  "Log_After sample_store_log 1 5 = After \<lparr>lg_file = [], lg_events = sample_events\<rparr> 1 5"
  using store_refines_journal [of sample_store_log "\<lparr>lg_file = [], lg_events = sample_events\<rparr>" store_fine
      "io_fine\<lparr>io_now := 7\<rparr>" "sample_event 1" 1 5] sample_event_ok [of 1]
  by (simp add: sample_store_log_def io_fine_def)

theorem Store_Open_generation_witness:
  "\<exists>s'. snd (Store_Open store_fine ''s'' True (Some (sample_store sample_events))) = Some s' \<and>
     number s' ''compat'' = 2 \<and> st_rows s' = map row_of sample_events"
proof -
  let ?s = "sample_store sample_events"
  have n: "number ?s ''schema'' = 1" "number ?s ''compat'' = 1"
    by (simp_all add: number_def sample_store_def cast_number_def is_digit_def read_nat_def)
  obtain s' where r: "Store_Open store_fine ''s'' True (Some ?s) = (Inr s', snd (Store_Open store_fine ''s'' True (Some ?s)))"
    using n by (simp add: Store_Open_def Let_def number_def Schema_def generation_def)
  from Store_Open_generation [OF r] n show ?thesis
    by (auto simp: Schema_def Compat_def sample_store_def)
qed

theorem Convert_complete_witness:
  "\<exists>n d'. Convert store_fine (\<lambda>_. store_fine) io_fine ''s''
      \<lparr>sd_journal = Some (sample_file (concat (map event_line sample_events))),
       sd_store = Some (sample_store [sample_event 1])\<rparr> = (Inr n, d') \<and>
     (\<exists>s'. sd_store d' = Some s' \<and> Events store_fine s' = Inr sample_events)"
proof -
  let ?f = "sample_file (concat (map event_line sample_events))"
  let ?s = "sample_store [sample_event 1]"
  let ?d = "\<lparr>sd_journal = Some ?f, sd_store = Some ?s\<rparr>"
  have lo: "jl.lines_ok 0 (map Single sample_events)" using singles_ok sample_events_ok by blast
  have sc: "scan (\<lambda>_. True) 0 (concat (map event_line sample_events)) 0 0 [] =
      Inr (sample_events, length (concat (map event_line sample_events)), [])"
    using scan_committed [OF lo, of "[]"] by (simp del: map_map)
  have full: "full_read ?f = Inr sample_events" by (simp add: full_read_def sample_file_def sc)
  have h: "holds ?s (take 1 sample_events)"
    using sample_store_holds [of "[sample_event 1]"] by (simp add: sample_events_def)
  have n: "number ?s k = (if k = ''schema'' \<or> k = ''compat'' then 1 else 0)" for k
    by (simp add: number_def sample_store_def cast_number_def is_digit_def read_nat_def)
  obtain s1 where s1: "Store_Open store_fine ''s'' True (Some ?s) = (Inr s1, Some s1)" "st_rows s1 = st_rows ?s"
    using n [of "''schema''"] n [of "''compat''"]
    by (simp add: Store_Open_def Let_def number_def Schema_def generation_def)
  have th: "Through store_fine s1 = Inr 1" by (simp add: Through_def s1(2) sample_store_def row_of_def sample_seq)
  have bg: "foldBackground store_fine s [sample_event 2] = (None, s)" for s
    by (simp add: foldBackground_def FromCore_def sample_event_def kind_defs)
  obtain s2 where s2: "Fill (\<lambda>_. store_fine) s1 sample_events 1 = ((1, None), s2)"
    by (simp add: Fill_def sample_events_def sample_seq Store_Append_def Let_def bg)
  have rs: "rr_error (ReadSince io_fine (\<lambda>_. True) (Some ?f) zero_cursor) = None"
    "rr_events (ReadSince io_fine (\<lambda>_. True) (Some ?f) zero_cursor) = sample_events"
    by (simp_all add: ReadSince_def Let_def needs_reset_def zero_cursor_def sample_file_def sc)
  have cv: "converted store_fine ''s'' (Some ?s) = Inr False"
    using n by (simp add: converted_def Store_Open_def Let_def number_def)
  obtain n' d' where c: "Convert store_fine (\<lambda>_. store_fine) io_fine ''s'' ?d = (Inr n', d')"
    by (simp add: Convert_def cv rs s1(1) th s2 Let_def del: One_nat_def)
  have "number ?s ''converted'' \<noteq> 1" using n by simp
  from Convert_complete [OF _ full sample_events_ok(3) _ _ h this _ c] c show ?thesis by auto
qed

theorem State_roundtrip_witness:
  "State store_fine (snd (SetState store_fine (sample_store []) (zero_snapshot\<lparr>sn_queued := ''q''\<rparr>))) =
     Inr (Some (zero_snapshot\<lparr>sn_queued := ''q''\<rparr>))"
proof -
  have r: "SetState store_fine (sample_store []) (zero_snapshot\<lparr>sn_queued := ''q''\<rparr>) =
      (None, snd (SetState store_fine (sample_store []) (zero_snapshot\<lparr>sn_queued := ''q''\<rparr>)))"
    by (simp add: SetState_def)
  have "ok_snapshot (zero_snapshot\<lparr>sn_queued := ''q''\<rparr>)" by (simp add: ok_snapshot_def zero_snapshot_def)
  from State_roundtrip [OF this r, of store_fine] show ?thesis by simp
qed

theorem Recent_correct_witness: "Recent store_fine (sample_store sample_events) 1 = Inr [sample_event 2]"
  using Recent_correct [OF sample_store_inv, of store_fine 1] by (simp add: sample_store_log_def sample_events_def)

theorem reduce_failure_witness:
  "fst (Log_AppendBatch (store_fine\<lparr>si_sync := False\<rparr>) sample_store_log [sample_event 0]) = Inl Reduce_error \<and>
   Events store_fine (lo_store (snd (Log_AppendBatch (store_fine\<lparr>si_sync := False\<rparr>) sample_store_log [sample_event 0]))) =
     Inr (sample_events @ [sample_event 3])"
proof -
  have n: "[sample_event 3] = number_batch (si_now (store_fine\<lparr>si_sync := False\<rparr>)) (lastSeq (lo_events sample_store_log)) [sample_event 0]"
    using sample_numbered by (simp add: sample_store_log_def sample_events_ok del: number_batch.simps)
  have "no_checkpoint [sample_event 0]" by (simp add: sample_event_def kind_defs)
  from reduce_failure [OF sample_store_inv this _ _ _ _ n, of store_fine]
  show ?thesis using sample_event_ok [of 3] by (simp add: sample_store_log_def)
qed

end
