(* ===== verification/Policy.thy ===== *)
theory Policy
  imports Core
begin

text \<open>
  \<^verbatim>\<open>internal/historypolicy\<close>: the limits of the history retention (policy.go) and the durable
  floors below which trimmed history never comes back (database.go).  Go's \<open>int\<close> and \<open>int64\<close>
  are integers reduced by \<open>wrap64\<close> after each multiplication.
\<close>

definition wrap64 :: "int \<Rightarrow> int" where
  "wrap64 x = (x + 2 ^ 63) mod 2 ^ 64 - 2 ^ 63"

lemma wrap64_id [simp]: "- (2 ^ 63) \<le> x \<Longrightarrow> x < 2 ^ 63 \<Longrightarrow> wrap64 x = x"
  by (simp add: wrap64_def)

definition MiB :: int where
  "MiB = 2 ^ 20"

record policy =
  po_disabled :: bool
  po_max :: int
  po_raw :: int
  po_window :: int
  po_turns :: int

definition zero_policy :: policy where
  "zero_policy = \<lparr>po_disabled = False, po_max = 0, po_raw = 0, po_window = 0, po_turns = 0\<rparr>"

definition RawLimit :: "policy \<Rightarrow> int" where
  "RawLimit p =
     (if po_disabled p then 0
      else if po_raw p = 0 then 20 * MiB
      else wrap64 (po_raw p * MiB))"

definition Limits :: "policy \<Rightarrow> int \<times> int \<times> int" where
  "Limits p =
     (let disk = wrap64 (po_max p * MiB);
          disk = (if disk = 0 then 100 * MiB else disk);
          disk = (if po_disabled p then 0 else disk);
          size = wrap64 (po_window p * MiB);
          size = (if size = 0 then 10 * MiB else size);
          turns = (if po_turns p = 0 then 200 else po_turns p)
      in (disk, size, turns))"

datatype policy_error = Invalid_limits | Unreadable | Bad_policy | Write_failed

definition Validate :: "policy \<Rightarrow> policy_error option" where
  "Validate p =
     (if po_max p < 0 \<or> po_max p > 10240 \<or> po_raw p < 0 \<or> po_raw p > 10240 \<or> po_window p < 0
         \<or> po_window p > 1024 \<or> po_turns p < 0 \<or> po_turns p > 10000
      then Some Invalid_limits else None)"

definition policy_json :: "policy \<Rightarrow> json" where
  "policy_json p = JObj (
     omit (\<not> po_disabled p) ''disabled'' (JBool True) @
     omit (po_max p = 0) ''max_mib'' (JInt (po_max p)) @
     omit (po_raw p = 0) ''raw_mib'' (JInt (po_raw p)) @
     omit (po_window p = 0) ''window_mib'' (JInt (po_window p)) @
     omit (po_turns p = 0) ''window_turns'' (JInt (po_turns p)))"

definition dec_policy :: "policy dec" where
  "dec_policy = dec_struct (\<lambda>kvs v.
     let (a, oka) = dec_field ''disabled'' dec_bool kvs (po_disabled v);
         (b, okb) = dec_field ''max_mib'' dec_int64 kvs (po_max v);
         (c, okc) = dec_field ''raw_mib'' dec_int64 kvs (po_raw v);
         (d, okd) = dec_field ''window_mib'' dec_int64 kvs (po_window v);
         (e, oke) = dec_field ''window_turns'' dec_int64 kvs (po_turns v)
     in (\<lparr>po_disabled = a, po_max = b, po_raw = c, po_window = d, po_turns = e\<rparr>,
         oka \<and> okb \<and> okc \<and> okd \<and> oke))"

text \<open>The policy file: absent, unreadable, or the document its bytes hold (\<open>None\<close> when they hold
  none).\<close>

datatype policy_file = Absent | Denied | Document "json option"

text \<open>\<open>core.WriteJSON\<close> replaces the file whole by a rename.  It fails before the rename, after it
  when only the directory sync fails, or not at all.\<close>

datatype write_outcome = Write_refused | Write_unsynced | Write_done

definition WriteJSON :: "write_outcome \<Rightarrow> policy_file \<Rightarrow> json \<Rightarrow> bool \<times> policy_file" where
  "WriteJSON w f j =
     (case w of
        Write_refused \<Rightarrow> (False, f)
      | Write_unsynced \<Rightarrow> (False, Document (Some j))
      | Write_done \<Rightarrow> (True, Document (Some j)))"

definition Load :: "policy_file \<Rightarrow> policy \<times> policy_error option" where
  "Load f =
     (case f of
        Absent \<Rightarrow> (zero_policy, None)
      | Denied \<Rightarrow> (zero_policy, Some Unreadable)
      | Document b \<Rightarrow>
          (case unmarshal_payload dec_policy b zero_policy of
             (p, ok) \<Rightarrow> if \<not> ok then (p, Some Bad_policy) else (p, Validate p)))"

definition Save :: "write_outcome \<Rightarrow> policy_file \<Rightarrow> policy \<Rightarrow> policy_error option \<times> policy_file" where
  "Save w f p =
     (case Validate p of
        Some e \<Rightarrow> (Some e, f)
      | None \<Rightarrow>
          (case WriteJSON w f (policy_json p) of
             (ok, f') \<Rightarrow> (if ok then None else Some Write_failed, f')))"

record window =
  wi_mib :: int
  wi_turns :: int

definition window_policy :: "window \<Rightarrow> policy" where
  "window_policy w = zero_policy\<lparr>po_window := wi_mib w, po_turns := wi_turns w\<rparr>"

definition Window_Limits :: "window \<Rightarrow> int \<times> int" where
  "Window_Limits w = (case Limits (window_policy w) of (_, b, t) \<Rightarrow> (b, t))"

definition Window_Validate :: "window \<Rightarrow> policy_error option" where
  "Window_Validate w = Validate (window_policy w)"

section \<open>Floors\<close>

text \<open>The tables a transaction sees: \<open>None\<close> for a floor table that does not exist yet.  \<open>ok i\<close> is
  whether the i-th statement of the call succeeds.\<close>

record floor_db =
  fd_floors :: "(string, nat) gomap option"
  fd_events :: "(string \<times> nat \<times> bytes) list"
  fd_version :: nat

definition floors_of :: "floor_db \<Rightarrow> (string, nat) gomap" where
  "floors_of d = (case fd_floors d of None \<Rightarrow> [] | Some m \<Rightarrow> m)"

definition Floor :: "(nat \<Rightarrow> bool) \<Rightarrow> floor_db \<Rightarrow> string \<Rightarrow> nat option \<times> floor_db" where
  "Floor ok d i =
     (if \<not> ok 0 then (None, d)
      else
        let d = d\<lparr>fd_floors := Some (floors_of d)\<rparr>
        in if \<not> ok 1 then (None, d) else (Some (get_or 0 (floors_of d) i), d))"

definition ForgetFloor :: "(nat \<Rightarrow> bool) \<Rightarrow> floor_db \<Rightarrow> string \<Rightarrow> bool \<times> floor_db" where
  "ForgetFloor ok d i =
     (if \<not> ok 0 then (False, d)
      else
        let d = d\<lparr>fd_floors := Some (floors_of d)\<rparr>
        in if \<not> ok 1 then (False, d) else (True, d\<lparr>fd_floors := Some (AList.delete i (floors_of d))\<rparr>))"

definition AdvanceFloor :: "(nat \<Rightarrow> bool) \<Rightarrow> floor_db \<Rightarrow> string \<Rightarrow> nat \<Rightarrow> bool \<times> floor_db" where
  "AdvanceFloor ok d i n =
     (case Floor ok d i of
        (None, d) \<Rightarrow> (False, d)
      | (Some old, d) \<Rightarrow>
          if n \<le> old then (True, d)
          else if \<not> ok 2 then (False, d)
          else
            let d = d\<lparr>fd_floors := Some (AList.update i n (floors_of d))\<rparr>
            in if \<not> ok 3 then (False, d)
            else
              let d = d\<lparr>fd_events := filter (\<lambda>(s, q, _). \<not> (s = i \<and> q \<le> n)) (fd_events d)\<rparr>
              in if \<not> ok 4 then (False, d) else (True, d\<lparr>fd_version := 2\<rparr>))"

section \<open>Lemmas\<close>

lemma Validate_bounds:
  "Validate p = None \<longleftrightarrow> 0 \<le> po_max p \<and> po_max p \<le> 10240 \<and> 0 \<le> po_raw p \<and> po_raw p \<le> 10240 \<and>
     0 \<le> po_window p \<and> po_window p \<le> 1024 \<and> 0 \<le> po_turns p \<and> po_turns p \<le> 10000"
  by (auto simp: Validate_def)

lemma dec_policy_json: "Validate p = None \<Longrightarrow> dec_policy (policy_json p) zero_policy = (p, True)"
proof -
  assume "Validate p = None"
  then have "- (2 ^ 63) \<le> po_max p" "po_max p < 2 ^ 63" "- (2 ^ 63) \<le> po_raw p" "po_raw p < 2 ^ 63"
    "- (2 ^ 63) \<le> po_window p" "po_window p < 2 ^ 63" "- (2 ^ 63) \<le> po_turns p" "po_turns p < 2 ^ 63"
    unfolding Validate_bounds by simp_all
  then show ?thesis
    by (simp add: dec_policy_def policy_json_def dec_simps key_simps zero_policy_def)
qed

text \<open>C33. A policy that was saved is the policy that loads; one that is out of range is refused and
  leaves the file as it was; and a policy that loads without an error is in range.\<close>

theorem policy_roundtrip:
  "(Validate p = None \<longrightarrow> fst (Save w f p) = None \<longrightarrow> Load (snd (Save w f p)) = (p, None)) \<and>
   (Validate p \<noteq> None \<longrightarrow> Save w f p = (Some Invalid_limits, f)) \<and>
   (snd (Load f) = None \<longrightarrow> Validate (fst (Load f)) = None)"
proof -
  have v: "Validate p = None \<or> Validate p = Some Invalid_limits" by (simp add: Validate_def)
  have z: "Validate zero_policy = None" by (simp add: Validate_def zero_policy_def)
  have "Load (snd (Save w f p)) = (p, None)" if "Validate p = None" "fst (Save w f p) = None"
    using that dec_policy_json [OF that(1)]
    by (cases w) (simp_all add: Save_def WriteJSON_def Load_def unmarshal_payload_def)
  moreover have "Save w f p = (Some Invalid_limits, f)" if "Validate p \<noteq> None"
    using that v by (auto simp: Save_def)
  moreover have "Validate (fst (Load f)) = None" if "snd (Load f) = None"
    using that z by (auto simp: Load_def split: policy_file.splits prod.splits if_splits)
  ultimately show ?thesis by blast
qed

theorem policy_roundtrip_witness:
  "Load (snd (Save Write_done Absent (zero_policy\<lparr>po_max := 3\<rparr>))) = (zero_policy\<lparr>po_max := 3\<rparr>, None)"
  using policy_roundtrip [of "zero_policy\<lparr>po_max := 3\<rparr>" Write_done Absent]
  by (simp add: Validate_def zero_policy_def Save_def WriteJSON_def)

text \<open>The limits of a valid policy are what its numbers say, in bytes and without wrapping: each
  default for a zero, nothing to enforce when retention is disabled, and never above 10 GiB.\<close>

theorem limits_exact:
  assumes "Validate p = None"
  shows "RawLimit p = (if po_disabled p then 0 else if po_raw p = 0 then 20 * 2 ^ 20 else po_raw p * 2 ^ 20) \<and>
    Limits p = (if po_disabled p then 0 else if po_max p = 0 then 100 * 2 ^ 20 else po_max p * 2 ^ 20,
      if po_window p = 0 then 10 * 2 ^ 20 else po_window p * 2 ^ 20,
      if po_turns p = 0 then 200 else po_turns p) \<and>
    0 \<le> RawLimit p \<and> RawLimit p \<le> 10240 * 2 ^ 20 \<and> 0 \<le> fst (Limits p) \<and> fst (Limits p) \<le> 10240 * 2 ^ 20"
proof -
  have r: "0 \<le> po_max p" "po_max p \<le> 10240" "0 \<le> po_raw p" "po_raw p \<le> 10240" "0 \<le> po_window p" "po_window p \<le> 1024"
    using assms unfolding Validate_bounds by simp_all
  have w: "wrap64 (po_max p * MiB) = po_max p * MiB" "wrap64 (po_raw p * MiB) = po_raw p * MiB"
    "wrap64 (po_window p * MiB) = po_window p * MiB"
    using r by (simp_all add: MiB_def)
  show ?thesis using r by (simp add: RawLimit_def Limits_def w Let_def) (simp add: MiB_def)
qed

theorem limits_exact_witness:
  "Limits (zero_policy\<lparr>po_max := 3\<rparr>) = (3 * 2 ^ 20, 10 * 2 ^ 20, 200)"
  using limits_exact [of "zero_policy\<lparr>po_max := 3\<rparr>"] by (simp add: Validate_def zero_policy_def)

text \<open>C34. A floor only rises, and a floor that was raised leaves none of that session's events at or
  below it, every other session's floor and events as they were, and a schema version older
  releases refuse.\<close>

theorem AdvanceFloor_correct:
  assumes "AdvanceFloor ok d i n = (True, d')"
  shows "get_or 0 (floors_of d') i = max n (get_or 0 (floors_of d) i) \<and>
    (\<forall>j. j \<noteq> i \<longrightarrow> get_or 0 (floors_of d') j = get_or 0 (floors_of d) j) \<and>
    (get_or 0 (floors_of d) i < n \<longrightarrow> (\<forall>q b. (i, q, b) \<in> set (fd_events d') \<longrightarrow> n < q) \<and> fd_version d' = 2) \<and>
    (\<forall>s q b. s \<noteq> i \<longrightarrow> ((s, q, b) \<in> set (fd_events d') \<longleftrightarrow> (s, q, b) \<in> set (fd_events d))) \<and>
    (\<forall>q b. (i, q, b) \<in> set (fd_events d) \<and> max n (get_or 0 (floors_of d) i) < q \<longrightarrow> (i, q, b) \<in> set (fd_events d'))"
  using assms
  by (auto simp: AdvanceFloor_def Floor_def floors_of_def Let_def max_def get_or_def split: if_splits option.splits)

theorem AdvanceFloor_correct_witness:
  "fd_events (snd (AdvanceFloor (\<lambda>_. True) \<lparr>fd_floors = None, fd_events = [(''a'', 1, []), (''a'', 2, []), (''b'', 1, [])],
     fd_version = 1\<rparr> ''a'' 1)) = [(''a'', 2, []), (''b'', 1, [])] \<and>
   get_or 0 (floors_of (snd (AdvanceFloor (\<lambda>_. True) \<lparr>fd_floors = None,
     fd_events = [(''a'', 1, []), (''a'', 2, []), (''b'', 1, [])], fd_version = 1\<rparr> ''a'' 1))) ''a'' = 1"
proof -
  let ?d = "\<lparr>fd_floors = None, fd_events = [(''a'', 1, []), (''a'', 2, []), (''b'', 1, [])], fd_version = 1\<rparr>"
  have r: "AdvanceFloor (\<lambda>_. True) ?d ''a'' 1 = (True, snd (AdvanceFloor (\<lambda>_. True) ?d ''a'' 1))"
    by (simp add: AdvanceFloor_def Floor_def floors_of_def Let_def)
  show ?thesis
    using AdvanceFloor_correct [OF r]
    by (simp add: AdvanceFloor_def Floor_def floors_of_def Let_def)
qed

end
