(* ===== verification/Sup_State.thy ===== *)
theory Sup_State
  imports Models Session_Store Policy
begin

text \<open>
  The state of \<^verbatim>\<open>internal/supervisor\<close> and the operations everything else is written with: recording an
  event, writing to the agent, the waiting message, the settings and the model catalog, the quota
  polls, the metadata of a response, and the readiness for an update.

  An operation is a function from the state to \<open>Some\<close> of the state it leaves; \<open>None\<close> is the panic
  the code raises when a record cannot be made durable.  The clock, what the agent's standard input
  and the database answer, and the processes of the agent are in \<open>env\<close>; times are nanoseconds and a
  zero \<open>time.Time\<close> is \<open>None\<close>.  One call under the lock reads the clock as one instant.
\<close>

section \<open>State\<close>

record session =
  ss_id :: string
  ss_workspace :: string
  ss_agent :: string
  ss_supervisor :: string
  ss_kind :: string
  ss_model :: string
  ss_project :: string
  ss_account :: string
  ss_fork :: "(string \<times> string) option"   \<comment> \<open>vendor id and native path of the origin\<close>

record tracking =
  tr_started :: "int option"
  tr_last :: nat
  tr_final :: nat
  tr_phase :: string
  tr_tools :: int
  tr_metrics :: "(string, json) gomap"

definition zero_tracking :: tracking where
  "zero_tracking = \<lparr>tr_started = None, tr_last = 0, tr_final = 0, tr_phase = [], tr_tools = 0, tr_metrics = []\<rparr>"

record progress =
  pg_last :: "int option"
  pg_interrupt :: "int option"
  pg_items :: "(string, bool) gomap"

definition zero_progress :: progress where
  "zero_progress = \<lparr>pg_last = None, pg_interrupt = None, pg_items = []\<rparr>"

record polling =
  bp_id :: string
  bp_sequence :: nat
  bp_requested :: "int option"
  bp_next :: "int option"
  bp_disabled :: bool
  bp_pages :: int
  bp_cursors :: "(string, bool) gomap"
  bp_tasks :: "(string, background_task) gomap option"
  bp_published :: "json option"

record codex =
  cx_turn :: string
  cx_progress :: progress
  cx_seen :: "(string, bool) gomap"
  cx_replies :: "(string, event) gomap"
  cx_steering :: "(string, command) gomap"
  cx_polling :: polling

definition zero_codex :: codex where
  "zero_codex = \<lparr>cx_turn = [], cx_progress = zero_progress, cx_seen = [], cx_replies = [], cx_steering = [],
     cx_polling = \<lparr>bp_id = [], bp_sequence = 0, bp_requested = None, bp_next = None, bp_disabled = False, bp_pages = 0,
       bp_cursors = [], bp_tasks = None, bp_published = None\<rparr>\<rparr>"

record sup =
  sp_session :: session
  sp_log :: store_log
  sp_snap :: snapshot
  sp_pending :: "(string, event) gomap"
  sp_receipts :: "(string, command_record) gomap"
  sp_stopping :: bool
  sp_interrupted :: bool
  sp_batch :: "event list"
  sp_buffering :: bool
  sp_codex :: "codex option"
  sp_mcp :: string
  sp_activity :: "int option"
  sp_clients :: "(string, int \<times> bool) gomap"
  sp_tools :: "(string, bool) gomap"
  sp_background :: background_state
  sp_unknown :: bool
  sp_blocked :: bool
  sp_quota_fallback :: "int option"
  sp_quota_root :: string
  sp_quota_token :: string
  sp_quota_lease :: string
  sp_quota_observed :: int
  sp_quota_disabled :: bool
  sp_quota_requested :: "int option"
  sp_quota_checking :: bool
  sp_options :: "model_option list"
  sp_model_requested :: "int option"
  sp_model_disabled :: bool
  sp_model_source :: string
  sp_model_pages :: "model_option list"
  sp_effort :: string
  sp_applied_model :: string
  sp_applied_effort :: string
  sp_settings_seq :: nat
  sp_settings_request :: string
  sp_settings_for :: string
  sp_setting_pending :: string
  sp_context :: response_metadata
  sp_tracking :: tracking
  sp_out :: "json list"    \<comment> \<open>what was written to the agent, delivered or not\<close>
  sp_killed :: bool

record quota_snapshot =
  qs_payload :: "json option"
  qs_observed :: int
  qs_lease :: string

record env =
  en_now :: int
  en_write :: "nat \<Rightarrow> bool"          \<comment> \<open>whether the n-th write to the agent succeeds\<close>
  en_io :: "nat \<Rightarrow> store_io"         \<comment> \<open>what the database answers after the n-th record\<close>
  en_busy :: string                 \<comment> \<open>\<open>busyProcess\<close>\<close>
  en_lib :: lib
  en_exchange :: "string \<Rightarrow> json option \<Rightarrow> (quota_snapshot \<times> bool) option"   \<comment> \<open>the quota coordinator\<close>
  en_token :: "(string \<Rightarrow> bool \<Rightarrow> (string \<times> string \<times> string option) option) option"  \<comment> \<open>brokered tokens\<close>
  en_policy :: "policy option"      \<comment> \<open>\<open>historypolicy.Load\<close>\<close>
  en_timeout :: "int option"        \<comment> \<open>\<open>CXZ_CODEX_PROGRESS_TIMEOUT\<close>\<close>
  en_idle :: int                    \<comment> \<open>\<open>UpdateIdlePeriod\<close>\<close>

definition seconds :: "int \<Rightarrow> int" where "seconds n = n * 1000000000"
definition millis :: "env \<Rightarrow> int" where "millis env = en_now env div 1000000"

definition the_codex :: "sup \<Rightarrow> codex" where
  "the_codex s = (case sp_codex s of None \<Rightarrow> zero_codex | Some c \<Rightarrow> c)"

definition on_codex :: "(codex \<Rightarrow> codex) \<Rightarrow> sup \<Rightarrow> sup" where
  "on_codex f s = s\<lparr>sp_codex := map_option f (sp_codex s)\<rparr>"

abbreviation run_of :: "sup \<Rightarrow> string" where "run_of s \<equiv> sn_run (sp_snap s)"
abbreviation state_of :: "sup \<Rightarrow> string" where "state_of s \<equiv> sn_state (sp_snap s)"

definition running :: "sup \<Rightarrow> bool" where
  "running s \<longleftrightarrow> state_of s = ''idle'' \<or> state_of s = ''working'' \<or> state_of s = ''waiting_input''"

section \<open>Activity\<close>

definition activity_kind :: "string \<Rightarrow> bool" where
  "activity_kind k \<longleftrightarrow> k \<in> {''input'', ''approval'', ''approval_resolved'', ''tool'', ''tool_result'', ''assistant'', ''turn_end'', ''intent''}"

definition observeUpdateEvent :: "env \<Rightarrow> string \<Rightarrow> string \<Rightarrow> string \<Rightarrow> sup \<Rightarrow> sup" where
  "observeUpdateEvent env kind text rid s =
     (let active = (kind = ''state'' \<and> (text \<noteq> ''idle'' \<or> state_of s \<noteq> ''idle'')) \<or> activity_kind kind;
          s = (if active then s\<lparr>sp_activity := Some (en_now env)\<rparr> else s);
          s = (if kind = ''tool'' \<and> rid \<noteq> [] then s\<lparr>sp_tools := AList.update rid True (sp_tools s)\<rparr> else s);
          s = (if kind = ''tool_result'' \<and> rid \<noteq> [] then s\<lparr>sp_tools := AList.delete rid (sp_tools s)\<rparr> else s)
      in if kind = ''turn_end'' then s\<lparr>sp_unknown := False, sp_tools := []\<rparr> else s)"

text \<open>\<open>strings.Contains\<close>.\<close>

definition contains :: "string \<Rightarrow> string \<Rightarrow> bool" where
  "contains s sub \<longleftrightarrow> sublist sub s"

definition observeUpdateRaw :: "env \<Rightarrow> json option \<Rightarrow> sup \<Rightarrow> sup" where
  "observeUpdateRaw env raw s =
     (let s = (if IsBackgroundEvent raw
               then s\<lparr>sp_background := Apply (sp_background s) raw, sp_activity := Some (en_now env)\<rparr> else s)
      in case unmarshal_payload (dec_struct (\<lambda>kvs v.
             let (a, oka) = dec_field ''method'' dec_string kvs (fst v);
                 (b, okb) = dec_field ''type'' dec_string kvs (fst (snd v));
                 (c, okc) = dec_field ''subtype'' dec_string kvs (snd (snd v))
             in ((a, b, c), oka \<and> okb \<and> okc))) raw ([], [], []) of
           ((method, typ, subtype), ok) \<Rightarrow>
             if \<not> ok then s\<lparr>sp_unknown := True\<rparr>
             else if contains (map lower method) ''background'' \<or>
                 (contains subtype ''task'' \<and> \<not> IsBackgroundEvent raw \<and> typ = ''system'')
             then s\<lparr>sp_unknown := True\<rparr> else s)"

section \<open>Recording an event\<close>

text \<open>What \<open>recordState\<close> writes: the snapshot with the pending requests.\<close>

definition view :: "sup \<Rightarrow> snapshot" where
  "view s = replay_close (sp_snap s, sp_pending s)"

definition recordState :: "env \<Rightarrow> sup \<Rightarrow> sup" where
  "recordState env s =
     (case SetState (en_io env (sn_last (sp_snap s))) (lo_store (sp_log s)) (view s) of
        (_, st) \<Rightarrow> s\<lparr>sp_log := (sp_log s)\<lparr>lo_store := st\<rparr>\<rparr>)"

definition make_event :: "string \<Rightarrow> string \<Rightarrow> string \<Rightarrow> json option \<Rightarrow> bytes \<Rightarrow> response_metadata option \<Rightarrow> sup \<Rightarrow> event" where
  "make_event kind text rid payload raw response s =
     zero_event\<lparr>ev_session := ss_id (sp_session s), ev_run := run_of s, ev_kind := kind, ev_text := text,
       ev_request := rid, ev_payload := payload, ev_raw := raw,
       ev_response := (if kind = ''assistant'' \<or> kind = ''turn_end'' then response else None)\<rparr>"

definition store_event :: "env \<Rightarrow> event \<Rightarrow> sup \<Rightarrow> (event \<times> sup) option" where
  "store_event env e s =
     (if sp_buffering s then
        let e = e\<lparr>ev_seq := sn_last (sp_snap s) + 1, ev_time := millis env\<rparr>
        in Some (e, s\<lparr>sp_batch := sp_batch s @ [e]\<rparr>)
      else case Log_Append (en_io env (sn_last (sp_snap s))) (sp_log s) e of
          (Inl _, _) \<Rightarrow> None
        | (Inr e, l) \<Rightarrow> Some (e, s\<lparr>sp_log := l\<rparr>))"

definition track_response :: "event \<Rightarrow> sup \<Rightarrow> sup" where
  "track_response e s =
     (let s = (case ev_response e of
                 None \<Rightarrow> s
               | Some m \<Rightarrow>
                   if ev_kind e = ''assistant'' \<and> rm_phase m \<noteq> ''subagent'' \<and> (rm_turn m = [] \<or> rm_turn m = rm_turn (sp_context s))
                   then s\<lparr>sp_tracking := (sp_tracking s)\<lparr>tr_last := ev_seq e, tr_phase := rm_phase m,
                           tr_final := (if rm_phase m = ''final_answer'' then ev_seq e else tr_final (sp_tracking s))\<rparr>\<rparr>
                   else s)
      in if ev_kind e = ''tool_call'' then s\<lparr>sp_tracking := (sp_tracking s)\<lparr>tr_tools := tr_tools (sp_tracking s) + 1\<rparr>\<rparr> else s)"

definition project_event :: "event \<Rightarrow> snapshot \<Rightarrow> snapshot" where
  "project_event e sn =
     (let sn = sn\<lparr>sn_last := ev_seq e\<rparr>; k = ev_kind e;
          sn = (if k = ''permission'' then sn\<lparr>sn_permission := ev_text e\<rparr> else sn);
          sn = (if k = ''state'' then sn\<lparr>sn_state := ev_text e\<rparr> else sn);
          sn = (if k = ''queued'' then sn\<lparr>sn_queued := ev_text e, sn_queued_id := ev_request e\<rparr> else sn)
      in if k = ''input'' \<and> ev_request e = sn_queued_id sn then sn\<lparr>sn_queued := [], sn_queued_id := []\<rparr> else sn)"

definition event_full :: "env \<Rightarrow> string \<Rightarrow> string \<Rightarrow> string \<Rightarrow> json option \<Rightarrow> bytes \<Rightarrow> response_metadata option \<Rightarrow>
    sup \<Rightarrow> (event \<times> sup) option" where
  "event_full env kind text rid payload raw response s =
     (let s = observeUpdateEvent env kind text rid s in
      do {
        (e, s) \<leftarrow> store_event env (make_event kind text rid payload raw response s) s;
        let s = track_response e s;
        let s = s\<lparr>sp_snap := project_event e (sp_snap s)\<rparr>;
        Some (e, if sp_buffering s then s else recordState env s)
      })"

definition event :: "env \<Rightarrow> string \<Rightarrow> string \<Rightarrow> string \<Rightarrow> json option \<Rightarrow> sup \<Rightarrow> sup option" where
  "event env kind text rid payload s = map_option snd (event_full env kind text rid payload [] None s)"

definition say :: "env \<Rightarrow> string \<Rightarrow> string \<Rightarrow> sup \<Rightarrow> sup option" where
  "say env kind text = event env kind text [] None"

section \<open>Writing to the agent\<close>

definition kill :: "sup \<Rightarrow> sup" where
  "kill s = s\<lparr>sp_killed := True\<rparr>"

definition write_agent :: "env \<Rightarrow> json \<Rightarrow> sup \<Rightarrow> bool \<times> sup" where
  "write_agent env v s = (en_write env (length (sp_out s)), s\<lparr>sp_out := sp_out s @ [v]\<rparr>)"

definition write_ignore :: "env \<Rightarrow> json \<Rightarrow> sup \<Rightarrow> sup" where
  "write_ignore env v s = snd (write_agent env v s)"

definition rpc :: "string \<Rightarrow> string \<Rightarrow> json \<Rightarrow> json" where
  "rpc rid method params = JObj [(''id'', JStr rid), (''method'', JStr method), (''params'', params)]"

definition control_request :: "string \<Rightarrow> json \<Rightarrow> json" where
  "control_request rid request =
     JObj [(''request'', request), (''request_id'', JStr rid), (''type'', JStr ''control_request'')]"

section \<open>Pending requests and the waiting message\<close>

fun resolve_all :: "env \<Rightarrow> string list \<Rightarrow> sup \<Rightarrow> sup option" where
  "resolve_all env [] s = Some s"
| "resolve_all env (k # ks) s = do {
     s \<leftarrow> event env ''approval_resolved'' ''canceled'' k None s;
     resolve_all env ks (s\<lparr>sp_pending := AList.delete k (sp_pending s)\<rparr>) }"

definition clearPending :: "env \<Rightarrow> sup \<Rightarrow> sup option" where
  "clearPending env s = resolve_all env (map fst (sp_pending s)) s"

definition hasBlockingPending :: "sup \<Rightarrow> bool" where
  "hasBlockingPending s \<longleftrightarrow> (\<exists>(k, p)\<in>set (sp_pending s). ev_text p \<noteq> CodexAsyncQuestion)"

text \<open>\<open>%q\<close> of \<open>fmt\<close>; the runes past ASCII are taken to be printable.\<close>

definition quoted_char :: "char \<Rightarrow> string" where
  "quoted_char c =
     (let b = byte c in
      if b = 0x22 \<or> b = 0x5C then [chr_backslash, c]
      else if b = 7 then [chr_backslash, CHR ''a'']
      else if b = 8 then [chr_backslash, CHR ''b'']
      else if b = 9 then [chr_backslash, CHR ''t'']
      else if b = 10 then [chr_backslash, CHR ''n'']
      else if b = 11 then [chr_backslash, CHR ''v'']
      else if b = 12 then [chr_backslash, CHR ''f'']
      else if b = 13 then [chr_backslash, CHR ''r'']
      else if b < 0x20 \<or> b = 0x7F then [chr_backslash, CHR ''x'', hex_digit (b div 16), hex_digit (b mod 16)]
      else [c])"

definition quoted :: "string \<Rightarrow> string" where
  "quoted s = chr_quote # concat (map quoted_char s) @ [chr_quote]"

definition dropped_notice :: "string \<Rightarrow> string \<Rightarrow> string" where
  "dropped_notice reason text = ''the message waiting to be sent was dropped because '' @ reason @ '': '' @ quoted text"

definition dropQueued :: "env \<Rightarrow> string \<Rightarrow> sup \<Rightarrow> sup option" where
  "dropQueued env reason s =
     (if sn_queued (sp_snap s) = [] then Some s
      else do {
        let text = sn_queued (sp_snap s);
        s \<leftarrow> say env ''queued'' [] s;
        say env ''diagnostic'' (dropped_notice reason text) s })"

datatype exec_error =
    Client_id_required | Client_id_reused | Stale_run | Not_ready string | Setting_pending | Text_required | Slot_taken
  | No_agent_takes_it string | Nothing_waiting | Bad_permission_mode | Not_running | No_catalog | Catalog_needs_idle
  | Settings_need_idle | Setting_usage string | Reset_effort_first | No_default_reported | Value_not_reported | Setting_write_failed
  | Stale_approval | Bad_payload | Question_error question_error | Questions_missing | Answer_required string
  | No_active_turn | Unknown_command | Ask_later | Queue_input

type_synonym outcome = "exec_error + receipt"

definition ok_receipt :: "command \<Rightarrow> string \<Rightarrow> outcome" where
  "ok_receipt c status = Inr \<lparr>rc_client = cm_client c, rc_status = status\<rparr>"

definition new_record :: "string \<Rightarrow> command \<Rightarrow> string \<Rightarrow> command_record" where
  "new_record op c status = \<lparr>rd_digest = [], rd_op = op, rd_command = c, rd_status = status\<rparr>"

definition put_receipt :: "command \<Rightarrow> command_record \<Rightarrow> sup \<Rightarrow> sup" where
  "put_receipt c r s = s\<lparr>sp_receipts := AList.update (cm_client c) r (sp_receipts s)\<rparr>"

definition enqueue :: "env \<Rightarrow> command \<Rightarrow> sup \<Rightarrow> (outcome \<times> sup) option" where
  "enqueue env c s =
     (if sp_stopping s \<or> (state_of s \<noteq> ''working'' \<and> state_of s \<noteq> ''waiting_input'' \<and> state_of s \<noteq> ''starting'')
      then Some (Inl (No_agent_takes_it (state_of s)), s)
      else if sn_queued (sp_snap s) \<noteq> [] then Some (Inl Slot_taken, s)
      else do {
        s \<leftarrow> event env ''queued'' (cm_text c) (cm_client c) None s;
        Some (ok_receipt c ''queued'', put_receipt c (new_record ''send'' c ''queued'') s) })"

definition unqueue :: "env \<Rightarrow> command \<Rightarrow> sup \<Rightarrow> (outcome \<times> sup) option" where
  "unqueue env c s =
     (if sn_queued (sp_snap s) = [] then Some (Inl Nothing_waiting, s)
      else do {
        let r = new_record ''unqueue'' c ''accepted'';
        s \<leftarrow> event env ''queued'' [] [] (Some (record_json r)) s;
        Some (ok_receipt c ''accepted'', put_receipt c r s) })"

end
