(* ===== verification/Sup_Settings.thy ===== *)
theory Sup_Settings
  imports Sup_State
begin

text \<open>
  The operations of the supervisor that both providers use besides the conversation itself: the
  model catalog and the settings (\<^verbatim>\<open>models.go\<close>, \<^verbatim>\<open>claude_settings.go\<close>), the quota polls
  (\<^verbatim>\<open>quota.go\<close>, \<^verbatim>\<open>quota_shared.go\<close>, \<^verbatim>\<open>claude_args.go\<close>), the metadata of a response
  (\<^verbatim>\<open>response_metadata.go\<close>, \<^verbatim>\<open>response_completion.go\<close>) and the readiness for an update
  (\<^verbatim>\<open>update.go\<close>).
\<close>

section \<open>Models and settings\<close>

definition models_json :: "model_option list \<Rightarrow> json" where
  "models_json ms = (if ms = [] then JNull else JArr (map model_json ms))"

definition publishModels :: "env \<Rightarrow> sup \<Rightarrow> sup option" where
  "publishModels env s =
     (let source = (if sp_model_source s \<noteq> [] then sp_model_source s
                    else if sp_codex s \<noteq> None then ''model/list'' else ''initialize'');
          applied = sp_codex s = None \<and> sp_applied_model s \<noteq> []
      in event env ''models'' ''catalog'' [] (Some (JObj (
           [(''applied_reported'', JBool applied)] @
           (if sp_codex s = None
            then [(''effective_effort'', JStr (sp_applied_effort s)), (''effective_model'', JStr (sp_applied_model s))] else []) @
           [(''effort'', JStr (sp_effort s)), (''model'', JStr (ss_model (sp_session s))),
            (''models'', models_json (sp_options s)),
            (''source'', JStr (if applied then source @ '' + get_settings'' else source))]))) s)"

definition isSettingCommand :: "string \<Rightarrow> bool" where
  "isSettingCommand text = (case Fields text of [] \<Rightarrow> False | f # _ \<Rightarrow> f = ''/model'' \<or> f = ''/effort'')"

definition restoreSetting :: "string \<Rightarrow> json option \<Rightarrow> sup \<Rightarrow> sup" where
  "restoreSetting name raw s =
     (case unmarshal_payload (dec_struct (\<lambda>kvs v. dec_field ''value'' dec_string kvs v)) raw [] of (v, ok) \<Rightarrow>
        if \<not> ok then s
        else
          let s = (if name = ''model'' then s\<lparr>sp_session := (sp_session s)\<lparr>ss_model := v\<rparr>\<rparr> else s)
          in if name = ''effort'' then s\<lparr>sp_effort := v\<rparr> else s)"

definition trim_slash :: "string \<Rightarrow> string" where
  "trim_slash f = (case f of c # r \<Rightarrow> if c = CHR ''/'' then r else f | [] \<Rightarrow> [])"

definition setting_value :: "string \<Rightarrow> string" where
  "setting_value v = (if v = ''default'' then [] else v)"

definition finishSetting :: "env \<Rightarrow> string \<Rightarrow> bool \<Rightarrow> sup \<Rightarrow> sup option" where
  "finishSetting env rid success s =
     (case map_of (sp_receipts s) rid of
        None \<Rightarrow> Some s
      | Some r \<Rightarrow>
          if rd_status r \<noteq> ''delivery_unknown'' then Some s
          else case Fields (cm_text (rd_command r)) of
            [f, v] \<Rightarrow>
              (let s = (if sp_setting_pending s = rid then s\<lparr>sp_setting_pending := []\<rparr> else s) in
               if success then do {
                 let name = trim_slash f;
                 let payload = JObj [(''value'', JStr (setting_value v))];
                 let s = restoreSetting name (Some payload) s;
                 s \<leftarrow> event env ''setting'' name rid (Some payload) s;
                 s \<leftarrow> publishModels env s;
                 let r = r\<lparr>rd_status := ''accepted''\<rparr>;
                 event env ''receipt'' ''configure'' rid (Some (record_json r))
                   (s\<lparr>sp_receipts := AList.update rid r (sp_receipts s)\<rparr>) }
               else do {
                 s \<leftarrow> event env ''setting_status'' ''rejected; provider did not confirm update'' rid None s;
                 let r = r\<lparr>rd_status := ''rejected''\<rparr>;
                 event env ''receipt'' ''configure'' rid (Some (record_json r))
                   (s\<lparr>sp_receipts := AList.update rid r (sp_receipts s)\<rparr>) })
          | _ \<Rightarrow> Some s)"

definition dec_applied :: "(string \<times> string) option dec" where
  "dec_applied = dec_struct (\<lambda>kvs v. dec_field ''applied'' (dec_ptr ([], []) (dec_struct (\<lambda>kvs v.
     let (a, oka) = dec_field ''model'' dec_string kvs (fst v);
         (b, okb) = dec_field ''effort'' dec_string kvs (snd v)
     in ((a, b), oka \<and> okb)))) kvs v)"

definition receiveClaudeSettings :: "env \<Rightarrow> string \<Rightarrow> bool \<Rightarrow> json option \<Rightarrow> sup \<Rightarrow> sup option" where
  "receiveClaudeSettings env rid success raw s =
     (if rid \<noteq> sp_settings_request s \<or> rid = [] then Some s
      else
        let setting = sp_settings_for s;
            s = s\<lparr>sp_settings_request := [], sp_settings_for := []\<rparr>
        in if setting = [] \<and> sp_setting_pending s \<noteq> [] then Some s
           else
             let (applied, ok) = unmarshal_payload dec_applied raw None;
                 valid = success \<and> ok \<and> (case applied of None \<Rightarrow> False | Some (m, _) \<Rightarrow> m \<noteq> []);
                 (m, e) = (if valid then the applied else ([], []));
                 s = s\<lparr>sp_applied_model := m, sp_applied_effort := e\<rparr>
             in if setting = [] then publishModels env s
                else
                  let confirmed = valid \<and>
                        (case Fields (cm_text (rd_command (get_or zero_record (sp_receipts s) setting))) of
                           [f, v] \<Rightarrow> v = ''default'' \<or> v = e
                         | _ \<Rightarrow> False)
                  in do {
                    s \<leftarrow> finishSetting env setting confirmed s;
                    if confirmed then Some s else publishModels env s })"

definition readClaudeSettings :: "env \<Rightarrow> string \<Rightarrow> sup \<Rightarrow> sup option" where
  "readClaudeSettings env setting s =
     (if sp_codex s \<noteq> None \<or> (setting = [] \<and> sp_setting_pending s \<noteq> []) then Some s
      else
        let seq = (sp_settings_seq s + 1) mod 2 ^ 64;
            rid = ''cxz-settings-'' @ show_nat seq;
            s = s\<lparr>sp_settings_seq := seq, sp_settings_request := rid, sp_settings_for := setting\<rparr>;
            (ok, s) = write_agent env (control_request rid (JObj [(''subtype'', JStr ''get_settings'')])) s
        in if ok then Some s else receiveClaudeSettings env rid False None s)"

definition within :: "env \<Rightarrow> int option \<Rightarrow> int \<Rightarrow> bool" where
  "within env t d = (case t of None \<Rightarrow> False | Some t \<Rightarrow> en_now env - t < d)"

definition readModelsNow :: "env \<Rightarrow> bool \<Rightarrow> sup \<Rightarrow> sup option" where
  "readModelsNow env forced s =
     (if sp_model_disabled s \<or> (\<not> forced \<and> within env (sp_model_requested s) (seconds 60)) then Some s
      else
        let s = s\<lparr>sp_model_requested := Some (en_now env), sp_model_pages := []\<rparr> in
        if sp_codex s = None then do {
          let (ok, s) = write_agent env (control_request ''cxz-models'' (JObj [(''subtype'', JStr ''list_models'')])) s;
          s \<leftarrow> (if ok then Some s else say env ''models_status'' ''unavailable'' s);
          readClaudeSettings env [] s }
        else
          let (ok, s) = write_agent env (rpc ''cxz-models'' ''model/list''
                (JObj [(''includeHidden'', JBool False), (''limit'', JInt 100)])) s
          in if ok then Some s else say env ''models_status'' ''unavailable'' (s\<lparr>sp_model_requested := None\<rparr>))"

definition readModels :: "env \<Rightarrow> sup \<Rightarrow> sup option" where
  "readModels env = readModelsNow env False"

definition refreshModels :: "env \<Rightarrow> command \<Rightarrow> sup \<Rightarrow> (outcome \<times> sup) option" where
  "refreshModels env c s =
     (if sp_model_disabled s then Some (Inl No_catalog, s)
      else if state_of s \<noteq> ''idle'' \<or> sp_setting_pending s \<noteq> [] then Some (Inl Catalog_needs_idle, s)
      else do { s \<leftarrow> readModelsNow env True s; Some (ok_receipt c ''accepted'', s) })"

text \<open>The check \<open>configure\<close> makes of a setting against the catalog: \<open>None\<close> when it may be asked for.\<close>

definition setting_refused :: "string \<Rightarrow> string \<Rightarrow> sup \<Rightarrow> exec_error option" where
  "setting_refused name value s =
     (let selected = SelectedModel (sp_options s) (ss_model (sp_session s)) (sp_applied_model s) in
      if name = ''model'' \<and> sp_effort s \<noteq> [] then Some Reset_effort_first
      else if value = [] then
        (if sp_codex s \<noteq> None \<and>
            \<not> ((name = ''model'' \<and> (\<exists>m\<in>set (sp_options s). mo_default m)) \<or>
               (name = ''effort'' \<and> (case selected of None \<Rightarrow> False | Some m \<Rightarrow> mo_default_effort m \<noteq> [])))
         then Some No_default_reported else None)
      else if (name = ''model'' \<and> (\<exists>m\<in>set (sp_options s). mo_id m = value)) \<or>
              (name = ''effort'' \<and> (case selected of None \<Rightarrow> False | Some m \<Rightarrow> value \<in> set (mo_efforts m)))
      then None else Some Value_not_reported)"

definition setting_request :: "string \<Rightarrow> string \<Rightarrow> json" where
  "setting_request name value =
     (let v = (if value = [] then JNull else JStr value) in
      if name = ''effort''
      then JObj [(''settings'', JObj [(''effortLevel'', v)]), (''subtype'', JStr ''apply_flag_settings'')]
      else JObj [(''model'', v), (''subtype'', JStr ''set_model'')])"

definition configure :: "env \<Rightarrow> command \<Rightarrow> sup \<Rightarrow> (outcome \<times> sup) option" where
  "configure env c s =
     (if state_of s \<noteq> ''idle'' \<or> sp_setting_pending s \<noteq> [] then Some (Inl Settings_need_idle, s)
      else case Fields (cm_text c) of
        [f] \<Rightarrow> do {
          s \<leftarrow> readModels env s;
          s \<leftarrow> publishModels env s;
          let r = new_record ''send'' c ''accepted'';
          s \<leftarrow> event env ''receipt'' ''configure'' (cm_client c) (Some (record_json r)) (put_receipt c r s);
          Some (ok_receipt c ''accepted'', s) }
      | [f, v] \<Rightarrow>
          (let name = trim_slash f; value = setting_value v in
           case setting_refused name value s of
             Some e \<Rightarrow> Some (Inl e, s)
           | None \<Rightarrow> do {
               let r = new_record ''send'' c ''delivery_unknown'';
               s \<leftarrow> event env ''intent'' ''configure'' (cm_client c) (Some (record_json r)) (put_receipt c r s);
               if sp_codex s \<noteq> None then do {
                 s \<leftarrow> finishSetting env (cm_client c) True s;
                 Some (ok_receipt c ''accepted'', s) }
               else do {
                 let (ok, s) = write_agent env (control_request (''cxz-setting-'' @ cm_client c) (setting_request name value))
                       (s\<lparr>sp_setting_pending := cm_client c\<rparr>);
                 if \<not> ok then do {
                   s \<leftarrow> finishSetting env (cm_client c) False s;
                   Some (Inl Setting_write_failed, s) }
                 else do {
                   s \<leftarrow> event env ''setting_status'' ''pending'' (cm_client c) None s;
                   Some (ok_receipt c ''pending'', s) } } })
      | fs \<Rightarrow> Some (Inl (Setting_usage (case fs of [] \<Rightarrow> [] | f # _ \<Rightarrow> f)), s))"

definition expireSetting :: "env \<Rightarrow> sup \<Rightarrow> sup option" where
  "expireSetting env s =
     (if sp_setting_pending s \<noteq> []
      then event env ''setting_status'' ''awaiting provider; stop/resume if this persists'' (sp_setting_pending s) None s
      else Some s)"

section \<open>Quota\<close>

definition requestQuota :: "env \<Rightarrow> json \<Rightarrow> sup \<Rightarrow> sup option" where
  "requestQuota env request s =
     (if sp_quota_disabled s \<or> within env (sp_quota_requested s) (seconds 60) then Some s
      else do {
        s \<leftarrow> (if sp_quota_requested s \<noteq> None then say env ''usage_status'' ''timeout'' s else Some s);
        s \<leftarrow> say env ''usage_status'' ''polling'' (s\<lparr>sp_quota_requested := Some (en_now env)\<rparr>);
        let (ok, s) = write_agent env request s;
        if ok then Some s else say env ''usage_status'' ''error'' (s\<lparr>sp_quota_requested := None\<rparr>) })"

definition sendClaudeQuota :: "env \<Rightarrow> sup \<Rightarrow> sup option" where
  "sendClaudeQuota env s =
     requestQuota env (control_request ''cxz-quota'' (JObj [(''skip_behaviors'', JBool True), (''subtype'', JStr ''get_usage'')]))
       (s\<lparr>sp_quota_fallback := Some (en_now env)\<rparr>)"

definition recordSharedQuota :: "env \<Rightarrow> json option \<Rightarrow> int \<Rightarrow> sup \<Rightarrow> sup option" where
  "recordSharedQuota env raw observed s =
     (case raw of
        Some (JObj kvs) \<Rightarrow>
          event env ''usage'' ''get_usage'' []
            (Some (map_json (\<lambda>v. v) (AList.update ''_cxz_observed_ms'' (JInt observed) (obj_fields (JObj kvs)))))
            (s\<lparr>sp_quota_observed := observed\<rparr>)
      | _ \<Rightarrow> Some s)"

definition claimClaudeQuota :: "env \<Rightarrow> sup \<Rightarrow> (bool \<times> sup) option" where
  "claimClaudeQuota env s =
     (if sp_quota_disabled s then Some (False, s)
      else if sp_quota_root s = [] \<or> ss_account (sp_session s) = [] then Some (True, s)
      else if within env (sp_quota_requested s) (seconds 60) then Some (False, s)
      else case en_exchange env [] None of
          None \<Rightarrow> Some (\<not> within env (sp_quota_fallback s) (seconds 60), s)
        | Some (q, poll) \<Rightarrow> do {
            s \<leftarrow> (if sp_quota_observed s < qs_observed q \<and> qs_payload q \<noteq> None
                  then recordSharedQuota env (qs_payload q) (qs_observed q) s else Some s);
            Some (poll, s\<lparr>sp_quota_lease := qs_lease q\<rparr>) })"

text \<open>With a runtime token the coordinator is asked by a worker, which goes on in \<open>remoteQuota\<close>.\<close>

definition readClaudeQuota :: "env \<Rightarrow> sup \<Rightarrow> sup option" where
  "readClaudeQuota env s =
     (if sp_quota_token s \<noteq> [] then
        Some (if sp_quota_checking s \<or> sp_quota_disabled s \<or> within env (sp_quota_requested s) (seconds 60)
              then s else s\<lparr>sp_quota_checking := True\<rparr>)
      else do {
        (poll, s) \<leftarrow> claimClaudeQuota env s;
        if poll then sendClaudeQuota env s else Some s })"

definition remoteQuota :: "env \<Rightarrow> bool \<Rightarrow> sup \<Rightarrow> sup option" where
  "remoteQuota env finished s =
     (let s = s\<lparr>sp_quota_checking := False\<rparr> in
      if finished \<or> \<not> running s then Some s
      else case en_exchange env [] None of
          None \<Rightarrow> if within env (sp_quota_fallback s) (seconds 60) then Some s else sendClaudeQuota env s
        | Some (q, poll) \<Rightarrow> do {
            s \<leftarrow> (if sp_quota_observed s < qs_observed q \<and> qs_payload q \<noteq> None
                  then recordSharedQuota env (qs_payload q) (qs_observed q) s else Some s);
            let s = s\<lparr>sp_quota_lease := qs_lease q\<rparr>;
            if poll then sendClaudeQuota env s else Some s })"

text \<open>Whether \<open>agentview.Quota\<close> finds a window in a \<open>get_usage\<close> reply.\<close>

definition has_windows :: "json option \<Rightarrow> bool" where
  "has_windows raw \<longleftrightarrow>
     (\<exists>k\<in>set [''five_hour'', ''seven_day'', ''seven_day_opus'', ''seven_day_sonnet'', ''seven_day_oauth_apps''].
        child (child (object raw) ''rate_limits'') k \<noteq> [])"

definition publishClaudeQuota :: "env \<Rightarrow> json option \<Rightarrow> sup \<Rightarrow> sup option" where
  "publishClaudeQuota env raw s =
     (let lease = sp_quota_lease s;
          shared = (if lease \<noteq> [] \<and> has_windows raw \<and> sp_quota_token s = []
                    then (case en_exchange env lease raw of Some (q, _) \<Rightarrow> if 0 < qs_observed q then Some q else None | None \<Rightarrow> None)
                    else None)
      in case shared of
           Some q \<Rightarrow> map_option (\<lambda>s. s\<lparr>sp_quota_lease := []\<rparr>) (recordSharedQuota env (qs_payload q) (qs_observed q) s)
         | None \<Rightarrow> recordSharedQuota env raw (millis env) (s\<lparr>sp_quota_lease := []\<rparr>))"

section \<open>The metadata of a response\<close>

definition claudeResponseContext :: "sup \<Rightarrow> response_metadata" where
  "claudeResponseContext s =
     (if sp_applied_model s \<noteq> []
      then zero_metadata\<lparr>rm_model := sp_applied_model s, rm_model_source := ''settings'', rm_effort := sp_applied_effort s,
             rm_effort_source := (if sp_applied_effort s = [] then [] else ''settings'')\<rparr>
      else zero_metadata\<lparr>rm_model := ss_model (sp_session s), rm_effort := sp_effort s,
             rm_model_source := (if ss_model (sp_session s) = [] then [] else ''requested''),
             rm_effort_source := (if sp_effort s = [] then [] else ''requested'')\<rparr>)"

definition metric_value :: "bool \<Rightarrow> json option \<Rightarrow> json option" where
  "metric_value integer v =
     (case v of
        Some (JInt i) \<Rightarrow> if 0 \<le> i \<and> (integer \<longrightarrow> i \<le> 9007199254740991) then Some (JInt i) else None
      | Some (JReal l) \<Rightarrow> if \<not> integer \<and> l \<noteq> [] \<and> hd l \<noteq> CHR ''-'' then Some (JReal l) else None
      | _ \<Rightarrow> None)"

definition metric :: "(string, json) gomap \<Rightarrow> string \<Rightarrow> json option \<Rightarrow> bool \<Rightarrow> (string, json) gomap" where
  "metric m key v integer = (case metric_value integer v of None \<Rightarrow> m | Some n \<Rightarrow> AList.update key n m)"

definition metrics_of :: "(string, json) gomap \<Rightarrow> (string \<times> string) list \<Rightarrow> (string, json) gomap \<Rightarrow> (string, json) gomap" where
  "metrics_of usage names m = foldl (\<lambda>m (native, common). metric m common (map_of usage native) True) m names"

text \<open>A number out of range leaves nil behind when the error is ignored.\<close>

definition loose :: "lib \<Rightarrow> lib" where
  "loose lib = lib\<lparr>lb_float := (\<lambda>l. Some (case lb_float lib l of None \<Rightarrow> JNull | Some v \<Rightarrow> v))\<rparr>"

definition any_object :: "lib \<Rightarrow> json option \<Rightarrow> (string, json) gomap option" where
  "any_object lib raw =
     (case raw of Some (JObj kvs) \<Rightarrow> canon_members lib kvs [] | Some JNull \<Rightarrow> Some [] | _ \<Rightarrow> None)"

definition captureResponseUsage :: "env \<Rightarrow> json option \<Rightarrow> sup \<Rightarrow> sup" where
  "captureResponseUsage env raw s =
     (case any_object (en_lib env) raw of
        None \<Rightarrow> s
      | Some p \<Rightarrow>
          if rm_turn (sp_context s) = [] \<or> map_of p ''turnId'' \<noteq> Some (JStr (rm_turn (sp_context s))) then s
          else if (case map_of p ''threadId'' of Some (JStr t) \<Rightarrow> t \<noteq> sn_vendor (sp_snap s) | _ \<Rightarrow> False) then s
          else s\<lparr>sp_tracking := (sp_tracking s)\<lparr>tr_metrics :=
            metrics_of (child (child p ''tokenUsage'') ''last'')
              [(''inputTokens'', ''input_tokens''), (''outputTokens'', ''output_tokens''),
               (''cachedInputTokens'', ''cache_read_tokens''), (''reasoningOutputTokens'', ''reasoning_tokens''),
               (''totalTokens'', ''total_tokens'')] []\<rparr>\<rparr>)"

definition completion_json :: "nat \<Rightarrow> string \<Rightarrow> (int \<times> string) option \<Rightarrow> (string, json) gomap \<Rightarrow> string \<Rightarrow> json" where
  "completion_json seq source duration metrics scope = JObj (
     [(''response_seq'', JStr (show_nat seq)), (''final_source'', JStr source)] @
     (case duration of None \<Rightarrow> [] | Some (ms, from) \<Rightarrow> [(''duration_ms'', JInt ms), (''duration_source'', JStr from)]) @
     omit (metrics = []) ''metrics'' (map_json (\<lambda>v. v) metrics) @
     [(''token_scope'', JStr scope)])"

definition completeResponse :: "env \<Rightarrow> string \<Rightarrow> json option \<Rightarrow> sup \<Rightarrow> response_metadata" where
  "completeResponse env status raw s =
     (let m = sp_context s; t = sp_tracking s;
          phased = tr_final t \<noteq> 0 \<or> tr_phase t \<noteq> [];
          seq = (if phased then tr_final t else tr_last t);
          p = (case any_object (loose (en_lib env)) raw of None \<Rightarrow> [] | Some p \<Rightarrow> p);
          turn = child p ''turn''
      in if status \<noteq> ''completed'' \<or> seq = 0 then m
         else if sp_codex s \<noteq> None \<and>
             (case map_of turn ''id'' of Some (JStr i) \<Rightarrow> i \<noteq> [] \<and> i \<noteq> rm_turn m | _ \<Rightarrow> False) then m
         else
           let metrics =
                 (if sp_codex s = None then
                    metric (metric (metric
                      (metrics_of (child p ''usage'')
                         [(''input_tokens'', ''input_tokens''), (''output_tokens'', ''output_tokens''),
                          (''cache_read_input_tokens'', ''cache_read_tokens''),
                          (''cache_creation_input_tokens'', ''cache_write_tokens'')] [])
                      ''cost_usd'' (map_of p ''total_cost_usd'') False)
                      ''api_duration_ms'' (map_of p ''duration_api_ms'') True)
                      ''api_turns'' (map_of p ''num_turns'') True
                  else tr_metrics t);
               reported = metric_value True (if sp_codex s = None then map_of p ''duration_ms'' else map_of turn ''durationMs'');
               duration = (case reported of
                    Some (JInt n) \<Rightarrow> Some (n, ''provider'')
                  | _ \<Rightarrow> (case tr_started t of
                        None \<Rightarrow> None
                      | Some t0 \<Rightarrow> Some (max 0 ((en_now env - t0) div 1000000), ''cxz'')));
               metrics = (if tr_started t \<noteq> None then AList.update ''tool_calls'' (JInt (tr_tools t)) metrics else metrics)
           in m\<lparr>rm_completion := print_json (completion_json seq (if phased then ''phase'' else ''turn_end'') duration metrics
                   (if sp_codex s = None then ''turn'' else ''last_call''))\<rparr>)"

section \<open>Readiness for an update\<close>

text \<open>\<open>UpdateIdlePeriod\<close>, by the variable \<open>CXZ_UPDATE_IDLE\<close> as \<open>time.ParseDuration\<close> reads it: a duration that is not
  positive, or none, leaves five minutes.\<close>

definition UpdateIdlePeriod :: "int option \<Rightarrow> int" where
  "UpdateIdlePeriod v = (case v of Some d \<Rightarrow> if 0 < d then d else seconds 300 | None \<Rightarrow> seconds 300)"

definition waiting_reason :: string where
  "waiting_reason = ''waiting for 5 minutes of continuous idle''"

fun scan_clients :: "int \<Rightarrow> (string \<times> int \<times> bool) list \<Rightarrow> sup \<Rightarrow> bool \<times> sup" where
  "scan_clients now [] s = (False, s)"
| "scan_clients now ((k, seen, busy) # cs) s =
     (if seconds 30 < now - seen then scan_clients now cs (s\<lparr>sp_clients := AList.delete k (sp_clients s)\<rparr>)
      else if busy then (True, s)
      else scan_clients now cs s)"

definition update_check :: "int \<Rightarrow> int \<Rightarrow> string \<Rightarrow> sup \<Rightarrow> string \<times> sup" where
  "update_check idle now busy s =
     (if state_of s \<noteq> ''idle'' \<or> sp_stopping s then (''agent not idle'', s)
      else if sp_pending s \<noteq> [] then (''pending approvals/questions'', s)
      else if sp_setting_pending s \<noteq> [] then (''model/effort change pending'', s)
      else if cx_turn (the_codex s) \<noteq> [] \<or> cx_replies (the_codex s) \<noteq> [] then (''queued Codex turn/answer'', s)
      else if sp_unknown s \<or> bs_unavailable (sp_background s) then (''background telemetry unknown'', s)
      else if sp_tools s \<noteq> [] then (''unfinished tool calls'', s)
      else if any_active (sp_background s) then (''background tasks running'', s)
      else if busy \<noteq> [] then (''agent child process running or unknown: '' @ busy, s\<lparr>sp_activity := Some now\<rparr>)
      else case scan_clients now (sp_clients s) s of
          (True, s) \<Rightarrow> (''attached client busy'', s)
        | (False, s) \<Rightarrow>
            let s = (if sp_blocked s then s\<lparr>sp_blocked := False, sp_activity := Some now\<rparr> else s)
            in case sp_activity s of
                 None \<Rightarrow> (waiting_reason, s)
               | Some t \<Rightarrow> if now - t < idle then (waiting_reason, s) else ([], s))"

definition updateReason :: "int \<Rightarrow> int \<Rightarrow> string \<Rightarrow> sup \<Rightarrow> string \<times> sup" where
  "updateReason idle now busy s =
     (case update_check idle now busy s of (reason, s) \<Rightarrow>
        (reason, if reason \<noteq> [] \<and> reason \<noteq> waiting_reason \<and> reason \<noteq> ''attached client busy''
                 then s\<lparr>sp_blocked := True\<rparr> else s))"

end
