(* ===== verification/Codex.thy ===== *)
theory Codex
  imports Sup_Settings
begin

text \<open>
  The Codex side of the supervisor: the JSON-RPC frames of the app server (\<^verbatim>\<open>codex.go\<close>), its
  asynchronous questions (\<^verbatim>\<open>codex_questions.go\<close>), the poll of its background terminals
  (\<^verbatim>\<open>codex_background.go\<close>) and the optional deadline on its progress (\<^verbatim>\<open>codex_progress.go\<close>).
  The text of a request id is the one its sender writes, without the escapes of \<open>json.Marshal\<close>
  for HTML (\<open>raw_text\<close>).
\<close>

definition raw_text :: "json \<Rightarrow> string" where
  "raw_text j =
     (case j of
        JStr s \<Rightarrow> chr_quote # concat (map (\<lambda>c. if byte c \<in> {0x3C, 0x3E, 0x26} then [c] else esc_char c) s) @ [chr_quote]
      | _ \<Rightarrow> print_json j)"

definition wrap_quotes :: "string \<Rightarrow> string" where
  "wrap_quotes s = chr_quote # s @ [chr_quote]"

definition present :: "json option \<Rightarrow> bool" where
  "present e \<longleftrightarrow> e \<noteq> None \<and> e \<noteq> Some JNull"

abbreviation failed :: "json option \<Rightarrow> bool" where
  "failed e \<equiv> present e"

text \<open>A \<open>json.RawMessage\<close> as the payload of an event or a field: empty is written \<open>null\<close>.\<close>

definition raw_doc :: "json option \<Rightarrow> json" where
  "raw_doc p = (case p of None \<Rightarrow> JNull | Some j \<Rightarrow> j)"

record codex_frame =
  cf_id :: "json option"
  cf_method :: string
  cf_params :: "json option"
  cf_result :: "json option"
  cf_error :: "json option"

definition zero_frame :: codex_frame where
  "zero_frame = \<lparr>cf_id = None, cf_method = [], cf_params = None, cf_result = None, cf_error = None\<rparr>"

definition dec_frame :: "codex_frame dec" where
  "dec_frame = dec_struct (\<lambda>kvs v.
     let (a, oka) = dec_field ''id'' dec_raw kvs (cf_id v);
         (b, okb) = dec_field ''method'' dec_string kvs (cf_method v);
         (c, okc) = dec_field ''params'' dec_raw kvs (cf_params v);
         (d, okd) = dec_field ''result'' dec_raw kvs (cf_result v);
         (e, oke) = dec_field ''error'' dec_raw kvs (cf_error v)
     in (\<lparr>cf_id = a, cf_method = b, cf_params = c, cf_result = d, cf_error = e\<rparr>, oka \<and> okb \<and> okc \<and> okd \<and> oke))"

record codex_item =
  ci_id :: string
  ci_type :: string
  ci_text :: string
  ci_phase :: string
  ci_command :: string
  ci_output :: string

record codex_params =
  cp_thread :: string
  cp_turn :: string
  cp_status :: string
  cp_item :: codex_item

definition zero_params :: codex_params where
  "zero_params = \<lparr>cp_thread = [], cp_turn = [], cp_status = [],
     cp_item = \<lparr>ci_id = [], ci_type = [], ci_text = [], ci_phase = [], ci_command = [], ci_output = []\<rparr>\<rparr>"

definition dec_item :: "codex_item dec" where
  "dec_item = dec_struct (\<lambda>kvs v.
     let (a, oka) = dec_field ''id'' dec_string kvs (ci_id v);
         (b, okb) = dec_field ''type'' dec_string kvs (ci_type v);
         (c, okc) = dec_field ''text'' dec_string kvs (ci_text v);
         (d, okd) = dec_field ''phase'' dec_string kvs (ci_phase v);
         (e, oke) = dec_field ''command'' dec_string kvs (ci_command v);
         (f, okf) = dec_field ''aggregatedOutput'' dec_string kvs (ci_output v)
     in (\<lparr>ci_id = a, ci_type = b, ci_text = c, ci_phase = d, ci_command = e, ci_output = f\<rparr>,
         oka \<and> okb \<and> okc \<and> okd \<and> oke \<and> okf))"

definition dec_params :: "codex_params dec" where
  "dec_params = dec_struct (\<lambda>kvs v.
     let (a, oka) = dec_field ''threadId'' dec_string kvs (cp_thread v);
         ((b, c), okb) = dec_field ''turn'' (dec_struct (\<lambda>kvs v.
            let (i, oki) = dec_field ''id'' dec_string kvs (fst v);
                (st, okst) = dec_field ''status'' dec_string kvs (snd v)
            in ((i, st), oki \<and> okst))) kvs (cp_turn v, cp_status v);
         (d, okd) = dec_field ''item'' dec_item kvs (cp_item v)
     in (\<lparr>cp_thread = a, cp_turn = b, cp_status = c, cp_item = d\<rparr>, oka \<and> okb \<and> okd))"

text \<open>One string field of a document, whatever else the document holds; ignoring decoding errors.\<close>

definition peek_string :: "string \<Rightarrow> json option \<Rightarrow> string \<times> bool" where
  "peek_string k raw = unmarshal_payload (dec_struct (\<lambda>kvs v. dec_field k dec_string kvs v)) raw []"

definition peek_code :: "json option \<Rightarrow> int \<times> bool" where
  "peek_code raw = unmarshal_payload (dec_struct (\<lambda>kvs v. dec_field ''code'' dec_int64 kvs v)) raw 0"

section \<open>Background terminals\<close>

definition codexBackgroundInterval :: int where "codexBackgroundInterval = seconds 5"
definition codexBackgroundTimeout :: int where "codexBackgroundTimeout = seconds 10"
definition codexBackgroundRetry :: int where "codexBackgroundRetry = seconds 30"
definition codexBackgroundMaxPages :: int where "codexBackgroundMaxPages = 100"

definition on_polling :: "(polling \<Rightarrow> polling) \<Rightarrow> sup \<Rightarrow> sup" where
  "on_polling f = on_codex (\<lambda>c. c\<lparr>cx_polling := f (cx_polling c)\<rparr>)"

abbreviation polling_of :: "sup \<Rightarrow> polling" where
  "polling_of s \<equiv> cx_polling (the_codex s)"

definition background_frame :: "string \<Rightarrow> string \<Rightarrow> background_task list option \<Rightarrow> json" where
  "background_frame subtype status tasks = JObj (
     [(''type'', JStr ''background''), (''provider'', JStr ''codex''), (''subtype'', JStr subtype)] @
     omit (status = []) ''status'' (JStr status) @
     [(''tasks'', case tasks of None \<Rightarrow> JNull | Some ts \<Rightarrow> JArr (map task_json ts))])"

definition publishBackground :: "env \<Rightarrow> string \<Rightarrow> json \<Rightarrow> sup \<Rightarrow> sup option" where
  "publishBackground env subtype raw s =
     (if bp_published (polling_of s) = Some raw then Some s
      else
        let s = on_polling (\<lambda>b. b\<lparr>bp_published := Some raw\<rparr>) s
        in event env ''background'' subtype [] (Some raw) (s\<lparr>sp_background := Apply (sp_background s) (Some raw)\<rparr>))"

definition backgroundFailed :: "env \<Rightarrow> string \<Rightarrow> sup \<Rightarrow> sup option" where
  "backgroundFailed env status s =
     publishBackground env ''background_status'' (background_frame ''background_status'' status None)
       (on_polling (\<lambda>b. b\<lparr>bp_id := [], bp_tasks := None, bp_next := Some (en_now env + codexBackgroundRetry)\<rparr>) s)"

definition backgroundPage :: "env \<Rightarrow> string \<Rightarrow> sup \<Rightarrow> sup option" where
  "backgroundPage env cursor s =
     (let n = (bp_sequence (polling_of s) + 1) mod 2 ^ 64;
          request = ''cxz-background-'' @ show_nat n;
          s = on_polling (\<lambda>b. b\<lparr>bp_sequence := n, bp_id := quoted request, bp_pages := bp_pages b + 1\<rparr>) s;
          (ok, s) = write_agent env (rpc request ''thread/backgroundTerminals/list'' (JObj (
             omit (cursor = []) ''cursor'' (JStr cursor) @
             [(''limit'', JInt 100), (''threadId'', JStr (sn_vendor (sp_snap s)))]))) s
      in if ok then Some s else backgroundFailed env ''error'' s)"

definition readBackground :: "env \<Rightarrow> bool \<Rightarrow> sup \<Rightarrow> sup option" where
  "readBackground env force s =
     (let b = polling_of s in
      if bp_disabled b \<or> sp_stopping s \<or> sn_vendor (sp_snap s) = [] \<or> \<not> running s then Some s
      else if bp_id b \<noteq> [] then
        (if within env (bp_requested b) codexBackgroundTimeout then Some s else backgroundFailed env ''timeout'' s)
      else if (case bp_next b of None \<Rightarrow> False | Some t \<Rightarrow> en_now env < t) \<and> (\<not> force \<or> bp_tasks b = None) then Some s
      else backgroundPage env []
        (on_polling (\<lambda>b. b\<lparr>bp_tasks := Some [], bp_cursors := [], bp_pages := 0, bp_requested := Some (en_now env)\<rparr>) s))"

definition dec_terminal :: "(string \<times> string \<times> string) dec" where
  "dec_terminal = dec_struct (\<lambda>kvs v.
     let (a, oka) = dec_field ''processId'' dec_string kvs (fst v);
         (b, okb) = dec_field ''itemId'' dec_string kvs (fst (snd v));
         (c, okc) = dec_field ''command'' dec_string kvs (snd (snd v))
     in ((a, b, c), oka \<and> okb \<and> okc))"

definition dec_page :: "((string \<times> string \<times> string) list option \<times> string) dec" where
  "dec_page = dec_struct (\<lambda>kvs v.
     let (a, oka) = dec_field ''data'' (dec_ptr [] (dec_list ([], [], []) dec_terminal)) kvs (fst v);
         (b, okb) = dec_field ''nextCursor'' dec_string kvs (snd v)
     in ((a, b), oka \<and> okb))"

definition terminal_task :: "string \<times> string \<times> string \<Rightarrow> background_task" where
  "terminal_task t = (case t of (p, i, c) \<Rightarrow>
     zero_task\<lparr>bt_id := p, bt_tool := i, bt_description := c, bt_status := ''working'', bt_active := True\<rparr>)"

definition add_terminals :: "(string \<times> string \<times> string) list \<Rightarrow> (string, background_task) gomap \<Rightarrow> (string, background_task) gomap" where
  "add_terminals ts m = foldl (\<lambda>m t. AList.update (fst t) (terminal_task t) m) m ts"

definition consumeBackground :: "env \<Rightarrow> string \<Rightarrow> json option \<Rightarrow> json option \<Rightarrow> sup \<Rightarrow> (bool \<times> sup) option" where
  "consumeBackground env rid result failure s =
     (if \<not> prefix (chr_quote # ''cxz-background-'') rid then Some (False, s)
      else map_option (Pair True)
        (let b = polling_of s in
         if rid \<noteq> bp_id b then Some s
         else if failed failure then
           (if fst (peek_code failure) = -32601
            then backgroundFailed env ''unsupported'' (on_polling (\<lambda>b. b\<lparr>bp_disabled := True\<rparr>) s)
            else backgroundFailed env ''error'' s)
         else case unmarshal_payload dec_page result (None, []) of
             ((Some terminals, cursor), True) \<Rightarrow>
               if \<exists>t\<in>set terminals. fst t = [] then backgroundFailed env ''error'' s
               else
                 let tasks = add_terminals terminals (case bp_tasks b of None \<Rightarrow> [] | Some m \<Rightarrow> m);
                     s = on_polling (\<lambda>b. b\<lparr>bp_tasks := Some tasks\<rparr>) s
                 in if cursor \<noteq> [] then
                      (if has_key (bp_cursors b) cursor \<or> codexBackgroundMaxPages \<le> bp_pages b
                       then backgroundFailed env ''error'' s
                       else backgroundPage env cursor (on_polling (\<lambda>b. b\<lparr>bp_cursors := AList.update cursor True (bp_cursors b)\<rparr>) s))
                    else publishBackground env ''background_tasks_changed''
                      (background_frame ''background_tasks_changed'' [] (Some (sort_key bt_id (map snd tasks))))
                      (on_polling (\<lambda>b. b\<lparr>bp_id := [], bp_next := Some (en_now env + codexBackgroundInterval)\<rparr>) s)
           | _ \<Rightarrow> backgroundFailed env ''error'' s))"

section \<open>Progress\<close>

definition codexInterruptGrace :: int where "codexInterruptGrace = seconds 15"

definition on_progress :: "(progress \<Rightarrow> progress) \<Rightarrow> sup \<Rightarrow> sup" where
  "on_progress f = on_codex (\<lambda>c. c\<lparr>cx_progress := f (cx_progress c)\<rparr>)"

definition dec_progress_item :: "(string \<times> string) dec" where
  "dec_progress_item = dec_struct (\<lambda>kvs v. dec_field ''item'' (dec_struct (\<lambda>kvs v.
     let (a, oka) = dec_field ''id'' dec_string kvs (fst v);
         (b, okb) = dec_field ''type'' dec_string kvs (snd v)
     in ((a, b), oka \<and> okb))) kvs v)"

definition observe_progress :: "int \<Rightarrow> string \<Rightarrow> json option \<Rightarrow> progress \<Rightarrow> progress" where
  "observe_progress now method params p =
     (if method = ''turn/started'' \<or> method = ''turn/completed'' then zero_progress\<lparr>pg_last := Some now\<rparr>
      else if method = ''serverRequest/resolved'' then p\<lparr>pg_last := Some now\<rparr>
      else if \<not> prefix ''item/'' method then p
      else
        let p = p\<lparr>pg_last := Some now\<rparr>;
            ((i, typ), ok) = unmarshal_payload dec_progress_item params ([], [])
        in if \<not> ok \<or> i = [] then p
           else if method = ''item/completed'' then p\<lparr>pg_items := AList.delete i (pg_items p)\<rparr>
           else if method = ''item/started'' \<and> typ \<noteq> ''agentMessage'' \<and> typ \<noteq> ''reasoning'' \<and> typ \<noteq> ''userMessage''
           then p\<lparr>pg_items := AList.update i True (pg_items p)\<rparr>
           else p)"

definition checkProgress :: "env \<Rightarrow> sup \<Rightarrow> sup option" where
  "checkProgress env s =
     (let c = the_codex s; p = cx_progress c in
      if cx_turn c = [] \<or> state_of s \<noteq> ''working'' \<or> sp_stopping s \<or> hasBlockingPending s
      then Some (on_progress (\<lambda>p. p\<lparr>pg_last := Some (en_now env)\<rparr>) s)
      else case pg_interrupt p of
        Some t \<Rightarrow>
          if codexInterruptGrace \<le> en_now env - t then do {
            s \<leftarrow> say env ''diagnostic'' ''Codex did not acknowledge the response-timeout interrupt; resume the session to reconnect. Saved history is preserved.'' s;
            s \<leftarrow> say env ''state'' ''failed'' s;
            Some (kill s) }
          else Some s
      | None \<Rightarrow>
          if pg_last p = None \<or> pg_items p \<noteq> []
          then Some (on_progress (\<lambda>p. p\<lparr>pg_last := Some (en_now env)\<rparr>) s)
          else case en_timeout env of
            None \<Rightarrow> Some s
          | Some limit \<Rightarrow>
              if limit \<le> 0 \<or> within env (pg_last p) limit then Some s
              else do {
                let s = on_progress (\<lambda>p. p\<lparr>pg_interrupt := Some (en_now env)\<rparr>) s;
                s \<leftarrow> say env ''diagnostic'' ''Codex response progress timed out; interrupting the turn. Saved history is preserved and no commands are retried.''
                       (s\<lparr>sp_interrupted := True\<rparr>);
                let (ok, s) = write_agent env (rpc ''cxz-progress-interrupt'' ''turn/interrupt''
                       (JObj [(''threadId'', JStr (sn_vendor (sp_snap s))), (''turnId'', JStr (cx_turn (the_codex s)))])) s;
                if ok then Some s
                else do {
                  s \<leftarrow> say env ''diagnostic'' ''Codex timeout interrupt could not be delivered; resume the session to reconnect.'' s;
                  s \<leftarrow> say env ''state'' ''failed'' s;
                  Some (kill s) } })"

section \<open>Commands\<close>

definition input_text :: "string \<Rightarrow> json" where
  "input_text t = JArr [JObj [(''text'', JStr t), (''text_elements'', JArr []), (''type'', JStr ''text'')]]"

text \<open>The model and effort a turn asks for.\<close>

definition turn_model :: "sup \<Rightarrow> string \<times> string" where
  "turn_model s =
     (let model = ss_model (sp_session s); effort = sp_effort s in
      case find (\<lambda>m. mo_id m = model \<or> model = [] \<and> mo_default m) (sp_options s) of
        None \<Rightarrow> (model, effort)
      | Some m \<Rightarrow> (mo_id m, if effort = [] then mo_default_effort m else effort))"

definition codex_send :: "env \<Rightarrow> command \<Rightarrow> sup \<Rightarrow> (exec_error + json option) \<times> sup" where
  "codex_send env c s =
     (let vendor = JStr (sn_vendor (sp_snap s)); turn = cx_turn (the_codex s) in
      if TrimSpace (cm_text c) = [] then (Inl Text_required, s)
      else if state_of s \<noteq> ''idle'' then
        (if turn = [] then (Inl Queue_input, s)
         else (Inr (Some (rpc (cm_client c) ''turn/steer'' (JObj [(''expectedTurnId'', JStr turn), (''input'', input_text (cm_text c)),
                 (''threadId'', vendor), (''turnId'', JStr turn)]))),
               on_codex (\<lambda>x. x\<lparr>cx_steering := AList.update (wrap_quotes (cm_client c)) c (cx_steering x)\<rparr>) s))
      else if TrimSpace (cm_text c) = ''/compact''
      then (Inr (Some (rpc (cm_client c) ''thread/compact/start'' (JObj [(''threadId'', vendor)]))),
            s\<lparr>sp_context := zero_metadata, sp_tracking := zero_tracking\<rparr>)
      else
        let (model, effort) = turn_model s
        in (Inr (Some (rpc (cm_client c) ''turn/start'' (JObj (
              omit (effort = []) ''effort'' (JStr effort) @ [(''input'', input_text (cm_text c))] @
              omit (model = []) ''model'' (JStr model) @ [(''threadId'', vendor)])))),
            s\<lparr>sp_context := zero_metadata\<lparr>rm_model := model, rm_effort := effort,
                 rm_model_source := (if model = [] then [] else ''requested''),
                 rm_effort_source := (if effort = [] then [] else ''requested'')\<rparr>,
              sp_tracking := zero_tracking\<lparr>tr_started := Some (en_now env)\<rparr>\<rparr>))"

definition async_answer_json :: "question \<Rightarrow> answer_selection \<Rightarrow> json" where
  "async_answer_json q a = JObj ([(''question'', JStr (qu_text q)), (''selected'', JArr (map JStr (as_selected a)))] @
     omit (as_other a = []) ''other'' (JStr (as_other a)))"

definition item_id :: "json option \<Rightarrow> string" where
  "item_id raw = fst (unmarshal_payload (dec_struct (\<lambda>kvs v. dec_field ''item'' (dec_struct (\<lambda>kvs v.
     dec_field ''id'' dec_string kvs v)) kvs v)) raw [])"

definition answerAsync :: "event \<Rightarrow> command \<Rightarrow> sup \<Rightarrow> (exec_error + json option) \<times> sup" where
  "answerAsync p c s =
     (if \<not> cm_allow c then (Inr None, s)
      else if state_of s \<noteq> ''idle'' \<and> state_of s \<noteq> ''working'' then (Inl Ask_later, s)
      else case CodexAsyncQuestions (ev_payload p) of
        Inl e \<Rightarrow> (Inl (Question_error e), s)
      | Inr qs \<Rightarrow>
          case NormalizeAnswers qs (if cm_selections c = []
                 then foldl (\<lambda>m q. AList.update (qu_key q) (zero_selection\<lparr>as_other := get_or [] (cm_answers c) (qu_key q)\<rparr>) m) [] qs
                 else cm_selections c) of
            Inl e \<Rightarrow> (Inl (Question_error e), s)
          | Inr vs \<Rightarrow>
              let body = JObj [(''answers'', JArr (map (\<lambda>q. async_answer_json q (get_or zero_selection vs (qu_key q))) qs)),
                               (''question_message_id'', JStr (item_id (ev_payload p)))]
              in (Inr (Some (rpc (cm_client c) ''turn/start'' (JObj [(''input'', JArr []), (''threadId'', JStr (sn_vendor (sp_snap s))),
                    (''toolOutput'', JObj [(''name'', JStr ''request_user_input_async''), (''output'', JStr (print_json body))])]))),
                  on_codex (\<lambda>x. x\<lparr>cx_replies := AList.update (print_str (cm_client c)) p (cx_replies x)\<rparr>) s))"

record codex_request =
  cr_id :: "json option"
  cr_method :: string
  cr_questions :: "(string \<times> string) list"
  cr_permissions :: "json option"

definition dec_request :: "codex_request dec" where
  "dec_request = dec_struct (\<lambda>kvs v.
     let (a, oka) = dec_field ''id'' dec_raw kvs (cr_id v);
         (b, okb) = dec_field ''method'' dec_string kvs (cr_method v);
         ((c, d), okc) = dec_field ''params'' (dec_struct (\<lambda>kvs v.
            let (q, okq) = dec_field ''questions'' (dec_list ([], []) (dec_struct (\<lambda>kvs v.
                  let (i, oki) = dec_field ''id'' dec_string kvs (fst v);
                      (t, okt) = dec_field ''question'' dec_string kvs (snd v)
                  in ((i, t), oki \<and> okt)))) kvs (fst v);
                (p, okp) = dec_field ''permissions'' dec_raw kvs (snd v)
            in ((q, p), okq \<and> okp))) kvs (cr_questions v, cr_permissions v)
     in (\<lparr>cr_id = a, cr_method = b, cr_questions = c, cr_permissions = d\<rparr>, oka \<and> okb \<and> okc))"

primrec input_answers :: "command \<Rightarrow> answers \<Rightarrow> (string \<times> string) list \<Rightarrow> (string, json) gomap \<Rightarrow> exec_error + (string, json) gomap" where
  "input_answers c selections [] m = Inr m"
| "input_answers c selections (q # qs) m =
     (let (i, t) = q;
          a = get_or [] (cm_answers c) i;
          answer = (if a = [] then get_or [] (cm_answers c) t else a)
      in if cm_allow c \<and> answer = [] \<and> selections = [] then Inl (Answer_required t)
         else
           let choice = get_or zero_selection selections i;
               xs = (if \<not> cm_allow c then []
                     else if selections \<noteq> [] then as_selected choice @ (if as_other choice \<noteq> [] then [as_other choice] else [])
                     else [answer])
           in input_answers c selections qs (AList.update i (JObj [(''answers'', JArr (map JStr xs))]) m))"

definition input_selections :: "command \<Rightarrow> codex_request \<Rightarrow> event \<Rightarrow> exec_error + answers" where
  "input_selections c r p =
     (if cm_allow c \<and> cm_selections c \<noteq> [] then
        (case Questions ''codex'' (cr_method r) (ev_payload p) of
           Inl e \<Rightarrow> Inl (Question_error e)
         | Inr qs \<Rightarrow> (case NormalizeAnswers qs (cm_selections c) of Inl e \<Rightarrow> Inl (Question_error e) | Inr vs \<Rightarrow> Inr vs))
      else Inr [])"

definition codex_decision :: "lib \<Rightarrow> command \<Rightarrow> codex_request \<Rightarrow> event \<Rightarrow> exec_error + json" where
  "codex_decision lib c r p =
     (if cr_method r = CodexElicitation then
        (case ElicitationResponse lib (ev_payload p) (cm_allow c) (cm_selections c) (cm_answers c) of
           Inl e \<Rightarrow> Inl (Question_error e) | Inr v \<Rightarrow> Inr v)
      else if cr_method r = ''item/tool/requestUserInput'' then
        bind_res (input_selections c r p) (\<lambda>selections.
          bind_res (input_answers c selections (cr_questions r) []) (\<lambda>m.
            Inr (JObj [(''answers'', map_json (\<lambda>v. v) m)])))
      else if cr_method r = ''item/permissions/requestApproval''
      then Inr (JObj [(''permissions'', if cm_allow c then raw_doc (cr_permissions r) else JObj []), (''scope'', JStr ''turn'')])
      else Inr (JObj [(''decision'', JStr (if cm_allow c then ''accept'' else ''decline''))]))"

definition codex_reply :: "lib \<Rightarrow> command \<Rightarrow> sup \<Rightarrow> (exec_error + json option) \<times> sup" where
  "codex_reply lib c s =
     (case map_of (sp_pending s) (cm_request c) of
        None \<Rightarrow> (Inl Stale_approval, s)
      | Some p \<Rightarrow>
          if ev_text p = CodexAsyncQuestion then answerAsync p c s
          else case unmarshal_payload dec_request (ev_payload p)
                 \<lparr>cr_id = None, cr_method = [], cr_questions = [], cr_permissions = None\<rparr> of
              (r, ok) \<Rightarrow>
                if \<not> ok then (Inl Bad_payload, s)
                else (case codex_decision lib c r p of
                    Inl e \<Rightarrow> Inl e
                  | Inr result \<Rightarrow> Inr (Some (JObj [(''id'', raw_doc (cr_id r)), (''result'', result)])), s))"

definition codex_command :: "env \<Rightarrow> string \<Rightarrow> command \<Rightarrow> sup \<Rightarrow> (exec_error + json option) \<times> sup" where
  "codex_command env op c s =
     (if op = ''send'' then codex_send env c s
      else if op = ''interrupt'' then
        (let turn = cx_turn (the_codex s) in
         if turn = [] then (Inl No_active_turn, s)
         else (Inr (Some (rpc (cm_client c) ''turn/interrupt''
                (JObj [(''threadId'', JStr (sn_vendor (sp_snap s))), (''turnId'', JStr turn)]))), s))
      else if op = ''stop'' then (Inr None, s)
      else if op = ''reply'' then codex_reply (en_lib env) c s
      else (Inl Unknown_command, s))"

section \<open>Frames\<close>

definition codex_quota :: "env \<Rightarrow> sup \<Rightarrow> sup option" where
  "codex_quota env = requestQuota env (rpc ''cxz-quota'' ''account/rateLimits/read'' (JObj []))"

definition startThread :: "env \<Rightarrow> sup \<Rightarrow> sup option" where
  "startThread env s = do {
     s \<leftarrow> readModels env s;
     let ss = sp_session s;
     let vendor = sn_vendor (sp_snap s);
     let (method, extra) = (case ss_fork ss of
           Some (origin, path) \<Rightarrow>
             if vendor = [] \<and> origin \<noteq> [] then (''thread/fork'', [(''threadId'', JStr origin), (''path'', JStr path), (''excludeTurns'', JBool True)])
             else if vendor \<noteq> [] then (''thread/resume'', [(''threadId'', JStr vendor), (''excludeTurns'', JBool True)])
             else (''thread/start'', [])
         | None \<Rightarrow>
             if vendor \<noteq> [] then (''thread/resume'', [(''threadId'', JStr vendor), (''excludeTurns'', JBool True)])
             else (''thread/start'', []));
     let params = [(''cwd'', JStr (ss_workspace ss)), (''approvalPolicy'', JStr ''untrusted''), (''sandbox'', JStr ''danger-full-access''),
           (''experimentalRawEvents'', JBool False), (''persistExtendedHistory'', JBool True)] @
           (if ss_project ss \<noteq> [] \<or> sp_mcp s \<noteq> [] then [(''developerInstructions'', JStr (sp_mcp s))] else []) @
           omit (ss_model ss = []) ''model'' (JStr (ss_model ss)) @ extra;
     Some (write_ignore env (rpc ''cxz-thread'' method (map_json (\<lambda>v. v) params)) s) }"

definition fail_session :: "env \<Rightarrow> sup \<Rightarrow> sup option" where
  "fail_session env s = map_option kill (say env ''state'' ''failed'' s)"

text \<open>Recording a request that waits for an answer: \<open>s.pending[id] = s.event("approval", ...)\<close>.\<close>

definition ask :: "env \<Rightarrow> string \<Rightarrow> string \<Rightarrow> json option \<Rightarrow> sup \<Rightarrow> sup option" where
  "ask env name rid payload s = do {
     (p, s) \<leftarrow> event_full env ''approval'' name rid payload [] None s;
     Some (s\<lparr>sp_pending := AList.update rid p (sp_pending s)\<rparr>) }"

definition reset_response :: "sup \<Rightarrow> sup" where
  "reset_response s = s\<lparr>sp_context := zero_metadata, sp_tracking := zero_tracking\<rparr>"

definition async_failed :: "env \<Rightarrow> codex_frame \<Rightarrow> event \<Rightarrow> sup \<Rightarrow> sup option" where
  "async_failed env v p s = do {
     s \<leftarrow> ask env CodexAsyncQuestion (ev_request p) (Some (raw_doc (ev_payload p))) s;
     s \<leftarrow> event env ''diagnostic'' ''Codex rejected the asynchronous answer; question restored, not retried'' (ev_request p) (cf_error v) s;
     if cx_turn (the_codex s) = [] then say env ''state'' ''idle'' s else Some s }"

definition models_reply :: "env \<Rightarrow> codex_frame \<Rightarrow> sup \<Rightarrow> sup option" where
  "models_reply env v s =
     (if failed (cf_error v) then say env ''models_status'' ''unavailable'' (s\<lparr>sp_model_requested := None\<rparr>)
      else
        let s = s\<lparr>sp_model_pages := sp_model_pages s @ Models ''codex'' (cf_result v)\<rparr>;
            cursor = fst (peek_string ''nextCursor'' (cf_result v))
        in if cursor \<noteq> [] \<and> length (sp_model_pages s) < 1000
           then Some (write_ignore env (rpc ''cxz-models'' ''model/list''
                  (JObj [(''cursor'', JStr cursor), (''includeHidden'', JBool False), (''limit'', JInt 100)])) s)
           else publishModels env (s\<lparr>sp_options := sp_model_pages s, sp_model_requested := None\<rparr>))"

definition quota_reply :: "env \<Rightarrow> codex_frame \<Rightarrow> sup \<Rightarrow> sup option" where
  "quota_reply env v s = do {
     let s = s\<lparr>sp_quota_requested := None\<rparr>;
     s \<leftarrow> (if present (cf_result v) then event env ''usage'' ''account/rateLimits/updated'' [] (cf_result v) s else Some s);
     if peek_code (cf_error v) = (-32601, True) then say env ''usage_status'' ''unsupported'' (s\<lparr>sp_quota_disabled := True\<rparr>)
     else if failed (cf_error v) then say env ''usage_status'' ''error'' s
     else Some s }"

definition steer_reply :: "env \<Rightarrow> codex_frame \<Rightarrow> command \<Rightarrow> sup \<Rightarrow> sup option" where
  "steer_reply env v c s =
     (if failed (cf_error v)
      then event env ''diagnostic'' ''Codex would not take the message into the running turn; it waits for the next one'' (cm_client c) (cf_error v) s
      else event env ''input'' (cm_text c) (cm_client c) None s)"

definition request_failed :: "env \<Rightarrow> codex_frame \<Rightarrow> sup \<Rightarrow> sup option" where
  "request_failed env v s = do {
     s \<leftarrow> event env ''diagnostic'' ''Codex request failed'' [] (cf_error v) s;
     if state_of s = ''starting'' then fail_session env s
     else do {
       s \<leftarrow> clearPending env s;
       s \<leftarrow> event env ''turn_end'' ''failed'' [] (cf_error v) s;
       say env ''state'' ''idle'' (reset_response s) } }"

definition token_json :: "string \<times> string \<times> string option \<Rightarrow> json" where
  "token_json t = (case t of (access, account, plan) \<Rightarrow> JObj [(''accessToken'', JStr access), (''chatgptAccountId'', JStr account),
     (''chatgptPlanType'', case plan of None \<Rightarrow> JNull | Some p \<Rightarrow> JStr p)])"

definition initialized :: "env \<Rightarrow> sup \<Rightarrow> sup option" where
  "initialized env s =
     (let s = write_ignore env (JObj [(''method'', JStr ''initialized'')]) s in
      case en_token env of
        None \<Rightarrow> startThread env s
      | Some token \<Rightarrow> (case token [] False of
            None \<Rightarrow> do {
              s \<leftarrow> say env ''diagnostic'' ''central authentication unavailable; check account login'' s;
              fail_session env s }
          | Some (access, account, plan) \<Rightarrow>
              Some (write_ignore env (rpc ''cxz-auth'' ''account/login/start'' (JObj [(''accessToken'', JStr access),
                (''chatgptAccountId'', JStr account), (''chatgptPlanType'', case plan of None \<Rightarrow> JNull | Some p \<Rightarrow> JStr p),
                (''type'', JStr ''chatgptAuthTokens'')])) s)))"

definition thread_reply :: "env \<Rightarrow> codex_frame \<Rightarrow> sup \<Rightarrow> sup option" where
  "thread_reply env v s =
     (case unmarshal_payload (dec_struct (\<lambda>kvs v. dec_field ''thread'' (dec_struct (\<lambda>kvs v. dec_field ''id'' dec_string kvs v)) kvs v))
             (cf_result v) [] of
        (thread, ok) \<Rightarrow>
          if \<not> ok \<or> thread = [] then fail_session env s
          else if sn_vendor (sp_snap s) = [] \<and> (case ss_fork (sp_session s) of Some (origin, _) \<Rightarrow> thread = origin | None \<Rightarrow> False)
          then do {
            s \<leftarrow> say env ''diagnostic'' ''Codex did not create an independent fork'' s;
            fail_session env s }
          else do {
            s \<leftarrow> say env ''vendor'' thread (s\<lparr>sp_snap := (sp_snap s)\<lparr>sn_vendor := thread\<rparr>\<rparr>);
            s \<leftarrow> say env ''state'' ''idle'' s;
            s \<leftarrow> codex_quota env s;
            readBackground env True s })"

definition server_request :: "env \<Rightarrow> string \<Rightarrow> codex_frame \<Rightarrow> sup \<Rightarrow> sup option" where
  "server_request env rid v s =
     (let m = cf_method v; answer = (\<lambda>k x. JObj (sort_key fst [(k, x), (''id'', raw_doc (cf_id v))])) in
      if m = ''account/chatgptAuthTokens/refresh'' then
        (case (case en_token env of
            None \<Rightarrow> None
          | Some token \<Rightarrow> (case peek_string ''previousAccountId'' (cf_params v) of (p, ok) \<Rightarrow> if ok then token p True else None)) of
           None \<Rightarrow> say env ''diagnostic'' ''central authentication refresh failed''
               (write_ignore env (answer ''error'' (JObj [(''code'', JInt (-32000)),
                 (''message'', JStr ''central authentication unavailable; check account login'')])) s)
         | Some token \<Rightarrow> Some (write_ignore env (answer ''result'' (token_json token)) s))
      else if m \<in> {CodexElicitation, ''item/commandExecution/requestApproval'', ''item/fileChange/requestApproval'',
                  ''item/permissions/requestApproval'', ''item/tool/requestUserInput''} then do {
        s \<leftarrow> ask env m rid (Some (JObj [(''id'', raw_doc (cf_id v)), (''method'', JStr m), (''params'', raw_doc (cf_params v))])) s;
        say env ''state'' ''waiting_input'' s }
      else
        say env ''diagnostic'' (''unsupported Codex request: '' @ m)
          (write_ignore env (answer ''error'' (JObj [(''code'', JInt (-32601)),
             (''message'', JStr ''cxz does not support this server request; use project-local login for authentication'')]))
             (s\<lparr>sp_unknown := True\<rparr>)))"

definition request_resolved :: "env \<Rightarrow> codex_frame \<Rightarrow> sup \<Rightarrow> sup option" where
  "request_resolved env v s =
     (case unmarshal_payload (dec_struct (\<lambda>kvs v. dec_field ''requestId'' dec_raw kvs v)) (cf_params v) None of
        (r, ok) \<Rightarrow>
          let request = (case r of None \<Rightarrow> [] | Some j \<Rightarrow> raw_text j) in
          if \<not> ok \<or> \<not> has_key (sp_pending s) request then Some s
          else do {
            s \<leftarrow> event env ''approval_resolved'' ''canceled'' request None (s\<lparr>sp_pending := AList.delete request (sp_pending s)\<rparr>);
            if \<not> hasBlockingPending s \<and> state_of s = ''waiting_input''
            then say env ''state'' (if cx_turn (the_codex s) \<noteq> [] then ''working'' else ''idle'') s
            else Some s })"

definition turn_started :: "env \<Rightarrow> codex_params \<Rightarrow> sup \<Rightarrow> sup option" where
  "turn_started env p s =
     (let s = on_codex (\<lambda>c. c\<lparr>cx_turn := cp_turn p\<rparr>) s;
          s = (if rm_turn (sp_context s) \<noteq> [] \<and> rm_turn (sp_context s) \<noteq> cp_turn p then reset_response s else s)
      in say env ''state'' ''working'' (s\<lparr>sp_context := (sp_context s)\<lparr>rm_turn := cp_turn p\<rparr>\<rparr>))"

definition blocking_keys :: "sup \<Rightarrow> string list" where
  "blocking_keys s = map fst (filter (\<lambda>(k, p). ev_text p \<noteq> CodexAsyncQuestion) (sp_pending s))"

definition turn_completed :: "env \<Rightarrow> codex_frame \<Rightarrow> codex_params \<Rightarrow> sup \<Rightarrow> sup option" where
  "turn_completed env v p s = do {
     s \<leftarrow> resolve_all env (blocking_keys s) s;
     let state = (if cp_status p = ''interrupted'' \<or> sp_interrupted s then ''interrupted''
                  else if cp_status p = ''failed'' then ''failed'' else ''completed'');
     let s = on_codex (\<lambda>c. c\<lparr>cx_turn := []\<rparr>) (s\<lparr>sp_interrupted := False\<rparr>);
     (_, s) \<leftarrow> event_full env ''turn_end'' state [] (Some (raw_doc (cf_params v))) [] (Some (completeResponse env state (cf_params v) s)) s;
     s \<leftarrow> say env ''state'' ''idle'' (reset_response s);
     s \<leftarrow> codex_quota env s;
     readBackground env True s }"

definition tool_item :: "string \<Rightarrow> bool" where
  "tool_item t \<longleftrightarrow> t = ''commandExecution'' \<or> t = ''fileChange'' \<or> t = ''mcpToolCall''"

definition agent_message :: "env \<Rightarrow> codex_frame \<Rightarrow> codex_item \<Rightarrow> sup \<Rightarrow> sup option" where
  "agent_message env v item s =
     (let m = (sp_context s)\<lparr>rm_phase := ci_phase item\<rparr>;
          turn = fst (peek_string ''turnId'' (cf_params v));
          m = (if turn \<noteq> [] \<and> turn \<noteq> rm_turn m then zero_metadata\<lparr>rm_turn := turn\<rparr> else m);
          rid = ''async:'' @ ci_id item
      in do {
        (_, s) \<leftarrow> event_full env ''assistant'' (ci_text item) (ci_id item) (Some (raw_doc (cf_params v))) [] (Some m) s;
        if is_ok (CodexAsyncQuestions (cf_params v)) \<and> \<not> has_key (cx_seen (the_codex s)) rid
        then ask env CodexAsyncQuestion rid (Some (raw_doc (cf_params v)))
               (on_codex (\<lambda>c. c\<lparr>cx_seen := AList.update rid True (cx_seen c)\<rparr>) s)
        else Some s })"

definition item_completed :: "env \<Rightarrow> codex_frame \<Rightarrow> codex_item \<Rightarrow> sup \<Rightarrow> sup option" where
  "item_completed env v item s = do {
     s \<leftarrow> (if ci_type item = ''contextCompaction'' then event env ''compact'' ''completed'' (ci_id item) (Some (raw_doc (cf_params v))) s
           else if ci_type item = ''agentMessage'' then agent_message env v item s
           else if tool_item (ci_type item) then event env ''tool_result'' (ci_output item) (ci_id item) (Some (raw_doc (cf_params v))) s
           else Some s);
     if ci_type item = ''commandExecution'' then readBackground env True s else Some s }"

definition item_started :: "env \<Rightarrow> codex_frame \<Rightarrow> codex_item \<Rightarrow> sup \<Rightarrow> sup option" where
  "item_started env v item s = do {
     s \<leftarrow> (if tool_item (ci_type item) then event env ''tool_call'' (ci_command item) (ci_id item) (Some (raw_doc (cf_params v))) s else Some s);
     if ci_type item = ''commandExecution'' then readBackground env True s else Some s }"

definition output_delta :: "env \<Rightarrow> codex_frame \<Rightarrow> sup \<Rightarrow> sup option" where
  "output_delta env v s =
     (case unmarshal_payload (dec_struct (\<lambda>kvs v.
             let (a, oka) = dec_field ''itemId'' dec_string kvs (fst v);
                 (b, okb) = dec_field ''delta'' dec_string kvs (snd v)
             in ((a, b), oka \<and> okb))) (cf_params v) ([], []) of
        ((item, delta), ok) \<Rightarrow>
          if ok \<and> item \<noteq> [] \<and> delta \<noteq> [] then event env ''tool_output'' delta item None s else Some s)"

definition codex_notification :: "env \<Rightarrow> codex_frame \<Rightarrow> codex_params \<Rightarrow> sup \<Rightarrow> sup option" where
  "codex_notification env v p s =
     (let m = cf_method v; params = Some (raw_doc (cf_params v)) in
      if m = ''serverRequest/resolved'' then request_resolved env v s
      else if m = ''turn/started'' then turn_started env p s
      else if m = ''turn/completed'' then turn_completed env v p s
      else if m = ''item/commandExecution/outputDelta'' then output_delta env v s
      else if m = ''item/started'' then item_started env v (cp_item p) s
      else if m = ''item/completed'' then item_completed env v (cp_item p) s
      else if m = ''thread/tokenUsage/updated'' then
        map_option (captureResponseUsage env (cf_params v)) (event env ''usage'' m [] params s)
      else if m = ''account/rateLimits/updated'' then event env ''usage'' m [] params s
      else if m = ''error'' then event env ''diagnostic'' ''Codex error'' [] params s
      else Some s)"

text \<open>A frame that is not a reply to a poll of the background terminals.\<close>

definition codex_frame_step :: "env \<Rightarrow> string \<Rightarrow> codex_frame \<Rightarrow> codex_params \<Rightarrow> sup \<Rightarrow> sup option" where
  "codex_frame_step env rid v p s =
     (if rid = wrap_quotes ''cxz-progress-interrupt'' then
        (if failed (cf_error v) then do {
           s \<leftarrow> say env ''diagnostic'' ''Codex rejected the response-timeout interrupt; resume the session to reconnect.'' s;
           fail_session env s }
         else Some s)
      else case map_of (cx_replies (the_codex s)) rid of
        Some q \<Rightarrow>
          (let s = on_codex (\<lambda>c. c\<lparr>cx_replies := AList.delete rid (cx_replies c)\<rparr>) s
           in if failed (cf_error v) then async_failed env v q s else Some s)
      | None \<Rightarrow>
          if rid = wrap_quotes ''cxz-models'' then models_reply env v s
          else if rid = wrap_quotes ''cxz-quota'' then quota_reply env v s
          else case map_of (cx_steering (the_codex s)) rid of
            Some c \<Rightarrow> steer_reply env v c (on_codex (\<lambda>x. x\<lparr>cx_steering := AList.delete rid (cx_steering x)\<rparr>) s)
          | None \<Rightarrow>
              if failed (cf_error v) then
                (if rid = wrap_quotes ''cxz-auth'' then do {
                   s \<leftarrow> say env ''diagnostic'' ''central Codex login failed'' s;
                   fail_session env s }
                 else request_failed env v s)
              else if rid = wrap_quotes ''cxz-initialize'' then initialized env s
              else if rid = wrap_quotes ''cxz-auth'' then startThread env s
              else if rid = wrap_quotes ''cxz-thread'' then thread_reply env v s
              else if cf_id v \<noteq> None \<and> cf_method v \<noteq> [] then server_request env rid v s
              else codex_notification env v p s)"

definition other_turn :: "codex_frame \<Rightarrow> codex_params \<Rightarrow> sup \<Rightarrow> bool" where
  "other_turn v p s \<longleftrightarrow> cf_id v = None \<and> cf_method v \<noteq> [] \<and>
     ((cp_thread p \<noteq> [] \<and> cp_thread p \<noteq> sn_vendor (sp_snap s)) \<or>
      (cf_method v = ''turn/completed'' \<and> (cx_turn (the_codex s) = [] \<or> cp_turn p \<noteq> cx_turn (the_codex s))))"

definition codex_consume :: "env \<Rightarrow> json option \<Rightarrow> sup \<Rightarrow> sup option" where
  "codex_consume env raw s =
     (case unmarshal_payload dec_frame raw zero_frame of
        (v, ok) \<Rightarrow>
          if \<not> ok then say env ''diagnostic'' ''invalid Codex JSON'' s
          else
            let p = fst (unmarshal_payload dec_params (cf_params v) zero_params) in
            if other_turn v p s then Some s
            else do {
              let s = on_progress (observe_progress (en_now env) (cf_method v) (cf_params v)) s;
              let rid = (case cf_id v of None \<Rightarrow> [] | Some j \<Rightarrow> raw_text j);
              (handled, s) \<leftarrow> consumeBackground env rid (cf_result v) (cf_error v) s;
              if handled then Some s else codex_frame_step env rid v p s })"

end
