(* ===== verification/Execute.thy ===== *)
theory Execute
  imports Codex
begin

text \<open>
  What a client may ask of a session: \<open>executeLocked\<close> of \<^verbatim>\<open>supervisor.go\<close>, with the guards that make a
  command idempotent, what Claude is told, the permission mode and the automatic approvals
  (\<^verbatim>\<open>permission.go\<close>), and the delivery of the waiting message (\<^verbatim>\<open>queue.go\<close>).

  \<open>executeLocked\<close> answers a permission command through \<open>approvePending\<close>, which executes replies:
  \<open>executeReply\<close> is \<open>executeLocked\<close> at the operation \<^verbatim>\<open>reply\<close>, so neither has to recur.
\<close>

section \<open>What Claude is told\<close>

record claude_request =
  ca_tool :: string
  ca_input :: "(string, json) gomap option"

definition dec_claude_request :: "lib \<Rightarrow> claude_request dec" where
  "dec_claude_request lib = dec_struct (\<lambda>kvs v.
     let (a, oka) = dec_field ''tool_name'' dec_string kvs (ca_tool v);
         (b, okb) = dec_field ''input'' (dec_opt_map JNull (dec_any lib)) kvs (ca_input v)
     in (\<lparr>ca_tool = a, ca_input = b\<rparr>, oka \<and> okb))"

definition input_json :: "(string, json) gomap option \<Rightarrow> json" where
  "input_json m = (case m of None \<Rightarrow> JNull | Some m \<Rightarrow> map_json (\<lambda>v. v) m)"

fun unanswered :: "(string, string) gomap \<Rightarrow> json list \<Rightarrow> string option" where
  "unanswered ans [] = None"
| "unanswered ans (q # qs) =
     (let key = (case map_of (obj_fields q) ''question'' of Some (JStr k) \<Rightarrow> k | _ \<Rightarrow> [])
      in if get_or [] ans key = [] then Some key else unanswered ans qs)"

definition claude_answers :: "command \<Rightarrow> event \<Rightarrow> claude_request \<Rightarrow>
    exec_error + (string, string) gomap \<times> (string, (string, string) gomap) gomap" where
  "claude_answers c p r =
     (if cm_selections c = [] then Inr (cm_answers c, [])
      else case Questions ''claude'' (ca_tool r) (ev_payload p) of
        Inl e \<Rightarrow> Inl (Question_error e)
      | Inr qs \<Rightarrow> (case NormalizeAnswers qs (cm_selections c) of
            Inl e \<Rightarrow> Inl (Question_error e)
          | Inr vs \<Rightarrow> Inr (ClaudeAnswerAnnotations qs vs)))"

definition claude_input :: "command \<Rightarrow> event \<Rightarrow> claude_request \<Rightarrow> exec_error + json" where
  "claude_input c p r =
     (if ca_tool r \<noteq> ''AskUserQuestion'' then Inr (input_json (ca_input r))
      else bind_res (claude_answers c p r) (\<lambda>(ans, notes).
        let input = (case ca_input r of None \<Rightarrow> [] | Some m \<Rightarrow> m);
            input = (if notes = [] then input else AList.update ''annotations'' (map_json (map_json JStr) notes) input)
        in case map_of input ''questions'' of
             Some (JArr (q # qs)) \<Rightarrow>
               (case unanswered ans (q # qs) of
                  Some key \<Rightarrow> Inl (Answer_required key)
                | None \<Rightarrow> Inr (map_json (\<lambda>v. v) (AList.update ''answers'' (map_json JStr ans) input)))
           | _ \<Rightarrow> Inl Questions_missing))"

definition claude_response :: "string \<Rightarrow> json \<Rightarrow> json" where
  "claude_response rid response = JObj [(''response'', JObj [(''request_id'', JStr rid), (''response'', response),
     (''subtype'', JStr ''success'')]), (''type'', JStr ''control_response'')]"

definition claude_reply :: "lib \<Rightarrow> command \<Rightarrow> sup \<Rightarrow> exec_error + json option" where
  "claude_reply lib c s =
     (case map_of (sp_pending s) (cm_request c) of
        None \<Rightarrow> Inl Stale_approval
      | Some p \<Rightarrow>
          (case unmarshal_payload (dec_claude_request lib) (ev_payload p) \<lparr>ca_tool = [], ca_input = None\<rparr> of
             (r, ok) \<Rightarrow>
               if \<not> ok then Inl Bad_payload
               else bind_res (if \<not> cm_allow c
                   then Inr (JObj [(''behavior'', JStr ''deny''), (''message'', JStr ''User denied this request.'')])
                   else bind_res (claude_input c p r) (\<lambda>input.
                     Inr (JObj [(''behavior'', JStr ''allow''), (''updatedInput'', input)])))
                 (\<lambda>response. Inr (Some (claude_response (cm_request c) response)))))"

definition claude_command :: "env \<Rightarrow> string \<Rightarrow> command \<Rightarrow> sup \<Rightarrow> (exec_error + json option) \<times> sup" where
  "claude_command env op c s =
     (if op = ''send'' then
        (if state_of s \<noteq> ''idle'' then (Inl Queue_input, s)
         else (Inr (Some (JObj [(''message'', JObj [(''content'', JStr (cm_text c)), (''role'', JStr ''user'')]),
                 (''parent_tool_use_id'', JNull), (''session_id'', JStr []), (''type'', JStr ''user'')])),
               s\<lparr>sp_context := claudeResponseContext s, sp_tracking := zero_tracking\<lparr>tr_started := Some (en_now env)\<rparr>\<rparr>))
      else if op = ''reply'' then (claude_reply (en_lib env) c s, s)
      else if op = ''interrupt'' then
        (if state_of s \<noteq> ''working'' \<and> state_of s \<noteq> ''waiting_input'' then (Inl No_active_turn, s)
         else (Inr (Some (control_request (cm_client c) (JObj [(''subtype'', JStr ''interrupt'')]))), s))
      else if op = ''stop'' then (Inr None, s)
      else (Inl Unknown_command, s))"

section \<open>Carrying a command out\<close>

definition wire_action :: "json option \<Rightarrow> string" where
  "wire_action wire = field_text (child (object wire) ''result'') ''action''"

definition resolved_as :: "command \<Rightarrow> json option \<Rightarrow> sup \<Rightarrow> string" where
  "resolved_as c wire s =
     (let resolved = (if cm_allow c then ''allowed'' else ''denied'');
          p = get_or zero_event (sp_pending s) (cm_request c);
          action = wire_action wire
      in if sp_codex s \<noteq> None \<and> ev_text p = CodexElicitation
         then (if action = ''decline'' then ''denied'' else if action = ''cancel'' then ''canceled'' else resolved)
         else resolved)"

definition perform_send :: "env \<Rightarrow> command \<Rightarrow> sup \<Rightarrow> sup option" where
  "perform_send env c s =
     (if cm_client (get_or zero_command (cx_steering (the_codex s)) (wrap_quotes (cm_client c))) \<noteq> []
      then event env ''queued'' (cm_text c) (cm_client c) None s
      else do {
        s \<leftarrow> event env ''input'' (cm_text c) (cm_client c) None s;
        if state_of s \<noteq> ''working'' \<and> state_of s \<noteq> ''waiting_input'' then say env ''state'' ''working'' s else Some s })"

definition perform_reply :: "env \<Rightarrow> command \<Rightarrow> string \<Rightarrow> sup \<Rightarrow> sup option" where
  "perform_reply env c resolved s =
     (let p = get_or zero_event (sp_pending s) (cm_request c);
          answer = QuestionReply (ss_kind (sp_session s)) (ev_text p) (ev_payload p) resolved (cm_answers c) (cm_selections c);
          s = s\<lparr>sp_pending := AList.delete (cm_request c) (sp_pending s)\<rparr>
      in do {
        s \<leftarrow> event env ''approval_resolved'' resolved (cm_request c) (map_option resolution_json answer) s;
        if ev_text p = CodexAsyncQuestion
        then (if cm_allow c then say env ''state'' ''working'' s else Some s)
        else (if \<not> hasBlockingPending s then say env ''state'' ''working'' s else Some s) })"

definition perform_interrupt :: "env \<Rightarrow> sup \<Rightarrow> sup option" where
  "perform_interrupt env s = do {
     s \<leftarrow> clearPending env (s\<lparr>sp_interrupted := True\<rparr>);
     s \<leftarrow> dropQueued env ''the turn was interrupted'' s;
     say env ''state'' ''working'' s }"

definition perform_stop :: "env \<Rightarrow> sup \<Rightarrow> sup option" where
  "perform_stop env s = do {
     s \<leftarrow> dropQueued env ''the agent was stopped'' (s\<lparr>sp_stopping := True\<rparr>);
     say env ''state'' ''stopping'' s }"

definition perform :: "env \<Rightarrow> string \<Rightarrow> command \<Rightarrow> json option \<Rightarrow> sup \<Rightarrow> (outcome \<times> sup) option" where
  "perform env op c wire s =
     (let r = new_record op c ''delivery_unknown''; resolved = resolved_as c wire s in
      do {
        s \<leftarrow> event env ''intent'' op (cm_client c) (Some (record_json r)) s;
        let s = put_receipt c r s;
        s \<leftarrow> (if op = ''send'' then perform_send env c s
              else if op = ''reply'' then perform_reply env c resolved s
              else if op = ''interrupt'' then perform_interrupt env s
              else if op = ''stop'' then perform_stop env s
              else Some s);
        let (ok, s) = (case wire of None \<Rightarrow> (True, s) | Some w \<Rightarrow> write_agent env w s);
        if \<not> ok then Some (ok_receipt c ''delivery_unknown'', kill s)
        else do {
          let r = new_record op c ''accepted'';
          s \<leftarrow> event env ''receipt'' op (cm_client c) (Some (record_json r)) s;
          Some (ok_receipt c ''accepted'', put_receipt c r s) } })"

definition run_command :: "env \<Rightarrow> string \<Rightarrow> command \<Rightarrow> sup \<Rightarrow> (outcome \<times> sup) option" where
  "run_command env op c s =
     (case (if sp_codex s \<noteq> None then codex_command env op c s else claude_command env op c s) of
        (Inl Queue_input, s) \<Rightarrow> enqueue env c s
      | (Inl e, s) \<Rightarrow> Some (Inl e, s)
      | (Inr wire, s) \<Rightarrow> perform env op c wire s)"

section \<open>The guards\<close>

text \<open>What every command meets first: \<open>Some\<close> answers it at once.\<close>

definition admit :: "string \<Rightarrow> command \<Rightarrow> sup \<Rightarrow> outcome option" where
  "admit op c s =
     (if cm_client c = [] then Some (Inl Client_id_required)
      else case map_of (sp_receipts s) (cm_client c) of
        Some old \<Rightarrow> Some (if record_conflicts old op c then Inl Client_id_reused else ok_receipt c (rd_status old))
      | None \<Rightarrow> if cm_run c \<noteq> run_of s then Some (Inl Stale_run) else None)"

definition send_refused :: "command \<Rightarrow> sup \<Rightarrow> exec_error option" where
  "send_refused c s =
     (if sp_setting_pending s \<noteq> [] then Some Setting_pending
      else if cm_text c = [] then Some Text_required
      else if sn_queued (sp_snap s) \<noteq> [] \<and> sn_queued_id (sp_snap s) \<noteq> cm_client c then Some Slot_taken
      else None)"

definition proceed :: "env \<Rightarrow> string \<Rightarrow> command \<Rightarrow> sup \<Rightarrow> (outcome \<times> sup) option" where
  "proceed env op c s =
     (if op = ''unqueue'' then unqueue env c s
      else if op = ''models'' then refreshModels env c s
      else if op = ''send'' then
        (if isSettingCommand (cm_text c) then configure env c s
         else case send_refused c s of
             Some e \<Rightarrow> Some (Inl e, s)
           | None \<Rightarrow> run_command env op c s)
      else run_command env op c s)"

definition dispatch :: "env \<Rightarrow> string \<Rightarrow> command \<Rightarrow> sup \<Rightarrow> (outcome \<times> sup) option" where
  "dispatch env op c s =
     (if op = ''update-stop'' then
        (case updateReason (en_idle env) (en_now env) (en_busy env) s of
           (reason, s) \<Rightarrow>
             if reason \<noteq> [] then Some (Inl (Not_ready reason), s)
             else do {
               s \<leftarrow> say env ''update'' ''applying agent update'' s;
               proceed env ''stop'' c s })
      else proceed env op c s)"

definition executeReply :: "env \<Rightarrow> command \<Rightarrow> sup \<Rightarrow> (outcome \<times> sup) option" where
  "executeReply env c s =
     (case admit ''reply'' c s of Some r \<Rightarrow> Some (r, s) | None \<Rightarrow> run_command env ''reply'' c s)"

section \<open>Automatic approval\<close>

definition auto_client :: "sup \<Rightarrow> event \<Rightarrow> string" where
  "auto_client s p = ''auto:'' @ run_of s @ '':'' @ ev_request p"

definition auto_command :: "sup \<Rightarrow> event \<Rightarrow> command" where
  "auto_command s p = zero_command\<lparr>cm_run := run_of s, cm_client := auto_client s p, cm_request := ev_request p, cm_allow := True,
     cm_selections := (if ev_text p = CodexElicitation then ElicitationSelection ''Accept'' else [])\<rparr>"

fun approve_list :: "env \<Rightarrow> event list \<Rightarrow> sup \<Rightarrow> sup option" where
  "approve_list env [] s = Some s"
| "approve_list env (p # ps) s =
     (if has_key (sp_receipts s) (auto_client s p) then approve_list env ps s
      else do {
        (r, s) \<leftarrow> executeReply env (auto_command s p) s;
        (case r of
           Inl _ \<Rightarrow> do {
             s \<leftarrow> say env ''permission'' ''ask'' s;
             say env ''diagnostic'' ''automatic approval failed; manual approval enabled'' s }
         | Inr rc \<Rightarrow> if rc_status rc \<noteq> ''accepted'' then Some s else approve_list env ps s) })"

definition approvable :: "env \<Rightarrow> sup \<Rightarrow> event list" where
  "approvable env s =
     sort_key ev_seq (filter (\<lambda>p. ev_run p = run_of s \<and> AutomaticApproval (en_lib env) (ev_text p) (ev_payload p))
       (map snd (sp_pending s)))"

definition approvePending :: "env \<Rightarrow> sup \<Rightarrow> sup option" where
  "approvePending env s =
     (if sn_permission (sp_snap s) \<noteq> ''full'' \<or> sp_stopping s \<or> \<not> running s then Some s
      else approve_list env (approvable env s) s)"

definition setPermission :: "env \<Rightarrow> command \<Rightarrow> sup \<Rightarrow> (outcome \<times> sup) option" where
  "setPermission env c s =
     (if cm_text c \<noteq> ''ask'' \<and> cm_text c \<noteq> ''full'' then Some (Inl Bad_permission_mode, s)
      else if \<not> running s then Some (Inl Not_running, s)
      else do {
        let r = new_record ''permission'' c ''accepted'';
        s \<leftarrow> event env ''permission'' (cm_text c) (cm_client c) (Some (record_json r)) s;
        s \<leftarrow> approvePending env (put_receipt c r s);
        Some (ok_receipt c ''accepted'', s) })"

definition executeLocked :: "env \<Rightarrow> string \<Rightarrow> command \<Rightarrow> sup \<Rightarrow> (outcome \<times> sup) option" where
  "executeLocked env op c s =
     (case admit op c s of
        Some r \<Rightarrow> Some (r, s)
      | None \<Rightarrow> if op = ''permission'' then setPermission env c s else dispatch env op c s)"

section \<open>The waiting message\<close>

text \<open>The text of the errors a delivery can meet.\<close>

definition send_error :: "exec_error \<Rightarrow> string" where
  "send_error e =
     (case e of
        Client_id_required \<Rightarrow> ''client_id required''
      | Client_id_reused \<Rightarrow> ''client_id reused with different command''
      | Stale_run \<Rightarrow> ''stale run_id; refresh session''
      | Setting_pending \<Rightarrow> ''model/effort update pending; wait for confirmation''
      | Text_required \<Rightarrow> ''text required''
      | Slot_taken \<Rightarrow> ''a message is already waiting for the agent; cancel it or wait''
      | No_agent_takes_it st \<Rightarrow> ''session is '' @ st @ ''; no agent will take a message''
      | Settings_need_idle \<Rightarrow> ''settings require an idle session with no pending update''
      | Setting_usage f \<Rightarrow> ''usage: '' @ f @ '' <value>''
      | Reset_effort_first \<Rightarrow> ''reset /effort default before changing models''
      | No_default_reported \<Rightarrow> ''provider has not reported a default; select an explicit catalog value''
      | Value_not_reported \<Rightarrow> ''value not reported for this model by provider; use /model, select a model before /effort''
      | _ \<Rightarrow> [])"

definition queued_command :: "sup \<Rightarrow> command" where
  "queued_command s = zero_command\<lparr>cm_run := run_of s, cm_client := sn_queued_id (sp_snap s), cm_text := sn_queued (sp_snap s)\<rparr>"

definition deliverQueued :: "env \<Rightarrow> sup \<Rightarrow> sup option" where
  "deliverQueued env s =
     (if sn_queued (sp_snap s) = [] \<or> sp_stopping s \<or> state_of s \<noteq> ''idle'' \<or> cx_steering (the_codex s) \<noteq> [] then Some s
      else
        let c = queued_command s in
        do {
          (r, s) \<leftarrow> executeLocked env ''send'' c (s\<lparr>sp_receipts := AList.delete (cm_client c) (sp_receipts s)\<rparr>);
          (case r of Inl e \<Rightarrow> dropQueued env (''delivery failed: '' @ send_error e) s | Inr _ \<Rightarrow> Some s) })"

end
