(* ===== verification/Supervisor.thy ===== *)
theory Supervisor
  imports Execute
begin

text \<open>
  The supervisor as a whole: the frames of Claude, one message of the agent consumed as one durable
  batch, the reading of its stream, retention, the requests it serves, and the life of a run
  (\<^verbatim>\<open>supervisor.go\<close>, \<^verbatim>\<open>history.go\<close>, \<^verbatim>\<open>update.go\<close>).  \<open>step\<close> is any of them, with any environment.
\<close>

section \<open>Frames of Claude\<close>

record claude_frame =
  fr_type :: string
  fr_subtype :: string
  fr_session :: string
  fr_request_id :: string
  fr_parent :: "string option"
  fr_request :: "(string, json) gomap option"
  fr_rid :: string
  fr_rsubtype :: string
  fr_response :: "json option"
  fr_rerror :: string
  fr_model :: string
  fr_usage :: "json option"
  fr_content :: "json option"
  fr_result :: string
  fr_error :: bool

definition zero_claude :: claude_frame where
  "zero_claude = \<lparr>fr_type = [], fr_subtype = [], fr_session = [], fr_request_id = [], fr_parent = None, fr_request = None,
     fr_rid = [], fr_rsubtype = [], fr_response = None, fr_rerror = [], fr_model = [], fr_usage = None, fr_content = None,
     fr_result = [], fr_error = False\<rparr>"

definition dec_claude_response :: "(string \<times> string \<times> json option \<times> string) dec" where
  "dec_claude_response = dec_struct (\<lambda>kvs (v1, v2, v3, v4).
     let (a, oka) = dec_field ''request_id'' dec_string kvs v1;
         (b, okb) = dec_field ''subtype'' dec_string kvs v2;
         (c, okc) = dec_field ''response'' dec_raw kvs v3;
         (d, okd) = dec_field ''error'' dec_string kvs v4
     in ((a, b, c, d), oka \<and> okb \<and> okc \<and> okd))"

definition dec_claude_message :: "(string \<times> json option \<times> json option) dec" where
  "dec_claude_message = dec_struct (\<lambda>kvs (v1, v2, v3).
     let (a, oka) = dec_field ''model'' dec_string kvs v1;
         (b, okb) = dec_field ''usage'' dec_raw kvs v2;
         (c, okc) = dec_field ''content'' dec_raw kvs v3
     in ((a, b, c), oka \<and> okb \<and> okc))"

definition dec_claude :: "lib \<Rightarrow> claude_frame dec" where
  "dec_claude lib = dec_struct (\<lambda>kvs v.
     let (a, oka) = dec_field ''type'' dec_string kvs (fr_type v);
         (b, okb) = dec_field ''subtype'' dec_string kvs (fr_subtype v);
         (c, okc) = dec_field ''session_id'' dec_string kvs (fr_session v);
         (d, okd) = dec_field ''request_id'' dec_string kvs (fr_request_id v);
         (e, oke) = dec_field ''parent_tool_use_id'' (dec_ptr [] dec_string) kvs (fr_parent v);
         (f, okf) = dec_field ''request'' (dec_opt_map JNull (dec_any lib)) kvs (fr_request v);
         ((g, h, i, j), okr) = dec_field ''response'' dec_claude_response kvs (fr_rid v, fr_rsubtype v, fr_response v, fr_rerror v);
         ((k, l, m), okm) = dec_field ''message'' dec_claude_message kvs (fr_model v, fr_usage v, fr_content v);
         (n, okn) = dec_field ''result'' dec_string kvs (fr_result v);
         (p, okp) = dec_field ''is_error'' dec_bool kvs (fr_error v)
     in (\<lparr>fr_type = a, fr_subtype = b, fr_session = c, fr_request_id = d, fr_parent = e, fr_request = f, fr_rid = g,
          fr_rsubtype = h, fr_response = i, fr_rerror = j, fr_model = k, fr_usage = l, fr_content = m, fr_result = n,
          fr_error = p\<rparr>,
         oka \<and> okb \<and> okc \<and> okd \<and> oke \<and> okf \<and> okr \<and> okm \<and> okn \<and> okp))"

record block =
  bl_type :: string
  bl_text :: string
  bl_name :: string
  bl_id :: string
  bl_content :: json
  bl_input :: json
  bl_tool :: string
  bl_error :: bool

definition zero_block :: block where
  "zero_block = \<lparr>bl_type = [], bl_text = [], bl_name = [], bl_id = [], bl_content = JNull, bl_input = JNull, bl_tool = [],
     bl_error = False\<rparr>"

definition dec_block :: "lib \<Rightarrow> block dec" where
  "dec_block lib = dec_struct (\<lambda>kvs v.
     let (a, oka) = dec_field ''type'' dec_string kvs (bl_type v);
         (b, okb) = dec_field ''text'' dec_string kvs (bl_text v);
         (c, okc) = dec_field ''name'' dec_string kvs (bl_name v);
         (d, okd) = dec_field ''id'' dec_string kvs (bl_id v);
         (e, oke) = dec_field ''content'' (dec_any lib) kvs (bl_content v);
         (f, okf) = dec_field ''input'' (dec_any lib) kvs (bl_input v);
         (g, okg) = dec_field ''tool_use_id'' dec_string kvs (bl_tool v);
         (h, okh) = dec_field ''is_error'' dec_bool kvs (bl_error v)
     in (\<lparr>bl_type = a, bl_text = b, bl_name = c, bl_id = d, bl_content = e, bl_input = f, bl_tool = g, bl_error = h\<rparr>,
         oka \<and> okb \<and> okc \<and> okd \<and> oke \<and> okf \<and> okg \<and> okh))"

definition block_metadata :: "claude_frame \<Rightarrow> sup \<Rightarrow> response_metadata" where
  "block_metadata v s =
     (let m = (if fr_parent v \<noteq> None then zero_metadata\<lparr>rm_phase := ''subagent''\<rparr> else sp_context s)
      in if fr_model v \<noteq> [] then m\<lparr>rm_model := fr_model v, rm_model_source := ''response''\<rparr> else m)"

definition block_step :: "env \<Rightarrow> claude_frame \<Rightarrow> block \<Rightarrow> sup \<Rightarrow> sup option" where
  "block_step env v b s =
     (if bl_type b = ''text'' then
        (if fr_type v = ''assistant''
         then map_option snd (event_full env ''assistant'' (bl_text b) [] None [] (Some (block_metadata v s)) s)
         else Some s)
      else if bl_type b = ''tool_use''
      then event env ''tool_call'' (bl_name b) (bl_id b) (if bl_input b = JNull then None else Some (bl_input b)) s
      else if bl_type b = ''tool_result''
      then event env ''tool_result'' [] (bl_tool b) (Some (JObj [(''content'', bl_content b), (''is_error'', JBool (bl_error b)),
             (''tool_use_id'', JStr (bl_tool b))])) s
      else Some s)"

fun block_steps :: "env \<Rightarrow> claude_frame \<Rightarrow> block list \<Rightarrow> sup \<Rightarrow> sup option" where
  "block_steps env v [] s = Some s"
| "block_steps env v (b # bs) s = do { s \<leftarrow> block_step env v b s; block_steps env v bs s }"

definition claude_message :: "env \<Rightarrow> claude_frame \<Rightarrow> sup \<Rightarrow> sup option" where
  "claude_message env v s = do {
     s \<leftarrow> (if fr_type v = ''assistant'' \<and> fr_usage v \<noteq> None
           then event env ''usage'' ''context/message'' []
             (Some (JObj [(''model'', JStr (fr_model v)), (''usage'', raw_doc (fr_usage v))])) s
           else Some s);
     case unmarshal_payload (dec_list zero_block (dec_block (en_lib env))) (fr_content v) [] of
       (bs, ok) \<Rightarrow> if ok then block_steps env v bs s else Some s }"

definition setting_response :: "env \<Rightarrow> claude_frame \<Rightarrow> sup \<Rightarrow> sup option" where
  "setting_response env v s =
     (let rid = drop 12 (fr_rid v); ok = fr_rsubtype v = ''success'' in
      if rid \<noteq> sp_setting_pending s then Some s
      else if ok \<and> (case Fields (cm_text (rd_command (get_or zero_record (sp_receipts s) rid))) of
                 [f, _] \<Rightarrow> f = ''/effort'' | _ \<Rightarrow> False)
      then readClaudeSettings env rid s
      else do {
        s \<leftarrow> finishSetting env rid ok (if ok then s\<lparr>sp_applied_model := [], sp_applied_effort := []\<rparr> else s);
        if ok then readClaudeSettings env [] s else Some s })"

definition quota_response :: "env \<Rightarrow> claude_frame \<Rightarrow> sup \<Rightarrow> sup option" where
  "quota_response env v s =
     (let s = s\<lparr>sp_quota_requested := None\<rparr>; t = map lower (fr_rerror v) in
      if fr_rsubtype v = ''success'' then publishClaudeQuota env (fr_response v) s
      else if contains t ''unsupported'' \<or> contains t ''unknown control''
      then say env ''usage_status'' ''unsupported'' (s\<lparr>sp_quota_disabled := True\<rparr>)
      else say env ''usage_status'' ''error'' s)"

definition models_response :: "env \<Rightarrow> claude_frame \<Rightarrow> sup \<Rightarrow> sup option" where
  "models_response env v s =
     (if fr_rsubtype v = ''success''
      then publishModels env (s\<lparr>sp_options := Models ''claude'' (fr_response v), sp_model_source := ''list_models''\<rparr>)
      else
        let t = map lower (fr_rerror v)
        in say env ''models_status'' ''unavailable'' (s\<lparr>sp_model_disabled := contains t ''unsupported'' \<or> contains t ''unknown''\<rparr>))"

definition initialize_response :: "env \<Rightarrow> claude_frame \<Rightarrow> sup \<Rightarrow> sup option" where
  "initialize_response env v s =
     (if fr_rsubtype v = ''success'' then do {
        s \<leftarrow> publishModels env (s\<lparr>sp_options := Models ''claude'' (fr_response v)\<rparr>);
        s \<leftarrow> say env ''state'' ''idle'' s;
        s \<leftarrow> readClaudeQuota env s;
        readModels env s }
      else fail_session env s)"

definition control_response :: "env \<Rightarrow> claude_frame \<Rightarrow> sup \<Rightarrow> sup option" where
  "control_response env v s =
     (if prefix ''cxz-settings-'' (fr_rid v) then receiveClaudeSettings env (fr_rid v) (fr_rsubtype v = ''success'') (fr_response v) s
      else if fr_rid v = ''cxz-models'' then models_response env v s
      else if prefix ''cxz-setting-'' (fr_rid v) then setting_response env v s
      else if fr_rid v = ''cxz-quota'' then quota_response env v s
      else if fr_rid v = ''initialize'' then initialize_response env v s
      else Some s)"

definition tool_request :: "env \<Rightarrow> claude_frame \<Rightarrow> sup \<Rightarrow> sup option" where
  "tool_request env v s =
     (let req = (case fr_request v of None \<Rightarrow> [] | Some m \<Rightarrow> m) in
      if map_of req ''subtype'' \<noteq> Some (JStr ''can_use_tool'')
      then Some (write_ignore env (JObj [(''response'', JObj [(''error'', JStr ''unsupported control request''),
             (''request_id'', JStr (fr_request_id v)), (''subtype'', JStr ''error'')]), (''type'', JStr ''control_response'')]) s)
      else do {
        s \<leftarrow> ask env (case map_of req ''tool_name'' of Some (JStr n) \<Rightarrow> n | _ \<Rightarrow> []) (fr_request_id v)
               (Some (map_json (\<lambda>v. v) req)) s;
        say env ''state'' ''waiting_input'' s })"

definition cancel_request :: "env \<Rightarrow> claude_frame \<Rightarrow> sup \<Rightarrow> sup option" where
  "cancel_request env v s = do {
     s \<leftarrow> event env ''approval_resolved'' ''canceled'' (fr_request_id v) None
           (s\<lparr>sp_pending := AList.delete (fr_request_id v) (sp_pending s)\<rparr>);
     if sp_pending s = [] \<and> state_of s = ''waiting_input'' then say env ''state'' ''working'' s else Some s }"

definition turn_result :: "env \<Rightarrow> claude_frame \<Rightarrow> json option \<Rightarrow> sup \<Rightarrow> sup option" where
  "turn_result env v raw s = do {
     s \<leftarrow> clearPending env s;
     let result = (if sp_interrupted s then ''interrupted''
                   else if fr_error v \<or> prefix ''error'' (fr_subtype v) then ''failed'' else ''completed'');
     let s = s\<lparr>sp_interrupted := False\<rparr>;
     (_, s) \<leftarrow> event_full env ''turn_end'' result [] raw [] (Some (completeResponse env result raw s)) s;
     s \<leftarrow> say env ''state'' ''idle'' (reset_response s);
     readClaudeQuota env s }"

definition claude_frame_step :: "env \<Rightarrow> claude_frame \<Rightarrow> json option \<Rightarrow> sup \<Rightarrow> sup option" where
  "claude_frame_step env v raw s =
     (let t = fr_type v in
      if t = ''rate_limit_event'' then event env ''usage'' ''rate_limit_event'' [] raw s
      else if t = ''system'' then
        (if fr_subtype v = ''compact_boundary'' then event env ''compact'' ''completed'' [] raw s else Some s)
      else if t = ''control_response'' then control_response env v s
      else if t = ''control_request'' then tool_request env v s
      else if t = ''control_cancel_request'' then cancel_request env v s
      else if t = ''assistant'' \<or> t = ''user'' then claude_message env v s
      else if t = ''result'' then turn_result env v raw s
      else Some s)"

definition claude_consume :: "env \<Rightarrow> json option \<Rightarrow> sup \<Rightarrow> sup option" where
  "claude_consume env raw s =
     (case unmarshal_payload (dec_claude (en_lib env)) raw zero_claude of
        (v, ok) \<Rightarrow>
          if \<not> ok then say env ''diagnostic'' ''invalid agent JSON'' s
          else if fr_session v \<noteq> [] \<and> fr_session v \<noteq> sn_vendor (sp_snap s) then
            (if (case ss_fork (sp_session s) of Some (origin, _) \<Rightarrow> fr_session v = origin | None \<Rightarrow> False) then do {
               s \<leftarrow> say env ''diagnostic'' ''Claude did not create an independent fork'' s;
               fail_session env s }
             else do {
               s \<leftarrow> say env ''vendor'' (fr_session v) (s\<lparr>sp_snap := (sp_snap s)\<lparr>sn_vendor := fr_session v\<rparr>\<rparr>);
               claude_frame_step env v raw s })
          else claude_frame_step env v raw s)"

section \<open>Retention\<close>

definition shedRaw :: "env \<Rightarrow> int \<Rightarrow> sup \<Rightarrow> (bool \<times> sup) option" where
  "shedRaw env limit s =
     (let through = shed_through limit (Log_All (sp_log s)) in
      if through = 0 then Some (True, s)
      else case Log_Shed (en_io env (sn_last (sp_snap s))) (sp_log s) through of
          ((_, Some _), l) \<Rightarrow> Some (False, s\<lparr>sp_log := l\<rparr>)
        | ((freed, None), l) \<Rightarrow>
            let s = s\<lparr>sp_log := l\<rparr> in
            if freed = 0 then Some (True, s)
            else map_option (Pair True) (event env HistoryShedKind
              ''Vendor stream detail up to this point was removed by its own size limit; the conversation was kept.'' []
              (Some (boundary_json through)) s))"

definition quiet_for_history :: "sup \<Rightarrow> bool" where
  "quiet_for_history s \<longleftrightarrow> state_of s = ''idle'' \<and> sp_pending s = [] \<and> sp_setting_pending s = [] \<and> \<not> sp_unknown s \<and>
     \<not> bs_unavailable (sp_background s) \<and> sp_tools s = [] \<and>
     cx_turn (the_codex s) = [] \<and> cx_replies (the_codex s) = [] \<and> \<not> any_active (sp_background s)"

text \<open>After a trim the commands the checkpoint carries replace those in memory.\<close>

definition release_step :: "(string, command_record) gomap \<Rightarrow> event \<Rightarrow> (string, command_record) gomap" where
  "release_step m e =
     (if ev_kind e \<noteq> ''receipt'' then m
      else
        let r = fst (unmarshal_payload dec_record (ev_payload e) zero_record);
            k = cm_client (rd_command r)
        in case map_of m k of
             Some old \<Rightarrow> if rd_status old = rd_status r then AList.update k r m else m
           | None \<Rightarrow> m)"

definition trimHistory :: "env \<Rightarrow> int \<Rightarrow> sup \<Rightarrow> sup" where
  "trimHistory env limit s =
     (let events = Log_All (sp_log s) in
      case find_cut limit events of
        None \<Rightarrow> s
      | Some n \<Rightarrow>
          (case makeHistoryCheckpoint (take (n + 1) events) of
             Inl _ \<Rightarrow> s
           | Inr cp \<Rightarrow>
               (case Log_Compact (en_io env (sn_last (sp_snap s))) (sp_log s) cp of
                  (Some _, l) \<Rightarrow> s\<lparr>sp_log := l\<rparr>
                | (None, l) \<Rightarrow>
                    let s = recordState env (s\<lparr>sp_log := l\<rparr>)
                    in s\<lparr>sp_receipts := foldl release_step (sp_receipts s) (resumeEvents [cp])\<rparr>)))"

definition store_size :: "env \<Rightarrow> sup \<Rightarrow> int option" where
  "store_size env s = (case Log_Size (en_io env (sn_last (sp_snap s))) (sp_log s) of Inl _ \<Rightarrow> None | Inr n \<Rightarrow> Some (int n))"

definition retainHistory :: "env \<Rightarrow> sup \<Rightarrow> sup option" where
  "retainHistory env s =
     (case en_policy env of
        None \<Rightarrow> Some s
      | Some p \<Rightarrow>
          let limit = fst (Limits p); raw = RawLimit p in
          if limit = 0 \<and> raw = 0 then Some s
          else case store_size env s of
              None \<Rightarrow> Some s
            | Some sz \<Rightarrow>
                let overDisk = 0 < limit \<and> limit < sz; overRaw = 0 < raw \<and> raw < lo_raw (sp_log s) in
                if (\<not> overDisk \<and> \<not> overRaw) \<or> \<not> quiet_for_history s then Some s
                else if overRaw then do {
                  (ok, s) \<leftarrow> shedRaw env raw s;
                  if \<not> ok then Some s
                  else (case store_size env s of
                      None \<Rightarrow> Some s
                    | Some sz \<Rightarrow> if limit = 0 \<or> sz \<le> limit then Some s else Some (trimHistory env limit s)) }
                else Some (trimHistory env limit s))"

section \<open>One message of the agent\<close>

definition append_batch :: "env \<Rightarrow> sup \<Rightarrow> sup option" where
  "append_batch env s =
     (case Log_AppendBatch (en_io env (sn_last (sp_snap s))) (sp_log s) (sp_batch s) of
        (Inl _, _) \<Rightarrow> None
      | (Inr _, l) \<Rightarrow> Some (s\<lparr>sp_log := l, sp_buffering := False, sp_batch := []\<rparr>))"

definition consume_body :: "env \<Rightarrow> bytes \<Rightarrow> sup \<Rightarrow> sup option" where
  "consume_body env raw s = do {
     let doc = parse_json raw;
     let s = (observeUpdateRaw env doc s)\<lparr>sp_buffering := True, sp_batch := []\<rparr>;
     (_, s) \<leftarrow> event_full env ''raw'' [] [] None raw None s;
     if sp_codex s \<noteq> None then codex_consume env doc s else claude_consume env doc s }"

definition settle :: "env \<Rightarrow> sup \<Rightarrow> sup option" where
  "settle env s = do {
     let completed = (\<exists>e\<in>set (sp_batch s). ev_kind e = ''turn_end'');
     s \<leftarrow> append_batch env s;
     s \<leftarrow> approvePending env (recordState env s);
     s \<leftarrow> deliverQueued env s;
     if completed \<and> sp_quota_root s \<noteq> [] then retainHistory env s else Some s }"

definition consume :: "env \<Rightarrow> bytes \<Rightarrow> sup \<Rightarrow> sup option" where
  "consume env raw s = do { s \<leftarrow> consume_body env raw s; settle env s }"

definition MaxLineBytes :: nat where "MaxLineBytes = 16777216"

definition recordOverflow :: "env \<Rightarrow> bytes \<Rightarrow> sup \<Rightarrow> sup option" where
  "recordOverflow env fragment s = do {
     (_, s) \<leftarrow> event_full env ''raw'' [] [] None fragment None s;
     say env ''diagnostic'' (''agent message exceeded '' @ show_nat MaxLineBytes @ '' bytes; the first '' @
       show_nat (length fragment) @ '' were recorded and the session stopped reading'') s }"

section \<open>The stream of the agent\<close>

text \<open>\<open>bufio.Reader.ReadSlice\<close> of a reader with a buffer of \<open>b\<close> bytes: up to and with the next newline,
  a full buffer, or the end of the input.\<close>

definition read_slice :: "nat \<Rightarrow> bytes \<Rightarrow> bytes" where
  "read_slice b s =
     (let l = takeWhile (\<lambda>c. c \<noteq> chr_newline) s;
          l = (if length l < length s then l @ [chr_newline] else l)
      in take b l)"

datatype line_end = Overflow | Newline | Input_end

text \<open>\<open>readLine\<close>: the line, how it ended, and the input left.\<close>

function readLine :: "nat \<Rightarrow> nat \<Rightarrow> bytes \<Rightarrow> bytes \<Rightarrow> bytes \<times> line_end \<times> bytes" where
  "readLine b limit line s =
     (let chunk = read_slice b s; rest = drop (length chunk) s in
      if limit < length line + length chunk then (line @ take (limit - length line) chunk, Overflow, rest)
      else if chunk \<noteq> [] \<and> last chunk = chr_newline then (line @ chunk, Newline, rest)
      else if rest = [] \<or> chunk = [] then (line @ chunk, Input_end, rest)
      else readLine b limit (line @ chunk) rest)"
  by auto
termination by (relation "measure (\<lambda>(b, limit, line, s). length s)") (auto simp: Let_def intro!: diff_less)

declare readLine.simps [simp del]

definition trim_line :: "bytes \<Rightarrow> bytes" where
  "trim_line l = rev (dropWhile (\<lambda>c. byte c = 13 \<or> byte c = 10) (rev l))"

lemma readLine_cases:
  assumes "readLine b limit line s = (l, e, r)"
  obtains (over) "e = Overflow" "limit < length line + length (read_slice b s)" "r = drop (length (read_slice b s)) s"
      "l = line @ take (limit - length line) (read_slice b s)"
  | (newline) "e = Newline" "\<not> limit < length line + length (read_slice b s)" "r = drop (length (read_slice b s)) s"
      "l = line @ read_slice b s" "read_slice b s \<noteq> []" "last (read_slice b s) = chr_newline"
  | (ended) "e = Input_end" "\<not> limit < length line + length (read_slice b s)" "r = drop (length (read_slice b s)) s"
      "l = line @ read_slice b s" "r = [] \<or> read_slice b s = []" "read_slice b s = [] \<or> last (read_slice b s) \<noteq> chr_newline"
  | (more) "\<not> limit < length line + length (read_slice b s)" "drop (length (read_slice b s)) s \<noteq> []" "read_slice b s \<noteq> []"
      "last (read_slice b s) \<noteq> chr_newline"
      "readLine b limit (line @ read_slice b s) (drop (length (read_slice b s)) s) = (l, e, r)"
  using assms unfolding readLine.simps [of b limit line s] Let_def
  by (auto split: if_splits)

lemma readLine_newline: "readLine b limit line s = (l, Newline, r) \<Longrightarrow> length r < length s"
proof (induction "length s" arbitrary: line s rule: less_induct)
  case less
  from less.prems show ?case
  proof (cases rule: readLine_cases)
    case newline
    then show ?thesis by (cases s) (auto simp: read_slice_def)
  next
    case more
    then have "length (drop (length (read_slice b s)) s) < length s" by (cases s) auto
    with less.hyps [OF this more(5)] show ?thesis by simp
  qed auto
qed

text \<open>\<open>read\<close>: the lines to consume, in order, and the fragment an overflow leaves.\<close>

function read_lines :: "nat \<Rightarrow> nat \<Rightarrow> bytes \<Rightarrow> bytes list \<times> bytes option" where
  "read_lines b limit s =
     (case readLine b limit [] s of
        (l, Overflow, _) \<Rightarrow> ([], Some (trim_line l))
      | (l, Newline, r) \<Rightarrow>
          (case read_lines b limit r of (ls, o') \<Rightarrow> (if trim_line l = [] then ls else trim_line l # ls, o'))
      | (l, Input_end, _) \<Rightarrow> (if trim_line l = [] then [] else [trim_line l], None))"
  by auto
termination by (relation "measure (\<lambda>(b, limit, s). length s)") (auto intro: readLine_newline [OF sym])

declare read_lines.simps [simp del]

text \<open>What the reading is: the line up to its newline, cut at the limit, whatever the buffer.\<close>

definition first_line :: "bytes \<Rightarrow> bytes" where
  "first_line s = (let l = takeWhile (\<lambda>c. c \<noteq> chr_newline) s in if length l < length s then l @ [chr_newline] else l)"

fun split_lines :: "bytes \<Rightarrow> bytes \<Rightarrow> bytes list" where
  "split_lines acc [] = [rev acc]"
| "split_lines acc (c # s) = (if c = chr_newline then rev (c # acc) # split_lines [] s else split_lines (c # acc) s)"

fun take_lines :: "nat \<Rightarrow> bytes list \<Rightarrow> bytes list \<times> bytes option" where
  "take_lines limit [] = ([], None)"
| "take_lines limit (l # ls) =
     (if limit < length l then ([], Some (trim_line (take limit l)))
      else case take_lines limit ls of (xs, o') \<Rightarrow> (if trim_line l = [] then xs else trim_line l # xs, o'))"

section \<open>Requests\<close>

record update_status =
  us_ready :: bool
  us_reason :: string
  us_binary :: string
  us_state :: string
  us_supervisor :: string

text \<open>What a client reads: an error with its HTTP status, or the document of the answer.  \<open>Forked\<close> is the
  child \<open>sessionfork.Prepare\<close> made, which leaves the supervisor as it was.\<close>

datatype answer =
    Http_error nat
  | Status_of snapshot
  | Receipt_of receipt
  | Update_of update_status
  | Forked

text \<open>A request: method, path, the JSON value at the head of its body within the limit, and whether the
  fork it may ask for can be prepared.\<close>

record request =
  rq_method :: string
  rq_path :: string
  rq_body :: "json option"
  rq_fork :: bool

definition dec_fork :: "(string \<times> string \<times> string) dec" where
  "dec_fork = dec_struct (\<lambda>kvs (v1, v2, v3).
     let (a, oka) = dec_field ''id'' dec_string kvs v1;
         (b, okb) = dec_field ''client_id'' dec_string kvs v2;
         (c, okc) = dec_field ''run_id'' dec_string kvs v3
     in ((a, b, c), oka \<and> okb \<and> okc))"

definition serveFork :: "request \<Rightarrow> sup \<Rightarrow> answer" where
  "serveFork r s =
     (if rq_method r \<noteq> ''POST'' then Http_error 405
      else if \<not> snd (unmarshal_payload dec_fork (rq_body r) ([], [], [])) then Http_error 400
      else if sp_setting_pending s \<noteq> [] \<or> sp_pending s \<noteq> [] then Http_error 409
      else if \<not> rq_fork r then Http_error 409
      else Forked)"

definition update_answer :: "string \<Rightarrow> sup \<Rightarrow> answer" where
  "update_answer reason s = Update_of \<lparr>us_ready = (reason = []), us_reason = reason, us_binary = ss_agent (sp_session s),
     us_state = state_of s, us_supervisor = ss_supervisor (sp_session s)\<rparr>"

definition serveUpdate :: "env \<Rightarrow> request \<Rightarrow> sup \<Rightarrow> (answer \<times> sup) option" where
  "serveUpdate env r s =
     (if rq_method r \<noteq> ''POST'' then Some (Http_error 405, s)
      else case unmarshal_payload dec_command (rq_body r) zero_command of (c, ok) \<Rightarrow>
        if \<not> ok then Some (Http_error 400, s)
        else if cm_run c \<noteq> run_of s then Some (Http_error 409, s)
        else if rq_path r = ''/activity'' then
          (if cm_client c = [] \<or> 128 < length (cm_client c) then Some (Http_error 400, s)
           else Some (Receipt_of \<lparr>rc_client = cm_client c, rc_status = ''accepted''\<rparr>,
                  s\<lparr>sp_clients := AList.update (cm_client c) (en_now env, cm_busy c) (sp_clients s)\<rparr>))
        else if rq_path r = ''/update-notice'' then do {
          s \<leftarrow> say env ''update'' (cm_text c) s;
          Some (Receipt_of \<lparr>rc_client = [], rc_status = ''accepted''\<rparr>, s) }
        else (case updateReason (en_idle env) (en_now env) (en_busy env) s of (reason, s) \<Rightarrow> Some (update_answer reason s, s)))"

definition update_paths :: "string set" where
  "update_paths = {''/update-status'', ''/activity'', ''/update-notice''}"

definition serve :: "env \<Rightarrow> request \<Rightarrow> sup \<Rightarrow> (answer \<times> sup) option" where
  "serve env r s =
     (if rq_path r = ''/fork'' then Some (serveFork r s, s)
      else if rq_path r \<in> update_paths then serveUpdate env r s
      else if rq_method r = ''GET'' \<and> rq_path r = ''/status''
      then Some (Status_of ((sp_snap s)\<lparr>sn_pending := map snd (sp_pending s)\<rparr>), s)
      else if rq_method r \<noteq> ''POST'' then Some (Http_error 404, s)
      else case unmarshal_payload dec_command (rq_body r) zero_command of (c, ok) \<Rightarrow>
        if \<not> ok then Some (Http_error 400, s)
        else do {
          (out, s) \<leftarrow> executeLocked env (drop 1 (rq_path r)) c s;
          Some (case out of
              Inl _ \<Rightarrow> (Http_error 409, s)
            | Inr rc \<Rightarrow> (Receipt_of rc, if rq_path r = ''/stop'' \<or> rq_path r = ''/update-stop'' then kill s else s)) })"

section \<open>The life of a run\<close>

definition sharedQuotaTick :: "env \<Rightarrow> sup \<Rightarrow> sup option" where
  "sharedQuotaTick env s =
     (if sp_codex s \<noteq> None then do { s \<leftarrow> checkProgress env s; readBackground env False s }
      else if running s then readClaudeQuota env s
      else Some s)"

definition quotaTick :: "env \<Rightarrow> sup \<Rightarrow> sup option" where
  "quotaTick env s = do {
     s \<leftarrow> retainHistory env s;
     s \<leftarrow> expireSetting env s;
     s \<leftarrow> (if \<not> sp_quota_disabled s \<and> running s
           then (if sp_codex s \<noteq> None then codex_quota env s else readClaudeQuota env s)
           else Some s);
     if state_of s = ''idle'' then readModels env s else Some s }"

text \<open>The end of the agent: its stream closed, and whether waiting for it reported a failure.\<close>

definition finish :: "env \<Rightarrow> bool \<Rightarrow> sup \<Rightarrow> sup option" where
  "finish env failure s = do {
     s \<leftarrow> clearPending env s;
     say env ''state'' (if failure \<and> \<not> sp_stopping s then ''failed'' else if sp_stopping s then ''stopped'' else ''interrupted'') s }"

text \<open>What a new run takes from the conversation it resumes.\<close>

definition restore_step :: "sup \<Rightarrow> event \<Rightarrow> sup" where
  "restore_step s v =
     (let s = (if ev_kind v = ''setting'' then restoreSetting (ev_text v) (ev_payload v) s else s)
      in s\<lparr>sp_receipts := recover_step (sp_receipts s) v\<rparr>)"

definition new_sup :: "session \<Rightarrow> store_log \<Rightarrow> string \<Rightarrow> sup" where
  "new_sup session l run =
     (let old = Replay (Log_All l) in
      \<lparr>sp_session = session, sp_log = l,
       sp_snap = zero_snapshot\<lparr>sn_state := ''starting'', sn_run := run, sn_vendor := sn_vendor old, sn_permission := sn_permission old\<rparr>,
       sp_pending = [], sp_receipts = [], sp_stopping = False, sp_interrupted = False, sp_batch = [], sp_buffering = False,
       sp_codex = None, sp_mcp = [], sp_activity = None, sp_clients = [], sp_tools = [], sp_background = zero_background,
       sp_unknown = False, sp_blocked = False, sp_quota_fallback = None, sp_quota_root = [], sp_quota_token = [],
       sp_quota_lease = [], sp_quota_observed = 0, sp_quota_disabled = False, sp_quota_requested = None,
       sp_quota_checking = False, sp_options = [], sp_model_requested = None, sp_model_disabled = False, sp_model_source = [],
       sp_model_pages = [], sp_effort = [], sp_applied_model = [], sp_applied_effort = [], sp_settings_seq = 0,
       sp_settings_request = [], sp_settings_for = [], sp_setting_pending = [], sp_context = zero_metadata,
       sp_tracking = zero_tracking, sp_out = [], sp_killed = False\<rparr>)"

text \<open>Starting an empty Codex thread is safe only when no message was ever intended.\<close>

definition has_input :: "sup \<Rightarrow> bool" where
  "has_input s \<longleftrightarrow> (\<exists>(k, r)\<in>set (sp_receipts s). rd_op r = ''send'' \<and> \<not> isSettingCommand (cm_text (rd_command r)))"

definition codex_setup :: "session \<Rightarrow> sup \<Rightarrow> sup" where
  "codex_setup session s =
     (if ss_kind session = ''codex'' then
        let s = (if \<not> has_input s \<and> (case ss_fork session of None \<Rightarrow> True | Some (origin, _) \<Rightarrow> origin = [])
                 then s\<lparr>sp_snap := (sp_snap s)\<lparr>sn_vendor := []\<rparr>\<rparr> else s)
        in s\<lparr>sp_codex := Some zero_codex\<rparr>
      else s)"

definition survived_notice :: "string \<Rightarrow> string" where
  "survived_notice text = ''the message waiting to be sent did not survive the restart: '' @ quoted text"

definition initialize_request :: "sup \<Rightarrow> json" where
  "initialize_request s =
     (if sp_codex s \<noteq> None
      then rpc ''cxz-initialize'' ''initialize'' (JObj [(''capabilities'', JObj [(''experimentalApi'', JBool True)]),
        (''clientInfo'', JObj [(''name'', JStr ''cxz''), (''version'', JStr ''0.1.0'')])])
      else control_request ''initialize'' (JObj [(''hooks'', JObj []), (''sdkMcpServers'', JArr []), (''subtype'', JStr ''initialize'')]))"

text \<open>\<open>Run\<close> up to the loop, once the agent's process is there: the second component says whether the
  initialize request was written.  Root, token and run identifier come from outside.\<close>

definition start :: "env \<Rightarrow> string \<Rightarrow> string \<Rightarrow> session \<Rightarrow> store_log \<Rightarrow> string \<Rightarrow> string \<Rightarrow> (bool \<times> sup) option" where
  "start env root token session l run mcp = do {
     let old = Replay (Log_All l);
     let s = foldl restore_step (new_sup session l run) (resumeEvents (Log_All l));
     let s = (recordState env s)\<lparr>sp_quota_root := root, sp_quota_token := token\<rparr>;
     s \<leftarrow> say env ''state'' ''starting'' s;
     s \<leftarrow> (if sn_queued old \<noteq> [] then say env ''diagnostic'' (survived_notice (sn_queued old)) s else Some s);
     let s = (codex_setup session s)\<lparr>sp_mcp := mcp\<rparr>;
     Some (write_agent env (initialize_request s) s) }"

text \<open>What can happen to a running supervisor, each under its lock.\<close>

datatype action =
    Consume bytes
  | Overflows bytes
  | Serve request
  | Quota_tick
  | Shared_tick
  | Quota_answer bool
  | Finish bool

fun act :: "env \<Rightarrow> action \<Rightarrow> sup \<Rightarrow> sup option" where
  "act env (Consume raw) s = consume env raw s"
| "act env (Overflows fragment) s = map_option kill (recordOverflow env fragment s)"
| "act env (Serve r) s = map_option snd (serve env r s)"
| "act env Quota_tick s = quotaTick env s"
| "act env Shared_tick s = sharedQuotaTick env s"
| "act env (Quota_answer over) s = remoteQuota env over s"
| "act env (Finish failure) s = finish env failure s"

inductive step :: "sup \<Rightarrow> sup \<Rightarrow> bool" where
  "act env a s = Some s' \<Longrightarrow> step s s'"

inductive_cases stepE: "step s s'"

end
