(* ===== verification/Machine.thy ===== *)
theory Machine
  imports Supervisor
begin

text \<open>
  What a supervisor promises, as an abstract machine.  Its state is the events recorded, the ones a
  message still gathers, the live snapshot and the requests that wait for an answer; its steps say
  which events may be recorded and what each does to the live state.  Every operation of the
  supervisor is shown to be a sequence of these steps, so an invariant of the machine is one of the
  program.
\<close>

section \<open>The machine\<close>

record core =
  co_events :: "event list"
  co_batch :: "event list"
  co_buf :: bool
  co_snap :: snapshot
  co_pending :: "(string, event) gomap"
  co_tools :: "(string, bool) gomap"

definition core :: "sup \<Rightarrow> core" where
  "core s = \<lparr>co_events = lo_events (sp_log s), co_batch = sp_batch s, co_buf = sp_buffering s, co_snap = sp_snap s,
     co_pending = sp_pending s, co_tools = sp_tools s\<rparr>"

definition next_seq :: "core \<Rightarrow> nat" where
  "next_seq c = (if co_buf c then sn_last (co_snap c) else lastSeq (co_events c)) + 1"

definition emits :: "event \<Rightarrow> core \<Rightarrow> bool" where
  "emits e c \<longleftrightarrow> ev_seq e = next_seq c \<and> 0 < ev_time e \<and> ev_time e < 2 ^ 63 \<and> ev_run e = sn_run (co_snap c)"

definition next_tools :: "event \<Rightarrow> (string, bool) gomap \<Rightarrow> (string, bool) gomap" where
  "next_tools e ts =
     (if ev_kind e = ''turn_end'' then []
      else if ev_kind e = ''tool_result'' \<and> ev_request e \<noteq> [] then AList.delete (ev_request e) ts
      else if ev_kind e = ''tool'' \<and> ev_request e \<noteq> [] then AList.update (ev_request e) True ts
      else ts)"

definition emit :: "event \<Rightarrow> core \<Rightarrow> core" where
  "emit e c = c\<lparr>co_events := (if co_buf c then co_events c else co_events c @ [e]),
     co_batch := (if co_buf c then co_batch c @ [e] else co_batch c),
     co_snap := project_event e (co_snap c), co_tools := next_tools e (co_tools c)\<rparr>"

text \<open>The kinds that only report: they touch neither the pending requests, the waiting message nor the
  agent's conversation id.\<close>

definition plain :: "string \<Rightarrow> string \<Rightarrow> bool" where
  "plain k t \<longleftrightarrow> k \<notin> {''approval'', ''approval_resolved'', ''vendor'', ''queued'', ''tool'', HistoryCheckpointKind, ForkBoundaryKind} \<and>
     (k = ''permission'' \<longrightarrow> t = ''ask'' \<or> t = ''full'')"

inductive micro :: "core \<Rightarrow> core \<Rightarrow> bool" where
  report: "emits e c \<Longrightarrow> plain (ev_kind e) (ev_text e) \<Longrightarrow> micro c (emit e c)"
| ask: "emits e c \<Longrightarrow> ev_kind e = ''approval'' \<Longrightarrow>
    micro c ((emit e c)\<lparr>co_pending := AList.update (ev_request e) e (co_pending c)\<rparr>)"
| resolve: "emits e c \<Longrightarrow> ev_kind e = ''approval_resolved'' \<Longrightarrow>
    micro c ((emit e c)\<lparr>co_pending := AList.delete (ev_request e) (co_pending c)\<rparr>)"
| identify: "emits e c \<Longrightarrow> ev_kind e = ''vendor'' \<Longrightarrow>
    micro c (emit e (c\<lparr>co_snap := (co_snap c)\<lparr>sn_vendor := ev_text e\<rparr>\<rparr>))"
| hold: "emits e c \<Longrightarrow> ev_kind e = ''queued'' \<Longrightarrow> 
    sn_queued (co_snap c) = [] \<or> sn_queued_id (co_snap c) = ev_request e \<and> ev_text e \<noteq> [] \<Longrightarrow> micro c (emit e c)"
| take: "emits e c \<Longrightarrow> ev_kind e = ''queued'' \<Longrightarrow> ev_text e = [] \<Longrightarrow> ev_request e = [] \<Longrightarrow> ev_payload e \<noteq> None \<Longrightarrow>
    micro c (emit e c)"
| drop: "emits e c \<Longrightarrow> ev_kind e = ''queued'' \<Longrightarrow> ev_text e = [] \<Longrightarrow> ev_request e = [] \<Longrightarrow>
    emits d (emit e c) \<Longrightarrow> ev_kind d = ''diagnostic'' \<Longrightarrow> ev_text d = dropped_notice reason (sn_queued (co_snap c)) \<Longrightarrow>
    micro c (emit d (emit e c))"
| trim: "\<not> co_buf c \<Longrightarrow> makeHistoryCheckpoint (take n (events_after (co_events c) 0 (2 ^ 63 - 1))) = Inr cp \<Longrightarrow>
    micro c (c\<lparr>co_events := compact_events cp (co_events c)\<rparr>)"
| shed: "\<not> co_buf c \<Longrightarrow> micro c (c\<lparr>co_events := map (shed_event k) (co_events c)\<rparr>)"

inductive_cases microE: "micro c c'"

abbreviation path :: "core \<Rightarrow> core \<Rightarrow> bool" where
  "path \<equiv> micro\<^sup>*\<^sup>*"

text \<open>A message of the agent gathers its events and commits them as one batch.\<close>

definition gather :: "core \<Rightarrow> core" where
  "gather c = c\<lparr>co_buf := True, co_batch := []\<rparr>"

definition commit :: "int \<Rightarrow> core \<Rightarrow> core" where
  "commit now c = c\<lparr>co_events := co_events c @ number_batch now (lastSeq (co_events c)) (co_batch c), co_buf := False, co_batch := []\<rparr>"

inductive advance :: "core \<Rightarrow> core \<Rightarrow> bool" where
  alone: "path c c' \<Longrightarrow> advance c c'"
| message: "\<not> co_buf c \<Longrightarrow> path (gather c) d \<Longrightarrow> co_batch d \<noteq> [] \<Longrightarrow> path (commit now d) c' \<Longrightarrow> advance c c'"

lemma micro_buf: "micro c c' \<Longrightarrow> co_buf c' = co_buf c"
  by (induction rule: micro.induct) (simp_all add: emit_def)

lemma path_buf: "path c c' \<Longrightarrow> co_buf c' = co_buf c"
  by (induction rule: rtranclp_induct) (simp_all add: micro_buf)

section \<open>Changes the machine does not see\<close>

lemma core_ignores [simp]:
  "core (s\<lparr>sp_session := v1\<rparr>) = core s" "core (s\<lparr>sp_receipts := v2\<rparr>) = core s" "core (s\<lparr>sp_stopping := v3\<rparr>) = core s"
  "core (s\<lparr>sp_interrupted := v4\<rparr>) = core s" "core (s\<lparr>sp_codex := v5\<rparr>) = core s" "core (s\<lparr>sp_mcp := v6\<rparr>) = core s"
  "core (s\<lparr>sp_activity := v7\<rparr>) = core s" "core (s\<lparr>sp_clients := v8\<rparr>) = core s" "core (s\<lparr>sp_background := v9\<rparr>) = core s"
  "core (s\<lparr>sp_unknown := v10\<rparr>) = core s" "core (s\<lparr>sp_blocked := v11\<rparr>) = core s" "core (s\<lparr>sp_quota_fallback := v12\<rparr>) = core s"
  "core (s\<lparr>sp_quota_root := v13\<rparr>) = core s" "core (s\<lparr>sp_quota_token := v14\<rparr>) = core s" "core (s\<lparr>sp_quota_lease := v15\<rparr>) = core s"
  "core (s\<lparr>sp_quota_observed := v16\<rparr>) = core s" "core (s\<lparr>sp_quota_disabled := v17\<rparr>) = core s"
  "core (s\<lparr>sp_quota_requested := v18\<rparr>) = core s" "core (s\<lparr>sp_quota_checking := v19\<rparr>) = core s"
  "core (s\<lparr>sp_options := v20\<rparr>) = core s" "core (s\<lparr>sp_model_requested := v21\<rparr>) = core s" "core (s\<lparr>sp_model_disabled := v22\<rparr>) = core s"
  "core (s\<lparr>sp_model_source := v23\<rparr>) = core s" "core (s\<lparr>sp_model_pages := v24\<rparr>) = core s" "core (s\<lparr>sp_effort := v25\<rparr>) = core s"
  "core (s\<lparr>sp_applied_model := v26\<rparr>) = core s" "core (s\<lparr>sp_applied_effort := v27\<rparr>) = core s" "core (s\<lparr>sp_settings_seq := v28\<rparr>) = core s"
  "core (s\<lparr>sp_settings_request := v29\<rparr>) = core s" "core (s\<lparr>sp_settings_for := v30\<rparr>) = core s" "core (s\<lparr>sp_setting_pending := v31\<rparr>) = core s"
  "core (s\<lparr>sp_context := v32\<rparr>) = core s" "core (s\<lparr>sp_tracking := v33\<rparr>) = core s" "core (s\<lparr>sp_out := v34\<rparr>) = core s"
  "core (s\<lparr>sp_killed := v35\<rparr>) = core s"
  by (simp_all add: core_def)

lemma core_sees [simp]:
  "core (s\<lparr>sp_log := l\<rparr>) = (core s)\<lparr>co_events := lo_events l\<rparr>"
  "core (s\<lparr>sp_batch := b\<rparr>) = (core s)\<lparr>co_batch := b\<rparr>"
  "core (s\<lparr>sp_buffering := v\<rparr>) = (core s)\<lparr>co_buf := v\<rparr>"
  "core (s\<lparr>sp_snap := n\<rparr>) = (core s)\<lparr>co_snap := n\<rparr>"
  "core (s\<lparr>sp_pending := p\<rparr>) = (core s)\<lparr>co_pending := p\<rparr>"
  "core (s\<lparr>sp_tools := ts\<rparr>) = (core s)\<lparr>co_tools := ts\<rparr>"
  by (simp_all add: core_def)

lemma core_fields [simp]:
  "co_events (core s) = lo_events (sp_log s)" "co_batch (core s) = sp_batch s" "co_buf (core s) = sp_buffering s"
  "co_snap (core s) = sp_snap s" "co_pending (core s) = sp_pending s" "co_tools (core s) = sp_tools s"
  by (simp_all add: core_def)

lemma core_same: "(core s)\<lparr>co_events := lo_events (sp_log s)\<rparr> = core s"
  by (simp add: core_def)

lemma core_quiet [simp]:
  "core (kill s) = core s" "core (on_codex f s) = core s" "core (put_receipt c r s) = core s"
  "core (write_ignore env v s) = core s" "core (snd (write_agent env v s)) = core s"
  "core (reset_response s) = core s" "core (on_polling g s) = core s" "core (on_progress h s) = core s"
  by (simp_all add: kill_def on_codex_def put_receipt_def write_ignore_def write_agent_def reset_response_def
      on_polling_def on_progress_def)

lemma core_record [simp]: "core (recordState env s) = core s"
  by (simp add: recordState_def core_same split: prod.split)

lemma core_restore [simp]: "core (restoreSetting name raw s) = core s"
  by (simp add: restoreSetting_def Let_def split: prod.split)

lemma core_usage [simp]: "core (captureResponseUsage env raw s) = core s"
  by (simp add: captureResponseUsage_def split: option.split)

lemma core_write [simp]: "write_agent env v s = (b, t) \<Longrightarrow> core t = core s"
  by (auto simp: write_agent_def)

section \<open>Recording an event\<close>

definition clock :: "env \<Rightarrow> bool" where
  "clock env \<longleftrightarrow> 0 < millis env \<and> millis env < 2 ^ 63 \<and> (\<forall>n. 0 < si_now (en_io env n) \<and> si_now (en_io env n) < 2 ^ 63)"

lemma Log_Append_Inr: "Log_Append io l e = (Inr e', l') \<Longrightarrow>
    e' = hd (number_batch (si_now io) (lastSeq (lo_events l)) [e]) \<and> lo_events l' = lo_events l @ [e']"
  by (auto simp: Log_Append_def Log_AppendBatch_eq Let_def split: prod.splits sum.splits option.splits)

lemma core_tools_same: "(core s)\<lparr>co_tools := sp_tools s\<rparr> = core s"
  by (simp add: core_def)

lemma observe_core: "core (observeUpdateEvent env k t r s) =
    (core s)\<lparr>co_tools := (if k = ''turn_end'' then []
      else if k = ''tool_result'' \<and> r \<noteq> [] then AList.delete r (sp_tools s)
      else if k = ''tool'' \<and> r \<noteq> [] then AList.update r True (sp_tools s) else sp_tools s)\<rparr>"
  by (cases "k = ''turn_end''"; cases "k = ''tool_result''"; cases "k = ''tool''")
    (simp_all add: observeUpdateEvent_def Let_def core_tools_same)

lemma observe_fields [simp]:
  "sp_log (observeUpdateEvent env k t r s) = sp_log s" "sp_snap (observeUpdateEvent env k t r s) = sp_snap s"
  "sp_batch (observeUpdateEvent env k t r s) = sp_batch s" "sp_buffering (observeUpdateEvent env k t r s) = sp_buffering s"
  "sp_pending (observeUpdateEvent env k t r s) = sp_pending s" "sp_receipts (observeUpdateEvent env k t r s) = sp_receipts s"
  "sp_codex (observeUpdateEvent env k t r s) = sp_codex s" "sp_stopping (observeUpdateEvent env k t r s) = sp_stopping s"
  "sp_session (observeUpdateEvent env k t r s) = sp_session s"
  "sp_setting_pending (observeUpdateEvent env k t r s) = sp_setting_pending s"
  "sp_out (observeUpdateEvent env k t r s) = sp_out s"
  by (simp_all add: observeUpdateEvent_def Let_def)

lemma track_fields [simp]:
  "core (track_response e s) = core s" "sp_receipts (track_response e s) = sp_receipts s"
  "sp_log (track_response e s) = sp_log s" "sp_snap (track_response e s) = sp_snap s"
  "sp_codex (track_response e s) = sp_codex s" "sp_stopping (track_response e s) = sp_stopping s"
  "sp_session (track_response e s) = sp_session s" "sp_setting_pending (track_response e s) = sp_setting_pending s"
  "sp_buffering (track_response e s) = sp_buffering s" "sp_out (track_response e s) = sp_out s"
  by (simp_all add: track_response_def Let_def split: option.split)

lemma record_fields [simp]:
  "sp_receipts (recordState env s) = sp_receipts s" "sp_snap (recordState env s) = sp_snap s"
  "sp_pending (recordState env s) = sp_pending s" "sp_codex (recordState env s) = sp_codex s"
  "sp_stopping (recordState env s) = sp_stopping s" "sp_session (recordState env s) = sp_session s"
  "sp_setting_pending (recordState env s) = sp_setting_pending s" "sp_out (recordState env s) = sp_out s"
  by (simp_all add: recordState_def split: prod.split)

lemma make_event_fields [simp]:
  "ev_kind (make_event k t r pl raw resp s) = k" "ev_text (make_event k t r pl raw resp s) = t"
  "ev_request (make_event k t r pl raw resp s) = r" "ev_payload (make_event k t r pl raw resp s) = pl"
  "ev_raw (make_event k t r pl raw resp s) = raw" "ev_run (make_event k t r pl raw resp s) = run_of s"
  "ev_time (make_event k t r pl raw resp s) = 0" "ev_session (make_event k t r pl raw resp s) = ss_id (sp_session s)"
  by (simp_all add: make_event_def zero_event_def)

text \<open>Storing gives the event its number and its time, in the batch or in the log.\<close>

lemma store_event_core:
  assumes "store_event env e0 s = Some (e, s')" "clock env" "ev_time e0 = 0" "ev_run e0 = run_of s"
  shows "emits e (core s) \<and> e = e0\<lparr>ev_seq := ev_seq e, ev_time := ev_time e\<rparr> \<and>
    (\<exists>l. s' = s\<lparr>sp_log := l, sp_batch := (if sp_buffering s then sp_batch s @ [e] else sp_batch s)\<rparr> \<and>
       lo_events l = (if sp_buffering s then lo_events (sp_log s) else lo_events (sp_log s) @ [e]))"
proof (cases "sp_buffering s")
  case True
  then have "e = e0\<lparr>ev_seq := sn_last (sp_snap s) + 1, ev_time := millis env\<rparr>" "s' = s\<lparr>sp_batch := sp_batch s @ [e]\<rparr>"
    using assms(1) by (auto simp: store_event_def Let_def)
  then show ?thesis
    using True assms(2,4) by (intro conjI exI [of _ "sp_log s"]) (simp_all add: emits_def next_seq_def clock_def)
next
  case False
  then obtain l where l: "Log_Append (en_io env (sn_last (sp_snap s))) (sp_log s) e0 = (Inr e, l)" "s' = s\<lparr>sp_log := l\<rparr>"
    using assms(1) by (auto simp: store_event_def split: prod.splits sum.splits)
  then show ?thesis
    using False assms(2-4) Log_Append_Inr [OF l(1)]
    by (intro conjI exI [of _ l]) (simp_all add: emits_def next_seq_def clock_def)
qed

lemma event_full_core:
  assumes "event_full env k t r pl raw resp s = Some (e, s')" "clock env"
  shows "emits e (core s) \<and> core s' = emit e (core s) \<and> ev_kind e = k \<and> ev_text e = t \<and> ev_request e = r \<and>
    ev_payload e = pl \<and> ev_raw e = raw"
proof -
  let ?s = "observeUpdateEvent env k t r s"
  obtain s1 where s1: "store_event env (make_event k t r pl raw resp ?s) ?s = Some (e, s1)"
    and s': "s' = (let s2 = (track_response e s1)\<lparr>sp_snap := project_event e (sp_snap (track_response e s1))\<rparr>
        in if sp_buffering s2 then s2 else recordState env s2)"
    using assms(1) by (auto simp: event_full_def Let_def bind_eq_Some_conv)
  have "ev_time (make_event k t r pl raw resp ?s) = 0" "ev_run (make_event k t r pl raw resp ?s) = run_of ?s" by simp_all
  from store_event_core [OF s1 assms(2) this] obtain l where st: "emits e (core ?s)"
      "e = (make_event k t r pl raw resp ?s)\<lparr>ev_seq := ev_seq e, ev_time := ev_time e\<rparr>"
      "s1 = ?s\<lparr>sp_log := l, sp_batch := (if sp_buffering ?s then sp_batch ?s @ [e] else sp_batch ?s)\<rparr>"
      "lo_events l = (if sp_buffering ?s then lo_events (sp_log ?s) else lo_events (sp_log ?s) @ [e])"
    by blast
  have f: "ev_kind e = k" "ev_text e = t" "ev_request e = r" "ev_payload e = pl" "ev_raw e = raw"
    by (subst st(2); simp)+
  have "core s' = core ((track_response e s1)\<lparr>sp_snap := project_event e (sp_snap s1)\<rparr>)"
    unfolding s' by (simp add: Let_def)
  also have "\<dots> = emit e (core s)"
    using f by (cases "sp_buffering s") (simp_all add: st(3,4) observe_core emit_def next_tools_def)
  finally show ?thesis using st(1) f by (simp add: emits_def next_seq_def)
qed

section \<open>Operations as paths of the machine\<close>

definition leads :: "core \<Rightarrow> sup option \<Rightarrow> bool" where
  "leads c r \<longleftrightarrow> (\<forall>s. r = Some s \<longrightarrow> path c (core s))"

definition leads_with :: "core \<Rightarrow> ('a \<times> sup) option \<Rightarrow> bool" where
  "leads_with c r \<longleftrightarrow> (\<forall>p. r = Some p \<longrightarrow> path c (core (snd p)))"

named_theorems paths "operations that are paths of the machine"

lemma leads_base [paths]:
  "path c (core s) \<Longrightarrow> leads c (Some s)"
  "path c (core (snd p)) \<Longrightarrow> leads_with c (Some p)"
  "leads c None" "leads_with c None"
  by (simp_all add: leads_def leads_with_def)

lemma leads_if [paths]:
  "(b \<Longrightarrow> leads c x) \<Longrightarrow> (\<not> b \<Longrightarrow> leads c y) \<Longrightarrow> leads c (if b then x else y)"
  "(b \<Longrightarrow> leads_with c u) \<Longrightarrow> (\<not> b \<Longrightarrow> leads_with c v) \<Longrightarrow> leads_with c (if b then u else v)"
  by simp_all

lemma leads_bool [paths]:
  "(b \<Longrightarrow> leads c x) \<Longrightarrow> (\<not> b \<Longrightarrow> leads c y) \<Longrightarrow> leads c (case b of True \<Rightarrow> x | False \<Rightarrow> y)"
  by (cases b) simp_all

lemma leads_option [paths]:
  "(o' = None \<Longrightarrow> leads c x) \<Longrightarrow> (\<And>v. o' = Some v \<Longrightarrow> leads c (f v)) \<Longrightarrow> leads c (case o' of None \<Rightarrow> x | Some v \<Rightarrow> f v)"
  "(o' = None \<Longrightarrow> leads_with c y) \<Longrightarrow> (\<And>v. o' = Some v \<Longrightarrow> leads_with c (g v)) \<Longrightarrow>
     leads_with c (case o' of None \<Rightarrow> y | Some v \<Rightarrow> g v)"
  by (simp_all split: option.split)

lemma leads_list [paths]:
  "(xs = [] \<Longrightarrow> leads c x) \<Longrightarrow> (\<And>v vs. xs = v # vs \<Longrightarrow> leads c (f v vs)) \<Longrightarrow> leads c (case xs of [] \<Rightarrow> x | v # vs \<Rightarrow> f v vs)"
  "(xs = [] \<Longrightarrow> leads_with c y) \<Longrightarrow> (\<And>v vs. xs = v # vs \<Longrightarrow> leads_with c (g v vs)) \<Longrightarrow>
     leads_with c (case xs of [] \<Rightarrow> y | v # vs \<Rightarrow> g v vs)"
  by (simp_all split: list.split)

lemma leads_sum [paths]:
  "(\<And>e. r = Inl e \<Longrightarrow> leads c (f e)) \<Longrightarrow> (\<And>v. r = Inr v \<Longrightarrow> leads c (g v)) \<Longrightarrow> leads c (case r of Inl e \<Rightarrow> f e | Inr v \<Rightarrow> g v)"
  "(\<And>e. r = Inl e \<Longrightarrow> leads_with c (f' e)) \<Longrightarrow> (\<And>v. r = Inr v \<Longrightarrow> leads_with c (g' v)) \<Longrightarrow>
     leads_with c (case r of Inl e \<Rightarrow> f' e | Inr v \<Rightarrow> g' v)"
  by (simp_all split: sum.split)

lemma leads_bind [paths]:
  "leads c m \<Longrightarrow> (\<And>t. path c (core t) \<Longrightarrow> leads c (f t)) \<Longrightarrow> leads c (m \<bind> f)"
  "leads c m \<Longrightarrow> (\<And>t. path c (core t) \<Longrightarrow> leads_with c (g t)) \<Longrightarrow> leads_with c (m \<bind> g)"
  "leads_with c n \<Longrightarrow> (\<And>p. path c (core (snd p)) \<Longrightarrow> leads c (f' p)) \<Longrightarrow> leads c (n \<bind> f')"
  "leads_with c n \<Longrightarrow> (\<And>p. path c (core (snd p)) \<Longrightarrow> leads_with c (g' p)) \<Longrightarrow> leads_with c (n \<bind> g')"
  by (auto simp: leads_def leads_with_def bind_eq_Some_conv)

lemma leads_map [paths]:
  "leads_with c n \<Longrightarrow> leads c (map_option snd n)"
  "leads c m \<Longrightarrow> leads_with c (map_option (Pair x) m)"
  by (auto simp: leads_def leads_with_def)

lemma leads_map_core [paths]: "leads c m \<Longrightarrow> (\<And>t. core (f t) = core t) \<Longrightarrow> leads c (map_option f m)"
  by (auto simp: leads_def)

lemma event_full_leads [paths]:
  assumes "clock env" "plain k t" "path c (core s)"
  shows "leads_with c (event_full env k t r pl raw resp s)"
  unfolding leads_with_def
proof (intro allI impI)
  fix p assume "event_full env k t r pl raw resp s = Some p"
  then have f: "event_full env k t r pl raw resp s = Some (fst p, snd p)" by simp
  have "micro (core s) (emit (fst p) (core s))"
    using event_full_core [OF f assms(1)] assms(2) by (intro micro.report) simp_all
  then show "path c (core (snd p))"
    using event_full_core [OF f assms(1)] assms(3) by (simp add: rtranclp.rtrancl_into_rtrancl)
qed

lemma event_leads [paths]: "clock env \<Longrightarrow> plain k t \<Longrightarrow> path c (core s) \<Longrightarrow> leads c (event env k t r pl s)"
  unfolding event_def by (intro paths)

lemma say_leads [paths]: "clock env \<Longrightarrow> plain k t \<Longrightarrow> path c (core s) \<Longrightarrow> leads c (say env k t s)"
  unfolding say_def by (intro paths)

lemma event_step: "event env k t r pl s = Some s' \<Longrightarrow> clock env \<Longrightarrow>
    \<exists>e. emits e (core s) \<and> core s' = emit e (core s) \<and> ev_kind e = k \<and> ev_text e = t \<and> ev_request e = r \<and> ev_payload e = pl"
  using event_full_core by (fastforce simp: event_def)

lemma ask_leads [paths]:
  assumes "clock env" "path c (core s)"
  shows "leads c (ask env name rid pl s)"
  unfolding leads_def
proof (intro allI impI)
  fix s' assume "ask env name rid pl s = Some s'"
  then obtain e t where f: "event_full env ''approval'' name rid pl [] None s = Some (e, t)"
      "s' = t\<lparr>sp_pending := AList.update rid e (sp_pending t)\<rparr>"
    by (auto simp: ask_def bind_eq_Some_conv)
  note e = event_full_core [OF f(1) assms(1)]
  have "co_pending (core t) = co_pending (emit e (core s))" using e by simp
  then have "sp_pending t = sp_pending s" by (simp add: emit_def)
  then have "core s' = (emit e (core s))\<lparr>co_pending := AList.update (ev_request e) e (co_pending (core s))\<rparr>"
    using e by (simp add: f(2))
  moreover have "micro (core s) \<dots>" using e by (intro micro.ask) simp_all
  ultimately show "path c (core s')" using assms(2) by (simp add: rtranclp.rtrancl_into_rtrancl)
qed

text \<open>A resolution, with the request deleted before or after it is recorded.\<close>

lemma resolved_after:
  assumes "clock env" "event env ''approval_resolved'' t k pl s = Some s'"
  shows "micro (core s) ((core s')\<lparr>co_pending := AList.delete k (sp_pending s')\<rparr>)"
proof -
  obtain e where e: "emits e (core s)" "core s' = emit e (core s)" "ev_kind e = ''approval_resolved''" "ev_request e = k"
    using event_step [OF assms(2,1)] by blast
  have "sp_pending s' = sp_pending s" using arg_cong [OF e(2), of co_pending] by (simp add: emit_def)
  then show ?thesis using micro.resolve [OF e(1,3)] by (simp add: e(2,4))
qed

lemma emit_pending: "emit e (c\<lparr>co_pending := p\<rparr>) = (emit e c)\<lparr>co_pending := p\<rparr>"
  by (cases c) (simp add: emit_def)

lemma resolved_before:
  assumes "clock env" "event env ''approval_resolved'' t k pl (s\<lparr>sp_pending := AList.delete k (sp_pending s)\<rparr>) = Some s'"
  shows "micro (core s) (core s')"
proof -
  obtain e where e: "emits e ((core s)\<lparr>co_pending := AList.delete k (sp_pending s)\<rparr>)"
      "core s' = emit e ((core s)\<lparr>co_pending := AList.delete k (sp_pending s)\<rparr>)"
      "ev_kind e = ''approval_resolved''" "ev_request e = k"
    using event_step [OF assms(2,1)] by auto
  have "emits e (core s)" using e(1) by (simp add: emits_def next_seq_def)
  from micro.resolve [OF this e(3)] show ?thesis by (simp add: e(2,4) emit_pending)
qed

lemma resolve_all_leads [paths]: "clock env \<Longrightarrow> path c (core s) \<Longrightarrow> leads c (resolve_all env ks s)"
proof (induction ks arbitrary: s)
  case (Cons k ks)
  show ?case
    unfolding leads_def
  proof (intro allI impI)
    fix s' assume "resolve_all env (k # ks) s = Some s'"
    then obtain t where t: "event env ''approval_resolved'' ''canceled'' k None s = Some t"
        "resolve_all env ks (t\<lparr>sp_pending := AList.delete k (sp_pending t)\<rparr>) = Some s'"
      by (auto simp: bind_eq_Some_conv)
    have "path c (core (t\<lparr>sp_pending := AList.delete k (sp_pending t)\<rparr>))"
      using resolved_after [OF Cons.prems(1) t(1)] Cons.prems(2) by (simp add: rtranclp.rtrancl_into_rtrancl)
    from Cons.IH [OF Cons.prems(1) this] t(2) show "path c (core s')" by (simp add: leads_def)
  qed
qed (simp add: leads_def)

lemma clearPending_leads [paths]: "clock env \<Longrightarrow> path c (core s) \<Longrightarrow> leads c (clearPending env s)"
  unfolding clearPending_def by (rule resolve_all_leads)

lemma resolve_leads [paths]:
  "clock env \<Longrightarrow> path c (core s) \<Longrightarrow> leads c (event env ''approval_resolved'' t k pl (s\<lparr>sp_pending := AList.delete k (sp_pending s)\<rparr>))"
  using resolved_before by (fastforce simp: leads_def intro: rtranclp.rtrancl_into_rtrancl)

lemma dropQueued_leads [paths]:
  assumes "clock env" "path c (core s)"
  shows "leads c (dropQueued env reason s)"
proof (cases "sn_queued (sp_snap s) = []")
  case False
  show ?thesis
    unfolding leads_def
  proof (intro allI impI)
    fix s' assume "dropQueued env reason s = Some s'"
    then obtain t where t: "event env ''queued'' [] [] None s = Some t"
        "event env ''diagnostic'' (dropped_notice reason (sn_queued (sp_snap s))) [] None t = Some s'"
      using False by (auto simp: dropQueued_def say_def bind_eq_Some_conv Let_def)
    obtain e d where e: "emits e (core s)" "core t = emit e (core s)" "ev_kind e = ''queued''" "ev_text e = []" "ev_request e = []"
      and d: "emits d (core t)" "core s' = emit d (core t)" "ev_kind d = ''diagnostic''"
        "ev_text d = dropped_notice reason (sn_queued (sp_snap s))"
      using event_step [OF t(1) assms(1)] event_step [OF t(2) assms(1)] by blast
    have "micro (core s) (core s')"
      unfolding d(2) e(2) by (rule micro.drop) (use e d in simp_all)
    then show "path c (core s')" using assms(2) by simp
  qed
qed (use assms in \<open>simp add: dropQueued_def leads_def\<close>)

end
