(* ===== verification/Refine.thy ===== *)
theory Refine
  imports Machine
begin

text \<open>Every operation of the supervisor is a path of the machine.\<close>

lemmas plain_simps = plain_def kind_defs

section \<open>Settings and quota\<close>

lemma publishModels_leads [paths]: "clock env \<Longrightarrow> path c (core s) \<Longrightarrow> leads c (publishModels env s)"
  unfolding publishModels_def Let_def by (intro paths | simp add: plain_simps)+

lemma finishSetting_leads [paths]: "clock env \<Longrightarrow> path c (core s) \<Longrightarrow> leads c (finishSetting env rid ok s)"
  unfolding finishSetting_def Let_def by (intro paths | simp add: plain_simps)+

lemma receiveClaudeSettings_leads [paths]:
  "clock env \<Longrightarrow> path c (core s) \<Longrightarrow> leads c (receiveClaudeSettings env rid ok raw s)"
  unfolding receiveClaudeSettings_def Let_def split_beta by (intro paths | simp add: plain_simps)+

lemma readClaudeSettings_leads [paths]: "clock env \<Longrightarrow> path c (core s) \<Longrightarrow> leads c (readClaudeSettings env rid s)"
  unfolding readClaudeSettings_def Let_def split_beta by (intro paths | simp add: plain_simps)+

lemma readModelsNow_leads [paths]: "clock env \<Longrightarrow> path c (core s) \<Longrightarrow> leads c (readModelsNow env forced s)"
  unfolding readModelsNow_def Let_def split_beta by (intro paths | simp add: plain_simps)+

lemma readModels_leads [paths]: "clock env \<Longrightarrow> path c (core s) \<Longrightarrow> leads c (readModels env s)"
  unfolding readModels_def by (rule readModelsNow_leads)

lemma refreshModels_leads [paths]: "clock env \<Longrightarrow> path c (core s) \<Longrightarrow> leads_with c (refreshModels env cmd s)"
  unfolding refreshModels_def Let_def split_beta by (intro paths | simp add: plain_simps)+

lemma configure_leads [paths]: "clock env \<Longrightarrow> path c (core s) \<Longrightarrow> leads_with c (configure env cmd s)"
  unfolding configure_def Let_def split_beta by (intro paths | simp add: plain_simps)+

lemma expireSetting_leads [paths]: "clock env \<Longrightarrow> path c (core s) \<Longrightarrow> leads c (expireSetting env s)"
  unfolding expireSetting_def by (intro paths | simp add: plain_simps)+

lemma requestQuota_leads [paths]: "clock env \<Longrightarrow> path c (core s) \<Longrightarrow> leads c (requestQuota env req s)"
  unfolding requestQuota_def Let_def split_beta by (intro paths | simp add: plain_simps)+

lemma sendClaudeQuota_leads [paths]: "clock env \<Longrightarrow> path c (core s) \<Longrightarrow> leads c (sendClaudeQuota env s)"
  unfolding sendClaudeQuota_def by (intro paths | simp)+

lemma recordSharedQuota_leads [paths]: "clock env \<Longrightarrow> path c (core s) \<Longrightarrow> leads c (recordSharedQuota env raw n s)"
  unfolding recordSharedQuota_def
  by (intro paths | simp add: plain_simps split: json.split | intro conjI impI allI)+

lemma claimClaudeQuota_leads [paths]: "clock env \<Longrightarrow> path c (core s) \<Longrightarrow> leads_with c (claimClaudeQuota env s)"
  unfolding claimClaudeQuota_def Let_def split_beta by (intro paths | simp add: plain_simps)+

lemma readClaudeQuota_leads [paths]: "clock env \<Longrightarrow> path c (core s) \<Longrightarrow> leads c (readClaudeQuota env s)"
  unfolding readClaudeQuota_def split_beta by (intro paths | simp add: plain_simps)+

lemma remoteQuota_leads [paths]: "clock env \<Longrightarrow> path c (core s) \<Longrightarrow> leads c (remoteQuota env over s)"
  unfolding remoteQuota_def Let_def split_beta by (intro paths | simp add: plain_simps)+

lemma publishClaudeQuota_leads [paths]: "clock env \<Longrightarrow> path c (core s) \<Longrightarrow> leads c (publishClaudeQuota env raw s)"
  unfolding publishClaudeQuota_def Let_def split_beta by (intro paths | simp add: plain_simps)+

section \<open>The Codex protocol\<close>

lemma fail_session_leads [paths]: "clock env \<Longrightarrow> path c (core s) \<Longrightarrow> leads c (fail_session env s)"
  unfolding fail_session_def by (intro paths | simp add: plain_simps)+

lemma publishBackground_leads [paths]: "clock env \<Longrightarrow> path c (core s) \<Longrightarrow> leads c (publishBackground env sub j s)"
  unfolding publishBackground_def Let_def split_beta by (intro paths | simp add: plain_simps)+

lemma backgroundFailed_leads [paths]: "clock env \<Longrightarrow> path c (core s) \<Longrightarrow> leads c (backgroundFailed env st s)"
  unfolding backgroundFailed_def Let_def split_beta by (intro paths | simp add: plain_simps)+

lemma backgroundPage_leads [paths]: "clock env \<Longrightarrow> path c (core s) \<Longrightarrow> leads c (backgroundPage env cur s)"
  unfolding backgroundPage_def Let_def split_beta by (intro paths | simp add: plain_simps)+

lemma readBackground_leads [paths]: "clock env \<Longrightarrow> path c (core s) \<Longrightarrow> leads c (readBackground env force s)"
  unfolding readBackground_def Let_def by (intro paths | simp add: plain_simps)+

lemma consumeBackground_leads [paths]:
  "clock env \<Longrightarrow> path c (core s) \<Longrightarrow> leads_with c (consumeBackground env rid r f s)"
  unfolding consumeBackground_def Let_def split_beta by (intro paths | simp add: plain_simps)+

lemma checkProgress_leads [paths]: "clock env \<Longrightarrow> path c (core s) \<Longrightarrow> leads c (checkProgress env s)"
  unfolding checkProgress_def Let_def split_beta by (intro paths | simp add: plain_simps)+

lemma codex_quota_leads [paths]: "clock env \<Longrightarrow> path c (core s) \<Longrightarrow> leads c (codex_quota env s)"
  unfolding codex_quota_def by (rule requestQuota_leads)

lemma startThread_leads [paths]: "clock env \<Longrightarrow> path c (core s) \<Longrightarrow> leads c (startThread env s)"
  unfolding startThread_def Let_def split_beta by (intro paths | simp add: plain_simps)+

lemma async_failed_leads [paths]: "clock env \<Longrightarrow> path c (core s) \<Longrightarrow> leads c (async_failed env v p s)"
  unfolding async_failed_def Let_def by (intro paths | simp add: plain_simps)+

lemma models_reply_leads [paths]: "clock env \<Longrightarrow> path c (core s) \<Longrightarrow> leads c (models_reply env v s)"
  unfolding models_reply_def Let_def split_beta by (intro paths | simp add: plain_simps)+

lemma quota_reply_leads [paths]: "clock env \<Longrightarrow> path c (core s) \<Longrightarrow> leads c (quota_reply env v s)"
  unfolding quota_reply_def Let_def by (intro paths | simp add: plain_simps)+

lemma steer_reply_leads [paths]: "clock env \<Longrightarrow> path c (core s) \<Longrightarrow> leads c (steer_reply env v cmd s)"
  unfolding steer_reply_def by (intro paths | simp add: plain_simps)+

lemma request_failed_leads [paths]: "clock env \<Longrightarrow> path c (core s) \<Longrightarrow> leads c (request_failed env v s)"
  unfolding request_failed_def by (intro paths | simp add: plain_simps)+

lemma initialized_leads [paths]: "clock env \<Longrightarrow> path c (core s) \<Longrightarrow> leads c (initialized env s)"
  unfolding initialized_def Let_def split_beta by (intro paths | simp add: plain_simps)+

lemma server_request_leads [paths]: "clock env \<Longrightarrow> path c (core s) \<Longrightarrow> leads c (server_request env rid v s)"
  unfolding server_request_def Let_def split_beta by (intro paths | simp add: plain_simps)+

lemma request_resolved_leads [paths]: "clock env \<Longrightarrow> path c (core s) \<Longrightarrow> leads c (request_resolved env v s)"
  unfolding request_resolved_def Let_def split_beta by (intro paths | simp add: plain_simps)+

lemma turn_started_leads [paths]: "clock env \<Longrightarrow> path c (core s) \<Longrightarrow> leads c (turn_started env p s)"
  unfolding turn_started_def Let_def by (intro paths | simp add: plain_simps)+

lemma turn_completed_leads [paths]: "clock env \<Longrightarrow> path c (core s) \<Longrightarrow> leads c (turn_completed env v p s)"
  unfolding turn_completed_def Let_def split_beta by (intro paths | simp add: plain_simps)+

lemma agent_message_leads [paths]: "clock env \<Longrightarrow> path c (core s) \<Longrightarrow> leads c (agent_message env v item s)"
  unfolding agent_message_def Let_def split_beta by (intro paths | simp add: plain_simps)+

lemma item_leads [paths]:
  "clock env \<Longrightarrow> path c (core s) \<Longrightarrow> leads c (item_completed env v item s)"
  "clock env \<Longrightarrow> path c (core s) \<Longrightarrow> leads c (item_started env v item s)"
  unfolding item_completed_def item_started_def by (intro paths | simp add: plain_simps)+

lemma output_delta_leads [paths]: "clock env \<Longrightarrow> path c (core s) \<Longrightarrow> leads c (output_delta env v s)"
  unfolding output_delta_def split_beta by (intro paths | simp add: plain_simps)+

text \<open>The conversation id is written into the snapshot first and recorded after.\<close>

lemma identify_leads [paths]:
  assumes "clock env" "path c (core s)"
  shows "leads c (say env ''vendor'' t (s\<lparr>sp_snap := (sp_snap s)\<lparr>sn_vendor := t\<rparr>\<rparr>))"
  unfolding leads_def
proof (intro allI impI)
  fix s' assume "say env ''vendor'' t (s\<lparr>sp_snap := (sp_snap s)\<lparr>sn_vendor := t\<rparr>\<rparr>) = Some s'"
  then have "event env ''vendor'' t [] None (s\<lparr>sp_snap := (sp_snap s)\<lparr>sn_vendor := t\<rparr>\<rparr>) = Some s'"
    by (simp add: say_def)
  from event_step [OF this assms(1)] obtain e where
    e: "emits e ((core s)\<lparr>co_snap := (sp_snap s)\<lparr>sn_vendor := t\<rparr>\<rparr>)"
      "core s' = emit e ((core s)\<lparr>co_snap := (sp_snap s)\<lparr>sn_vendor := t\<rparr>\<rparr>)" "ev_kind e = ''vendor''" "ev_text e = t"
    by auto
  have "emits e (core s)" using e(1) by (simp add: emits_def next_seq_def)
  from micro.identify [OF this e(3)] have "micro (core s) (core s')" by (simp add: e(2,4))
  with assms(2) show "path c (core s')" by simp
qed

lemma thread_reply_leads [paths]: "clock env \<Longrightarrow> path c (core s) \<Longrightarrow> leads c (thread_reply env v s)"
  unfolding thread_reply_def split_beta by (intro paths | simp add: plain_simps)+

lemma codex_notification_leads [paths]:
  "clock env \<Longrightarrow> path c (core s) \<Longrightarrow> leads c (codex_notification env v p s)"
  unfolding codex_notification_def Let_def by (intro paths | simp add: plain_simps)+

lemma codex_frame_step_leads [paths]:
  "clock env \<Longrightarrow> path c (core s) \<Longrightarrow> leads c (codex_frame_step env rid v p s)"
  unfolding codex_frame_step_def Let_def by (intro paths | simp add: plain_simps)+

lemma codex_consume_leads [paths]: "clock env \<Longrightarrow> path c (core s) \<Longrightarrow> leads c (codex_consume env raw s)"
  unfolding codex_consume_def Let_def split_beta by (intro paths | simp add: plain_simps)+

section \<open>Claude's frames\<close>

lemma block_step_leads [paths]: "clock env \<Longrightarrow> path c (core s) \<Longrightarrow> leads c (block_step env v b s)"
  unfolding block_step_def by (intro paths | simp add: plain_simps)+

lemma block_steps_leads [paths]: "clock env \<Longrightarrow> path c (core s) \<Longrightarrow> leads c (block_steps env v bs s)"
proof (induction bs arbitrary: s)
  case (Cons b bs)
  show ?case unfolding block_steps.simps by (intro paths Cons.IH Cons.prems)
qed (simp add: leads_def)

lemma claude_message_leads [paths]: "clock env \<Longrightarrow> path c (core s) \<Longrightarrow> leads c (claude_message env v s)"
  unfolding claude_message_def split_beta by (intro paths | simp add: plain_simps)+

lemma response_leads [paths]:
  "clock env \<Longrightarrow> path c (core s) \<Longrightarrow> leads c (setting_response env v s)"
  "clock env \<Longrightarrow> path c (core s) \<Longrightarrow> leads c (quota_response env v s)"
  "clock env \<Longrightarrow> path c (core s) \<Longrightarrow> leads c (models_response env v s)"
  "clock env \<Longrightarrow> path c (core s) \<Longrightarrow> leads c (initialize_response env v s)"
  unfolding setting_response_def quota_response_def models_response_def initialize_response_def Let_def
  by (intro paths | simp add: plain_simps)+

lemma control_response_leads [paths]: "clock env \<Longrightarrow> path c (core s) \<Longrightarrow> leads c (control_response env v s)"
  unfolding control_response_def by (intro paths | simp)+

lemma tool_request_leads [paths]: "clock env \<Longrightarrow> path c (core s) \<Longrightarrow> leads c (tool_request env v s)"
  unfolding tool_request_def Let_def by (intro paths | simp add: plain_simps)+

lemma cancel_request_leads [paths]: "clock env \<Longrightarrow> path c (core s) \<Longrightarrow> leads c (cancel_request env v s)"
  unfolding cancel_request_def by (intro paths | simp add: plain_simps)+

lemma turn_result_leads [paths]: "clock env \<Longrightarrow> path c (core s) \<Longrightarrow> leads c (turn_result env v raw s)"
  unfolding turn_result_def Let_def split_beta by (intro paths | simp add: plain_simps)+

lemma claude_frame_step_leads [paths]: "clock env \<Longrightarrow> path c (core s) \<Longrightarrow> leads c (claude_frame_step env v raw s)"
  unfolding claude_frame_step_def Let_def by (intro paths | simp add: plain_simps)+

lemma claude_consume_leads [paths]: "clock env \<Longrightarrow> path c (core s) \<Longrightarrow> leads c (claude_consume env raw s)"
  unfolding claude_consume_def Let_def split_beta by (intro paths | simp add: plain_simps)+

section \<open>Commands\<close>

text \<open>Whether a message may take the slot: it is free, or it is the one the message already holds.\<close>

definition slot_free :: "core \<Rightarrow> command \<Rightarrow> bool" where
  "slot_free c cmd \<longleftrightarrow> sn_queued (co_snap c) = [] \<or> sn_queued_id (co_snap c) = cm_client cmd \<and> cm_text cmd \<noteq> []"

lemma hold_leads:
  assumes "clock env" "path c (core s)" "slot_free (core s) cmd"
  shows "leads c (event env ''queued'' (cm_text cmd) (cm_client cmd) pl s)"
  unfolding leads_def
proof (intro allI impI)
  fix s' assume "event env ''queued'' (cm_text cmd) (cm_client cmd) pl s = Some s'"
  from event_step [OF this assms(1)] obtain e where e: "emits e (core s)" "core s' = emit e (core s)" "ev_kind e = ''queued''"
      "ev_text e = cm_text cmd" "ev_request e = cm_client cmd" by blast
  have "micro (core s) (core s')"
    unfolding e(2) by (rule micro.hold [OF e(1,3)]) (use assms(3) e(4,5) in \<open>auto simp: slot_free_def\<close>)
  with assms(2) show "path c (core s')" by simp
qed

lemma enqueue_leads [paths]: "clock env \<Longrightarrow> path c (core s) \<Longrightarrow> leads_with c (enqueue env cmd s)"
  unfolding enqueue_def by (intro paths hold_leads | simp add: slot_free_def)+

lemma unqueue_leads [paths]:
  assumes "clock env" "path c (core s)"
  shows "leads_with c (unqueue env cmd s)"
proof -
  have "leads c (event env ''queued'' [] [] (Some pl) s)" for pl
    unfolding leads_def
  proof (intro allI impI)
    fix s' assume "event env ''queued'' [] [] (Some pl) s = Some s'"
    from event_step [OF this assms(1)] obtain e where e: "emits e (core s)" "core s' = emit e (core s)"
      "ev_kind e = ''queued''" "ev_text e = []" "ev_request e = []" "ev_payload e = Some pl" by blast
    have "micro (core s) (core s')" unfolding e(2) by (rule micro.take) (use e in simp_all)
    with assms(2) show "path c (core s')" by simp
  qed
  then show ?thesis
    unfolding unqueue_def Let_def using assms(2)
    by (intro leads_if leads_bind(2) leads_base) simp_all
qed

text \<open>What a command records first leaves the slot as it is.\<close>

lemma emit_slot: "plain (ev_kind e) (ev_text e) \<Longrightarrow> ev_kind e \<noteq> ''input'' \<Longrightarrow> slot_free (emit e c) cmd = slot_free c cmd"
  by (simp add: slot_free_def emit_def project_event_def plain_def Let_def)

lemma perform_send_leads:
  "clock env \<Longrightarrow> path c (core s) \<Longrightarrow> slot_free (core s) cmd \<Longrightarrow> leads c (perform_send env cmd s)"
  unfolding perform_send_def by (intro paths hold_leads | simp add: plain_simps)+

lemma perform_reply_leads [paths]: "clock env \<Longrightarrow> path c (core s) \<Longrightarrow> leads c (perform_reply env cmd r s)"
  unfolding perform_reply_def Let_def by (intro paths | simp add: plain_simps)+

lemma perform_interrupt_leads [paths]: "clock env \<Longrightarrow> path c (core s) \<Longrightarrow> leads c (perform_interrupt env s)"
  unfolding perform_interrupt_def by (intro paths | simp add: plain_simps)+

lemma perform_stop_leads [paths]: "clock env \<Longrightarrow> path c (core s) \<Longrightarrow> leads c (perform_stop env s)"
  unfolding perform_stop_def by (intro paths | simp add: plain_simps)+

lemma leads_event_bind:
  assumes "clock env" "plain k t" "k \<noteq> ''input''" "path c (core s)" "slot_free (core s) cmd"
    "\<And>u. path c (core u) \<Longrightarrow> slot_free (core u) cmd \<Longrightarrow> leads_with c (f u)"
  shows "leads_with c (event env k t r pl s \<bind> f)"
proof (cases "event env k t r pl s")
  case (Some u)
  obtain e where e: "emits e (core s)" "core u = emit e (core s)" "ev_kind e = k" "ev_text e = t"
    using event_step [OF Some assms(1)] by blast
  have "path c (core u)" using event_leads [OF assms(1,2,4)] Some by (simp add: leads_def)
  moreover have "slot_free (core u) cmd" using assms(2,3,5) e by (simp add: emit_slot)
  ultimately show ?thesis using assms(6) by (simp add: Some)
qed (simp add: leads_with_def)

lemma core_wire [simp]: "core (snd (case wire of None \<Rightarrow> (True, s) | Some w \<Rightarrow> write_agent env w s)) = core s"
  by (simp split: option.split)

lemma perform_leads:
  assumes "clock env" "path c (core s)" "op = ''send'' \<Longrightarrow> slot_free (core s) cmd"
  shows "leads_with c (perform env op cmd wire s)"
proof -
  have send: "leads_with c (do { u \<leftarrow> (if op = ''send'' then perform_send env cmd t
              else if op = ''reply'' then perform_reply env cmd (resolved_as cmd wire s) t
              else if op = ''interrupt'' then perform_interrupt env t
              else if op = ''stop'' then perform_stop env t else Some t); h u })"
    if "path c (core t)" "op = ''send'' \<Longrightarrow> slot_free (core t) cmd" "\<And>u. path c (core u) \<Longrightarrow> leads_with c (h u)" for t h
    using that assms(1) by (intro paths perform_send_leads) simp_all
  have rest: "leads_with c (if \<not> fst p then Some (ok_receipt cmd ''delivery_unknown'', kill (snd p))
      else do { u \<leftarrow> event env ''receipt'' op (cm_client cmd) pl (snd p); Some (ok_receipt cmd ''accepted'', put_receipt cmd r u) })"
    if "path c (core (snd p))" for p pl r
    using that assms(1) by (intro paths) (simp_all add: plain_simps)
  show ?thesis
  proof (cases "op = ''send''")
    case True
    show ?thesis
      unfolding perform_def Let_def split_beta
      by (rule leads_event_bind [OF assms(1) _ _ assms(2) assms(3) [OF True]], simp add: plain_simps, simp)
        (rule send, simp, simp, rule rest, simp)
  next
    case False
    show ?thesis
      unfolding perform_def Let_def split_beta
      by (rule leads_bind(2) [OF event_leads [OF assms(1) _ assms(2)]], simp add: plain_simps)
        (rule send, simp, simp add: False, rule rest, simp)
  qed
qed

lemma core_claude_command [simp]: "core (snd (claude_command env op cmd s)) = core s"
  by (simp add: claude_command_def)

lemma core_codex_send [simp]: "core (snd (codex_send env cmd s)) = core s"
  by (simp add: codex_send_def Let_def split_beta)

lemma core_codex_reply [simp]: "core (snd (codex_reply lib cmd s)) = core s"
  by (simp add: codex_reply_def answerAsync_def Let_def split: option.split sum.split prod.split)

lemma core_codex_command [simp]: "core (snd (codex_command env op cmd s)) = core s"
  by (simp add: codex_command_def Let_def)

lemma leads_run: "leads_with c (case r of (Inl Queue_input, s) \<Rightarrow> f s | (Inl e, s) \<Rightarrow> Some (Inl e, s) | (Inr w, s) \<Rightarrow> g w s)"
  if "path c (core (snd r))" "leads_with c (f (snd r))" "\<And>w. leads_with c (g w (snd r))"
  using that by (auto simp: leads_with_def split: prod.split sum.split exec_error.split)

lemma run_command_leads:
  assumes "clock env" "path c (core s)" "op = ''send'' \<Longrightarrow> slot_free (core s) cmd"
  shows "leads_with c (run_command env op cmd s)"
  unfolding run_command_def
  by (rule leads_run) (use assms in \<open>simp_all add: enqueue_leads perform_leads\<close>)

lemma send_admitted: "send_refused cmd s = None \<Longrightarrow> slot_free (core s) cmd"
  by (auto simp: send_refused_def slot_free_def split: if_splits)

lemma proceed_leads [paths]:
  assumes "clock env" "path c (core s)"
  shows "leads_with c (proceed env op cmd s)"
proof (cases "op = ''send''")
  case True
  have "leads_with c (case send_refused cmd s of None \<Rightarrow> run_command env ''send'' cmd s | Some e \<Rightarrow> Some (Inl e, s))"
    using run_command_leads [OF assms send_admitted] assms(2) by (auto split: option.split intro: leads_base)
  then show ?thesis using True configure_leads [OF assms] by (simp add: proceed_def)
next
  case False
  then have "leads_with c (run_command env op cmd s)" by (intro run_command_leads assms) simp
  with False show ?thesis
    using unqueue_leads [OF assms, of cmd] refreshModels_leads [OF assms, of cmd] by (simp add: proceed_def)
qed

lemma core_scan [simp]: "core (snd (scan_clients now cs s)) = core s"
  by (induction cs arbitrary: s rule: list.induct) (auto split: prod.splits)

lemma if_both: "P x \<Longrightarrow> P y \<Longrightarrow> P (if b then x else y)"
  by simp

lemma core_update_check [simp]: "core (snd (update_check idle now busy s)) = core s"
  unfolding update_check_def Let_def
proof (intro if_both [where P = "\<lambda>p. core (snd p) = core s"])
  let ?u = "snd (scan_clients now (sp_clients s) s)"
  have "core ?u = core s" by simp
  then show "core (snd (case scan_clients now (sp_clients s) s of (True, s) \<Rightarrow> (''attached client busy'', s)
        | (False, s) \<Rightarrow> case sp_activity (if sp_blocked s then s\<lparr>sp_blocked := False, sp_activity := Some now\<rparr> else s) of
              None \<Rightarrow> (waiting_reason, if sp_blocked s then s\<lparr>sp_blocked := False, sp_activity := Some now\<rparr> else s)
            | Some t \<Rightarrow> if now - t < idle
                then (waiting_reason, if sp_blocked s then s\<lparr>sp_blocked := False, sp_activity := Some now\<rparr> else s)
                else ([], if sp_blocked s then s\<lparr>sp_blocked := False, sp_activity := Some now\<rparr> else s))) = core s"
    by (cases "scan_clients now (sp_clients s) s"; cases "fst (scan_clients now (sp_clients s) s)")
      (simp_all split: option.split)
qed simp_all

lemma core_updateReason [simp]: "core (snd (updateReason idle now busy s)) = core s"
  using core_update_check [of idle now busy s] by (simp add: updateReason_def split_beta del: core_update_check)

lemma dispatch_leads [paths]: "clock env \<Longrightarrow> path c (core s) \<Longrightarrow> leads_with c (dispatch env op cmd s)"
  unfolding dispatch_def split_beta by (intro paths | simp add: plain_simps)+

lemma executeReply_leads [paths]: "clock env \<Longrightarrow> path c (core s) \<Longrightarrow> leads_with c (executeReply env cmd s)"
  unfolding executeReply_def by (intro paths run_command_leads | simp)+

lemma approve_list_leads [paths]: "clock env \<Longrightarrow> path c (core s) \<Longrightarrow> leads c (approve_list env ps s)"
proof (induction ps arbitrary: s)
  case (Cons p ps)
  show ?case
    unfolding approve_list.simps split_beta using Cons.prems by (intro paths Cons.IH | simp add: plain_simps)+
qed (simp add: leads_def)

lemma approvePending_leads [paths]: "clock env \<Longrightarrow> path c (core s) \<Longrightarrow> leads c (approvePending env s)"
  unfolding approvePending_def by (intro paths | simp)+

lemma setPermission_leads [paths]: "clock env \<Longrightarrow> path c (core s) \<Longrightarrow> leads_with c (setPermission env cmd s)"
  unfolding setPermission_def Let_def by (intro paths | auto simp: plain_simps)+

lemma executeLocked_leads [paths]: "clock env \<Longrightarrow> path c (core s) \<Longrightarrow> leads_with c (executeLocked env op cmd s)"
  unfolding executeLocked_def by (intro paths | simp)+

lemma deliverQueued_leads [paths]: "clock env \<Longrightarrow> path c (core s) \<Longrightarrow> leads c (deliverQueued env s)"
  unfolding deliverQueued_def Let_def split_beta by (intro paths | simp)+

section \<open>Retention\<close>

lemma shedRaw_leads [paths]:
  assumes "clock env" "path c (core s)" "\<not> sp_buffering s"
  shows "leads_with c (shedRaw env limit s)"
proof -
  have shed: "path c ((core s)\<lparr>co_events := lo_events l\<rparr>)" if "Log_Shed io (sp_log s) k = (r, l)" for io k r l
  proof -
    have "lo_events l = map (shed_event k) (lo_events (sp_log s))"
      using that by (auto simp: Log_Shed_eq Let_def split: if_splits prod.splits option.splits)
    then show ?thesis using micro.shed [of "core s" k] assms(2,3) by simp
  qed
  show ?thesis
    unfolding shedRaw_def Let_def using assms
    by (auto intro!: paths dest: shed simp: plain_simps split: prod.split option.split)
qed

lemma trimHistory_path:
  assumes "path c (core s)" "\<not> sp_buffering s"
  shows "path c (core (trimHistory env limit s))"
proof -
  let ?events = "Log_All (sp_log s)"
  have trim: "path c ((core s)\<lparr>co_events := lo_events l\<rparr>)"
    if "makeHistoryCheckpoint (take (n + 1) ?events) = Inr cp" "Log_Compact io (sp_log s) cp = (r, l)" for n cp io r l
  proof (cases r)
    case None
    then have "lo_events l = compact_events cp (lo_events (sp_log s))"
      using that(2) by (auto simp: Log_Compact_eq Let_def split: if_splits prod.splits option.splits)
    moreover have "micro (core s) ((core s)\<lparr>co_events := compact_events cp (co_events (core s))\<rparr>)"
      using assms(2) that(1) by (intro micro.trim [where n = "n + 1"]) (simp_all add: Log_All_def Log_After_eq)
    ultimately show ?thesis using assms(1) by simp
  next
    case (Some e)
    then have "lo_events l = lo_events (sp_log s)"
      using that(2) by (auto simp: Log_Compact_eq Let_def split: if_splits prod.splits option.splits)
    then show ?thesis using assms(1) by (simp add: core_same)
  qed
  show ?thesis
    unfolding trimHistory_def Let_def
    using trim assms(1) by (auto split: option.split sum.split prod.split)
qed

lemma retainHistory_leads [paths]:
  assumes "clock env" "path c (core s)" "\<not> sp_buffering s"
  shows "leads c (retainHistory env s)"
proof -
  have trim: "leads c (Some (trimHistory env limit t))" if "path c (core t)" "\<not> sp_buffering t" for limit t
    using trimHistory_path that by (intro paths)
  have shed: "leads c (shedRaw env limit s \<bind> (\<lambda>p. if \<not> fst p then Some (snd p)
      else case store_size env (snd p) of None \<Rightarrow> Some (snd p)
        | Some n \<Rightarrow> if g n then Some (snd p) else Some (trimHistory env m (snd p))))" for limit g m
  proof (cases "shedRaw env limit s")
    case (Some p)
    then have "path c (core (snd p))" "\<not> sp_buffering (snd p)"
      using shedRaw_leads [OF assms(1) rtranclp.rtrancl_refl assms(3), of limit] shedRaw_leads [OF assms, of limit] assms(3)
      by (auto simp: leads_with_def dest: path_buf)
    then show ?thesis unfolding Some by (auto intro!: paths trimHistory_path split: option.split)
  qed (simp add: leads_def)
  show ?thesis
    unfolding retainHistory_def Let_def split_beta using assms(2,3)
    by (auto intro!: paths trimHistory_path shed split: option.split)
qed

section \<open>What can happen to a supervisor\<close>

lemma core_observe_raw [simp]: "core (observeUpdateRaw env raw s) = core s"
  by (simp add: observeUpdateRaw_def Let_def split: prod.split)

lemma consume_body_leads:
  assumes "clock env" "consume_body env raw s = Some t"
  shows "path (gather (core s)) (core t)"
proof -
  have "leads (gather (core s)) (consume_body env raw s)"
    unfolding consume_body_def Let_def split_beta using assms(1)
    by (intro paths | simp add: plain_simps gather_def)+
  then show ?thesis using assms(2) by (simp add: leads_def)
qed

lemma append_batch_core:
  assumes "append_batch env s = Some t"
  shows "co_batch (core s) \<noteq> [] \<and> (\<exists>now. core t = commit now (core s))"
  using assms
  by (auto simp: append_batch_def Log_AppendBatch_eq Let_def commit_def core_def split: if_splits prod.splits option.splits sum.splits)

lemma settled_leads:
  assumes "clock env" "path c (core s)" "\<not> sp_buffering s"
  shows "leads c (do { u \<leftarrow> approvePending env (recordState env s); v \<leftarrow> deliverQueued env u;
    if b v then retainHistory env v else Some v })"
proof -
  have "leads (core s) (approvePending env (recordState env s) \<bind> deliverQueued env)" using assms(1) by (intro paths) simp_all
  moreover have "leads c (approvePending env (recordState env s) \<bind> deliverQueued env)" using assms(1,2) by (intro paths) simp_all
  ultimately have v: "path c (core v) \<and> \<not> sp_buffering v"
    if "approvePending env (recordState env s) \<bind> deliverQueued env = Some v" for v
    using that assms(3) path_buf [of "core s" "core v"] by (simp add: leads_def)
  have "leads c ((approvePending env (recordState env s) \<bind> deliverQueued env) \<bind>
      (\<lambda>v. if b v then retainHistory env v else Some v))"
  proof (cases "approvePending env (recordState env s) \<bind> deliverQueued env")
    case (Some w)
    then show ?thesis using v [OF Some] assms(1) by (simp add: leads_base retainHistory_leads)
  qed (simp add: leads_def)
  then show ?thesis by simp
qed

lemma consume_advance:
  assumes "clock env" "\<not> sp_buffering s" "consume env raw s = Some s'"
  shows "advance (core s) (core s')"
proof -
  obtain d u where d: "consume_body env raw s = Some d" "append_batch env d = Some u"
      "(do { v \<leftarrow> approvePending env (recordState env u); w \<leftarrow> deliverQueued env v;
        if (\<exists>e\<in>set (sp_batch d). ev_kind e = ''turn_end'') \<and> sp_quota_root w \<noteq> [] then retainHistory env w else Some w }) = Some s'"
    using assms(3) by (auto simp: consume_def settle_def Let_def bind_eq_Some_conv)
  obtain now where now: "core u = commit now (core d)" "co_batch (core d) \<noteq> []" using append_batch_core [OF d(2)] by blast
  have "\<not> sp_buffering u" using arg_cong [OF now(1), of co_buf] by (simp add: commit_def)
  then have "path (commit now (core d)) (core s')"
    using settled_leads [OF assms(1), of "commit now (core d)" u] d(3) now(1) by (simp add: leads_def)
  then show ?thesis
    using advance.message [OF _ consume_body_leads [OF assms(1) d(1)] now(2)] assms(2) by simp
qed

lemma recordOverflow_leads [paths]: "clock env \<Longrightarrow> path c (core s) \<Longrightarrow> leads c (recordOverflow env frag s)"
  unfolding recordOverflow_def split_beta by (intro paths | simp add: plain_simps)+

lemma serveUpdate_leads [paths]: "clock env \<Longrightarrow> path c (core s) \<Longrightarrow> leads_with c (serveUpdate env r s)"
  unfolding serveUpdate_def Let_def split_beta by (intro paths | simp add: plain_simps)+

lemma serve_leads [paths]:
  assumes "clock env" "path c (core s)"
  shows "leads_with c (serve env r s)"
proof -
  have "leads_with c (Some (case out of Inl _ \<Rightarrow> (Http_error 409, t) | Inr rc \<Rightarrow> (Receipt_of rc, if b then kill t else t)))"
    if "path c (core t)" for out t b
    using that by (auto simp: leads_with_def split: sum.split)
  note answered = this
  have "leads_with c (executeLocked env op cmd s \<bind> (\<lambda>(out, t). Some (case out of Inl _ \<Rightarrow> (Http_error 409, t)
      | Inr rc \<Rightarrow> (Receipt_of rc, if b then kill t else t))))" for op cmd b
    by (rule leads_bind(4) [OF executeLocked_leads [OF assms]]) (simp add: answered case_prod_beta)
  then show ?thesis
    using serveUpdate_leads [OF assms, of r] assms(2) by (simp add: serve_def split_beta leads_base)
qed

lemma sharedQuotaTick_leads [paths]: "clock env \<Longrightarrow> path c (core s) \<Longrightarrow> leads c (sharedQuotaTick env s)"
  unfolding sharedQuotaTick_def by (intro paths | simp)+

lemma quotaTick_leads [paths]: "clock env \<Longrightarrow> path c (core s) \<Longrightarrow> \<not> sp_buffering s \<Longrightarrow> leads c (quotaTick env s)"
  unfolding quotaTick_def by (intro paths | simp)+

lemma finish_leads [paths]: "clock env \<Longrightarrow> path c (core s) \<Longrightarrow> leads c (finish env b s)"
  unfolding finish_def by (intro paths | simp add: plain_simps)+

lemma act_advances:
  assumes "clock env" "\<not> sp_buffering s" "act env a s = Some s'"
  shows "advance (core s) (core s')"
proof (cases "\<exists>raw. a = Consume raw")
  case True
  then show ?thesis using consume_advance assms by auto
next
  case False
  then have "leads (core s) (act env a s)"
    using assms(1,2) by (cases a) (auto intro!: paths)
  then show ?thesis using assms(3) by (auto simp: leads_def intro: advance.alone)
qed

end
