(* ===== verification/Ranges.thy ===== *)
theory Ranges
  imports History
begin

text \<open>
  What a compaction needs of the events: their numbers fit Go's integers.  Written and read back as
  JSON values, such events come out as they were, so a checkpoint made of them stands for them.
\<close>

definition ranged :: "event \<Rightarrow> bool" where
  "ranged e \<longleftrightarrow> ev_seq e < 2 ^ 64 \<and> - (2 ^ 63) \<le> ev_time e \<and> ev_time e < 2 ^ 63"

lemma dec_event_ranged:
  assumes "ranged e"
  shows "dec_event (event_json e) zero_event = (e, True)"
proof -
  have "dec_ptr zero_metadata dec_metadata (metadata_json m) None = (Some m, True)" for m
    using dec_metadata_json [of m] by (simp add: metadata_json_def)
  with assms show ?thesis
    by (cases "ev_payload e"; cases "ev_response e")
      (simp_all add: dec_event_def event_json_def dec_simps key_simps zero_event_def ranged_def)
qed

lemma dec_events_ranged: "list_all ranged es \<Longrightarrow> dec_list zero_event dec_event (events_json es) [] = (es, True)"
  by (auto simp: events_json_def dec_event_ranged list_all_iff intro: map_idI)

lemma ranged_zero [simp]: "ranged zero_event"
  by (simp add: ranged_def zero_event_def)

lemma dec_event_in_range:
  assumes "ranged v"
  shows "ranged (fst (dec_event j v))"
proof (cases j)
  case (JObj kvs)
  obtain c okc where c: "dec_field ''seq'' dec_uint64 kvs (ev_seq v) = (c, okc)" by fastforce
  obtain d okd where d: "dec_field ''time_ms'' dec_int64 kvs (ev_time v) = (d, okd)" by fastforce
  have "c < 2 ^ 64" by (rule dec_field_inv [OF c]) (use assms dec_uint64_bound in \<open>auto simp: ranged_def\<close>)
  moreover have "- (2 ^ 63) \<le> d \<and> d < 2 ^ 63"
    by (rule dec_field_inv [OF d]) (use assms dec_int64_bound in \<open>auto simp: ranged_def\<close>)
  ultimately show ?thesis by (simp add: dec_event_def JObj c d case_prod_unfold Let_def ranged_def)
qed (simp_all add: dec_event_def assms)

lemma dec_events_in_range:
  assumes "list_all ranged es"
  shows "list_all ranged (fst (dec_list zero_event dec_event j es))"
  using assms dec_event_in_range
  by (cases "(zero_event, dec_event, j, es)" rule: dec_list.cases) (auto simp: list_all_iff)

lemma resume_of_ranged: "list_all ranged (cp_resume (checkpoint_of p))"
proof (cases p)
  case (Some j)
  show ?thesis
  proof (cases j)
    case (JObj kvs)
    obtain c okc where c: "dec_field ''resume'' (dec_list zero_event dec_event) kvs [] = (c, okc)" by fastforce
    have "list_all ranged c" by (rule dec_field_inv [OF c]) (use dec_events_in_range in auto)
    then show ?thesis
      by (simp add: checkpoint_of_def unmarshal_payload_def Some JObj dec_checkpoint_def case_prod_unfold Let_def
          c zero_checkpoint_def)
  qed (simp_all add: checkpoint_of_def unmarshal_payload_def Some dec_checkpoint_def zero_checkpoint_def)
qed (simp add: checkpoint_of_def unmarshal_payload_def zero_checkpoint_def)

lemma resume_ranged: "list_all ranged es \<Longrightarrow> list_all ranged (resumeEvents es)"
proof (induction es rule: rev_induct)
  case (snoc e es)
  then show ?case using resume_of_ranged [of "ev_payload e"] by (simp add: resume_snoc resume_step_def)
qed (simp add: resumeEvents_def)

lemma latest_step_ranged:
  assumes "latest_step m e = Inr m'" "list_all ranged (map snd m)" "ranged e"
  shows "list_all ranged (map snd m')"
proof -
  have upd: "list_all ranged (map snd (AList.update k x m))" if "ranged x" for k x
    using assms(2) that by (induction m) (auto simp: list_all_iff)
  show ?thesis
    using assms by (auto simp: latest_step_def Let_def ranged_def intro!: upd split: if_splits prod.splits)
qed

lemma latest_of_ranged:
  "latest_of m es = Inr m' \<Longrightarrow> list_all ranged (map snd m) \<Longrightarrow> list_all ranged es \<Longrightarrow> list_all ranged (map snd m')"
  by (induction es arbitrary: m) (auto simp: bind_res_Inr_iff dest: latest_step_ranged)

text \<open>The checkpoint of a prefix, without regard to its payload: where it stands, and when it is valid.\<close>

lemma checkpoint_seq:
  assumes "makeHistoryCheckpoint es = Inr cp"
  shows "es \<noteq> []" "ev_kind cp = HistoryCheckpointKind" "ev_seq cp = lastSeq es" "ev_time cp = ev_time (last es)"
  using assms by (auto simp: makeHistoryCheckpoint_def Let_def bind_res_Inr_iff lastSeq_def last_or_last last_map split: if_splits)

lemma checkpoint_ranged:
  assumes "makeHistoryCheckpoint es = Inr cp" "log_ok es" "list_all ranged es"
  shows "ranged cp" "valid_checkpoint cp" "checkpoint_snapshot cp = Replay es"
proof -
  obtain latest where l: "es \<noteq> []" "sn_pending (Replay es) = []" "latest_of [] (resumeEvents es) = Inr latest"
    and cp: "cp = zero_event\<lparr>ev_session := ev_session (last es), ev_run := ev_run (last es), ev_seq := ev_seq (last es),
      ev_time := ev_time (last es), ev_kind := HistoryCheckpointKind,
      ev_payload := Some (checkpoint_json \<lparr>cp_version = 1, cp_snapshot = Replay es, cp_resume = sorted_values latest\<rparr>)\<rparr>"
    using assms(1) by (auto simp: makeHistoryCheckpoint_def Let_def bind_res_Inr_iff split: if_splits)
  let ?c = "\<lparr>cp_version = 1, cp_snapshot = Replay es, cp_resume = sorted_values latest\<rparr>"
  have last: "ev_seq (last es) = lastSeq es" using l(1) by (simp add: lastSeq_def last_or_last last_map)
  show r: "ranged cp" using assms(3) l(1) by (simp add: cp ranged_def list_all_iff)
  have "list_all ranged (sorted_values latest)"
    using latest_of_ranged [OF l(3)] resume_ranged [OF assms(3)] sorted_values_set [OF latest_of_wf [OF l(3)]]
    by (simp add: list_all_iff)
  moreover have n: "sn_last (Replay es) = lastSeq es" using Replay_order [OF assms(2) l(1)] by simp
  moreover have "lastSeq es < 2 ^ 64" using r last by (simp add: cp ranged_def)
  ultimately have dec: "dec_checkpoint (checkpoint_json ?c) zero_checkpoint = (?c, True)"
    using l(2) by (simp add: dec_checkpoint_def checkpoint_json_def dec_simps key_simps zero_checkpoint_def
        dec_events_ranged dec_snapshot_json ok_snapshot_def)
  have "0 < ev_seq (last es)"
    using log_shape_seq_pos [of es "last es"] assms(2) l(1) by (simp add: log_ok_def)
  then show "valid_checkpoint cp"
    using dec n last by (simp add: valid_checkpoint_def unmarshal_payload_def cp)
  show "checkpoint_snapshot cp = Replay es"
    using dec by (simp add: checkpoint_snapshot_def unmarshal_payload_def cp)
qed

lemma checkpoint_stands:
  assumes "log_ok (pre @ post)" "makeHistoryCheckpoint pre = Inr cp" "list_all ranged pre"
  shows "compact_events cp (pre @ post) = cp # post" "log_ok (cp # post)" "Replay (cp # post) = Replay (pre @ post)"
proof -
  note c = checkpoint_seq [OF assms(2)] checkpoint_ranged [OF assms(2) log_ok_prefix [OF assms(1)] assms(3)]
  show "compact_events cp (pre @ post) = cp # post" by (rule compact_prefix [OF assms(1) c(1,3)])
  show "Replay (cp # post) = Replay (pre @ post)"
    using Replay_prefix [OF assms(1) c(1)] by (simp add: Replay_def [of "cp # post"] Replay_checkpoint c)
  show "log_ok (cp # post)"
    using c log_ok_rest [OF assms(1) c(1)] Replay_order [OF log_ok_prefix [OF assms(1)] c(1)]
    by (simp add: log_ok_def log_shape_def)
qed

end
