(* ===== verification/Live.thy ===== *)
theory Live
  imports Refine Ranges
begin

text \<open>
  The live state agrees with the record: what a supervisor holds in memory while it runs is what
  replaying its log gives, which is what a restart reads.
\<close>

section \<open>Numbers only grow\<close>

definition all_events :: "core \<Rightarrow> event list" where
  "all_events c = co_events c @ co_batch c"

definition counted :: "core \<Rightarrow> bool" where
  "counted c \<longleftrightarrow> sorted_wrt (<) (map ev_seq (all_events c)) \<and> (\<forall>e\<in>set (all_events c). 0 < ev_seq e) \<and>
     sn_last (co_snap c) = lastSeq (all_events c) \<and> (\<not> co_buf c \<longrightarrow> co_batch c = []) \<and>
     map ev_seq (co_batch c) = [lastSeq (co_events c) + 1..<lastSeq (co_events c) + 1 + length (co_batch c)]"

lemma counted_seqs: "counted c \<Longrightarrow> next_seq c = sn_last (co_snap c) + 1"
  by (cases "co_buf c") (simp_all add: counted_def next_seq_def all_events_def)

lemma all_emit [simp]: "counted c \<Longrightarrow> all_events (emit e c) = all_events c @ [e]"
  by (simp add: all_events_def emit_def counted_def)

lemma emit_fields [simp]:
  "co_snap (emit e c) = project_event e (co_snap c)" "co_pending (emit e c) = co_pending c" "co_buf (emit e c) = co_buf c"
  by (simp_all add: emit_def)

lemma project_last [simp]: "sn_last (project_event e s) = ev_seq e"
  by (simp add: project_event_def Let_def)

lemma lastSeq_snoc [simp]: "lastSeq (es @ [e]) = ev_seq e"
  by (simp add: lastSeq_def)

lemma lastSeq_top: "sorted_wrt (<) (map ev_seq es) \<Longrightarrow> e \<in> set es \<Longrightarrow> ev_seq e \<le> lastSeq es"
  using seq_from_ge [of es e] by (cases "es = []") auto

lemma seqs_last: "map ev_seq b = [n + 1..<n + 1 + length b] \<Longrightarrow> seq_from n b = n + length b"
  by (cases "b = []") (simp_all add: last_or_last Suc_le_eq)

lemma counted_emit:
  assumes "counted c" "emits e c"
  shows "counted (emit e c)" "sn_last (co_snap c) < ev_seq e"
proof -
  have s: "ev_seq e = lastSeq (all_events c) + 1"
    using counted_seqs [OF assms(1)] assms by (simp add: emits_def counted_def)
  then show "sn_last (co_snap c) < ev_seq e" using assms(1) by (simp add: counted_def)
  have "ev_seq x < ev_seq e" if "x \<in> set (all_events c)" for x
    using lastSeq_top [OF _ that] assms(1) s by (fastforce simp: counted_def)
  moreover have "lastSeq (all_events c) = lastSeq (co_events c) + length (co_batch c)"
    using assms(1) seqs_last [of "co_batch c" "lastSeq (co_events c)"] by (simp add: counted_def all_events_def lastSeq_def)
  ultimately show "counted (emit e c)"
    using assms(1) s unfolding counted_def [of "emit e c"] all_emit [OF assms(1)]
    by (cases "co_buf c") (auto simp: counted_def sorted_wrt_append emit_def)
qed

lemma counted_ignores [simp]:
  "counted (c\<lparr>co_pending := p\<rparr>) = counted c"
  "counted (c\<lparr>co_snap := (co_snap c)\<lparr>sn_vendor := v\<rparr>\<rparr>) = counted c"
  "emits e (c\<lparr>co_snap := (co_snap c)\<lparr>sn_vendor := v\<rparr>\<rparr>) = emits e c"
  by (simp_all add: counted_def all_events_def emits_def next_seq_def)

lemma trim_seqs:
  assumes "counted c" "\<not> co_buf c" "makeHistoryCheckpoint (take n (events_after (co_events c) 0 (2 ^ 63 - 1))) = Inr cp"
  shows "\<exists>pre post. co_events c = pre @ post \<and> makeHistoryCheckpoint pre = Inr cp"
proof -
  have es: "all_events c = co_events c" using assms(1,2) by (simp add: counted_def all_events_def)
  then have "filter (\<lambda>e. 0 < ev_seq e) (co_events c) = co_events c" "sorted_wrt (<) (map ev_seq (co_events c))"
    using assms(1) by (auto simp: counted_def intro: filter_eq_self)
  then obtain m where "events_after (co_events c) 0 (2 ^ 63 - 1) = take m (co_events c)"
    using events_after_filter [of "co_events c" 0 "2 ^ 63 - 1"] by auto
  then have "makeHistoryCheckpoint (take (min n m) (co_events c)) = Inr cp" using assms(3) by (simp add: min.commute)
  then show ?thesis by (metis append_take_drop_id)
qed

lemma counted_micro: "micro c c' \<Longrightarrow> counted c \<Longrightarrow> counted c' \<and> sn_last (co_snap c) \<le> sn_last (co_snap c')"
proof (induction rule: micro.induct)
  case (report e c)
  then show ?case using counted_emit [of c e] by simp
next
  case (ask e c)
  then show ?case using counted_emit [of c e] by simp
next
  case (resolve e c)
  then show ?case using counted_emit [of c e] by simp
next
  case (identify e c)
  let ?d = "c\<lparr>co_snap := (co_snap c)\<lparr>sn_vendor := ev_text e\<rparr>\<rparr>"
  have "counted ?d" "emits e ?d" using identify by simp_all
  then show ?case using counted_emit [of ?d e] by simp
next
  case (hold e c)
  then show ?case using counted_emit [of c e] by simp
next
  case (take e c)
  then show ?case using counted_emit [of c e] by simp
next
  case (drop e c d reason)
  then show ?case using counted_emit [of c e] counted_emit [of "emit e c" d] by simp
next
  case (trim c n cp)
  obtain pre post where p: "co_events c = pre @ post" "makeHistoryCheckpoint pre = Inr cp"
    using trim_seqs [OF trim.prems trim.hyps] by blast
  note cp = checkpoint_seq [OF p(2)]
  have es: "all_events c = pre @ post" "co_batch c = []" using trim p(1) by (simp_all add: counted_def all_events_def)
  have s: "sorted_wrt (<) (map ev_seq pre)" "\<forall>x\<in>set pre. \<forall>y\<in>set post. ev_seq x < ev_seq y" "sorted_wrt (<) (map ev_seq post)"
    using trim.prems unfolding counted_def es(1) by (auto simp: sorted_wrt_append)
  have l: "last pre \<in> set pre" "lastSeq pre = ev_seq (last pre)"
    using cp(1) by (simp_all add: lastSeq_def last_or_last last_map)
  have "filter (\<lambda>e. ev_seq cp < ev_seq e) pre = []"
    using lastSeq_top [OF s(1)] by (intro filter_eq_Nil) (fastforce simp: cp(3))
  moreover have "filter (\<lambda>e. ev_seq cp < ev_seq e) post = post"
    using s(2) l by (intro filter_eq_self) (simp add: cp(3))
  ultimately have "compact_events cp (co_events c) = cp # post" by (simp add: compact_events_def p(1))
  moreover have "lastSeq (cp # post) = lastSeq (pre @ post)" using cp(1,3) by (simp add: lastSeq_def)
  moreover have "0 < ev_seq cp" using trim.prems l by (auto simp: counted_def es(1) cp(3))
  ultimately show ?case
    using trim.prems es s l unfolding counted_def
    by (auto simp: all_events_def cp(3))
next
  case (shed c k)
  have "lastSeq (map (shed_event k) es) = lastSeq es" for es unfolding lastSeq_def shed_seqs ..
  then show ?case
    using shed unfolding counted_def by (auto simp: all_events_def simp del: shed_seqs simp flip: shed_seqs [of k])
qed

section \<open>The live state is the replayed state\<close>

text \<open>With \<open>V\<close> the conversation id agrees too; a fresh Codex thread forgets it in memory only.\<close>

definition mirrors :: "bool \<Rightarrow> core \<Rightarrow> bool" where
  "mirrors V c \<longleftrightarrow> log_ok (all_events c) \<and> co_events c \<noteq> [] \<and> list_all ranged (all_events c) \<and>
     (\<forall>e\<in>set (co_batch c). 0 < ev_time e) \<and> pend_ok (sn_last (co_snap c)) (co_pending c) \<and>
     (\<exists>v. (V \<longrightarrow> v = sn_vendor (co_snap c)) \<and>
        Replay (all_events c) = replay_close ((co_snap c)\<lparr>sn_vendor := v\<rparr>, co_pending c))"

lemma mirrors_events: "mirrors V c \<Longrightarrow> all_events c \<noteq> []"
  by (simp add: mirrors_def all_events_def)

lemma emit_events [simp]: "co_events c \<noteq> [] \<Longrightarrow> co_events (emit e c) \<noteq> []"
  by (simp add: emit_def)

lemma Replay_emit:
  assumes "log_ok es" "es \<noteq> []" "pend_ok (sn_last s) p" "Replay es = replay_close (s, p)"
    "ev_seq e = lastSeq es + 1" "ev_kind e \<noteq> HistoryCheckpointKind" "sn_last s < ev_seq e"
  shows "log_ok (es @ [e])" "Replay (es @ [e]) = replay_close (replay_step (s, p) e)"
proof -
  show ok: "log_ok (es @ [e])"
    using assms(1,2,5,6) log_shape_append [of es "[e]"] by (cases es) (simp_all add: log_ok_def)
  have "Replay (es @ [e]) = ReplayFrom (Replay es) [e]" using Replay_prefix [OF ok assms(2)] by simp
  also have "\<dots> = replay_close (replay_step (replay_close (s, p), pending_map (sn_pending (replay_close (s, p)))) e)"
    by (simp add: ReplayFrom_def assms(4) del: replay_step.simps)
  also have "\<dots> = replay_close (replay_step (s, p) e)"
  proof -
    obtain s' p' where st: "replay_step (s, p) e = (s', p')" by fastforce
    obtain t q where tq: "replay_step (replay_close (s, p), pending_map (sn_pending (replay_close (s, p)))) e = (t, q)"
      by fastforce
    have "same_state (s', p') (t, q)"
      using same_step [OF same_reopen [OF assms(3), of s], of e] by (simp only: st tq)
    moreover have "pend_ok (sn_last s') p'"
      using replay_step_ok [OF assms(3,7,6) st] by (rule conjunct1)
    ultimately show ?thesis using same_close unfolding st tq by metis
  qed
  finally show "Replay (es @ [e]) = replay_close (replay_step (s, p) e)" .
qed

lemma pend_after:
  assumes "pend_ok (sn_last s) p" "sn_last s < ev_seq e"
  shows "pend_ok (ev_seq e) p" "pend_ok (ev_seq e) (AList.update (ev_request e) e p)" "pend_ok (ev_seq e) (AList.delete k p)"
  using pend_ok_mono [OF assms(1), of "ev_seq e"] pend_ok_update [OF assms] pend_ok_delete [of "ev_seq e" p k] assms(2)
  by simp_all

text \<open>One event, whatever it does to the pending requests and the id, as long as replay does the same.\<close>

lemma mirrors_emit:
  assumes m: "mirrors V c" and c: "counted c" and e: "emits e c" "ev_kind e \<noteq> HistoryCheckpointKind" and s: "ev_seq e < 2 ^ 64"
    and pend: "pend_ok (ev_seq e) q"
    and step: "\<And>v. \<exists>w. (V \<and> v = sn_vendor (co_snap c) \<longrightarrow> w = sn_vendor s') \<and>
      replay_step ((co_snap c)\<lparr>sn_vendor := v\<rparr>, co_pending c) e = (s'\<lparr>sn_vendor := w\<rparr>, q)"
    and c': "all_events c' = all_events c @ [e]" "set (co_batch c') \<subseteq> insert e (set (co_batch c))" "co_snap c' = s'"
      "co_pending c' = q" "sn_last s' = ev_seq e" "co_events c' \<noteq> []"
  shows "mirrors V c'"
proof -
  obtain v where v: "V \<longrightarrow> v = sn_vendor (co_snap c)"
      "Replay (all_events c) = replay_close ((co_snap c)\<lparr>sn_vendor := v\<rparr>, co_pending c)"
    using m by (auto simp: mirrors_def)
  obtain w where w: "V \<and> v = sn_vendor (co_snap c) \<longrightarrow> w = sn_vendor s'"
      "replay_step ((co_snap c)\<lparr>sn_vendor := v\<rparr>, co_pending c) e = (s'\<lparr>sn_vendor := w\<rparr>, q)"
    using step by blast
  have seq: "ev_seq e = lastSeq (all_events c) + 1"
    using counted_seqs [OF c] e(1) c by (simp add: emits_def counted_def)
  have pre: "log_ok (all_events c)" "all_events c \<noteq> []"
      "pend_ok (sn_last ((co_snap c)\<lparr>sn_vendor := v\<rparr>)) (co_pending c)"
      "sn_last ((co_snap c)\<lparr>sn_vendor := v\<rparr>) < ev_seq e"
    using m counted_emit(2) [OF c e(1)] mirrors_events [OF m] by (simp_all add: mirrors_def)
  note r = Replay_emit [OF pre(1-3) v(2) seq e(2) pre(4)]
  have "ranged e" "0 < ev_time e" using e(1) s by (simp_all add: ranged_def emits_def)
  then show ?thesis
    using m r w v(1) pend c' unfolding mirrors_def c'(1) w(2) by (auto simp: list_all_iff)
qed

lemma replay_plain:
  "plain (ev_kind e) (ev_text e) \<Longrightarrow> ev_run e = sn_run s \<Longrightarrow>
   replay_step (s, p) e = (project_event e s, p)"
  by (cases s) (auto simp: plain_def project_event_def Let_def)

lemma project_vendor [simp]: "project_event e (s\<lparr>sn_vendor := v\<rparr>) = (project_event e s)\<lparr>sn_vendor := v\<rparr>"
  "sn_vendor (project_event e s) = sn_vendor s"
  by (simp_all add: project_event_def Let_def)

lemma replay_other:
  "ev_kind e = ''approval'' \<Longrightarrow> replay_step (s, p) e = (project_event e s, AList.update (ev_request e) e p)"
  "ev_kind e = ''approval_resolved'' \<Longrightarrow> replay_step (s, p) e = (project_event e s, AList.delete (ev_request e) p)"
  "ev_kind e = ''queued'' \<Longrightarrow> replay_step (s, p) e = (project_event e s, p)"
  "ev_kind e = ''vendor'' \<Longrightarrow> replay_step (s, p) e = ((project_event e s)\<lparr>sn_vendor := ev_text e\<rparr>, p)"
  by (simp_all add: project_event_def Let_def kind_defs)

lemma batch_emit: "set (co_batch (emit e c)) \<subseteq> insert e (set (co_batch c))"
  by (auto simp: emit_def)

lemma mirrors_simple:
  assumes "mirrors V c" "counted c" "emits e c" "ev_seq e < 2 ^ 64"
    "plain (ev_kind e) (ev_text e) \<or> ev_kind e = ''queued''"
  shows "mirrors V (emit e c)"
proof (rule mirrors_emit [OF assms(1-3) _ assms(4), of "co_pending c" "project_event e (co_snap c)"])
  show "ev_kind e \<noteq> HistoryCheckpointKind" using assms(5) by (auto simp: plain_def kind_defs)
  show "pend_ok (ev_seq e) (co_pending c)"
    using pend_after(1) [OF _ counted_emit(2) [OF assms(2,3)]] assms(1) by (simp add: mirrors_def)
  show "\<exists>w. (V \<and> v = sn_vendor (co_snap c) \<longrightarrow> w = sn_vendor (project_event e (co_snap c))) \<and>
      replay_step ((co_snap c)\<lparr>sn_vendor := v\<rparr>, co_pending c) e = ((project_event e (co_snap c))\<lparr>sn_vendor := w\<rparr>, co_pending c)" for v
    using assms(3,5) replay_plain replay_other(3) by (intro exI [of _ v]) (auto simp: emits_def simp del: replay_step.simps)
qed (use assms(1) in \<open>simp_all add: assms(2) batch_emit mirrors_def\<close>)

lemma mirrors_ask:
  assumes "mirrors V c" "counted c" "emits e c" "ev_seq e < 2 ^ 64"
  shows "ev_kind e = ''approval'' \<Longrightarrow> mirrors V ((emit e c)\<lparr>co_pending := AList.update (ev_request e) e (co_pending c)\<rparr>)"
    and "ev_kind e = ''approval_resolved'' \<Longrightarrow> mirrors V ((emit e c)\<lparr>co_pending := AList.delete (ev_request e) (co_pending c)\<rparr>)"
proof -
  have p: "pend_ok (ev_seq e) (AList.update (ev_request e) e (co_pending c))"
      "pend_ok (ev_seq e) (AList.delete (ev_request e) (co_pending c))"
    using pend_after(2,3) [OF _ counted_emit(2) [OF assms(2,3)]] assms(1) by (simp_all add: mirrors_def)
  have a: "all_events ((emit e c)\<lparr>co_pending := q\<rparr>) = all_events c @ [e]"
      "set (co_batch ((emit e c)\<lparr>co_pending := q\<rparr>)) \<subseteq> insert e (set (co_batch c))" for q
    using all_emit [OF assms(2), of e] batch_emit [of e c] by (simp_all add: all_events_def)
  show "mirrors V ((emit e c)\<lparr>co_pending := AList.update (ev_request e) e (co_pending c)\<rparr>)" if k: "ev_kind e = ''approval''"
  proof (rule mirrors_emit [OF assms(1-3) _ assms(4) p(1), of "project_event e (co_snap c)"])
    show "\<exists>w. (V \<and> v = sn_vendor (co_snap c) \<longrightarrow> w = sn_vendor (project_event e (co_snap c))) \<and>
      replay_step ((co_snap c)\<lparr>sn_vendor := v\<rparr>, co_pending c) e =
        ((project_event e (co_snap c))\<lparr>sn_vendor := w\<rparr>, AList.update (ev_request e) e (co_pending c))" for v
      using replay_other(1) [OF k] by (intro exI [of _ v]) (simp del: replay_step.simps)
  qed (use a k assms(1) in \<open>simp_all add: kind_defs mirrors_def\<close>)
  show "mirrors V ((emit e c)\<lparr>co_pending := AList.delete (ev_request e) (co_pending c)\<rparr>)" if k: "ev_kind e = ''approval_resolved''"
  proof (rule mirrors_emit [OF assms(1-3) _ assms(4) p(2), of "project_event e (co_snap c)"])
    show "\<exists>w. (V \<and> v = sn_vendor (co_snap c) \<longrightarrow> w = sn_vendor (project_event e (co_snap c))) \<and>
      replay_step ((co_snap c)\<lparr>sn_vendor := v\<rparr>, co_pending c) e =
        ((project_event e (co_snap c))\<lparr>sn_vendor := w\<rparr>, AList.delete (ev_request e) (co_pending c))" for v
      using replay_other(2) [OF k] by (intro exI [of _ v]) (simp del: replay_step.simps)
  qed (use a k assms(1) in \<open>simp_all add: kind_defs mirrors_def\<close>)
qed

lemma mirrors_identify:
  assumes "mirrors V c" "counted c" "emits e c" "ev_seq e < 2 ^ 64" "ev_kind e = ''vendor''"
  shows "mirrors V (emit e (c\<lparr>co_snap := (co_snap c)\<lparr>sn_vendor := ev_text e\<rparr>\<rparr>))"
proof (rule mirrors_emit [OF assms(1-3) _ assms(4), of "co_pending c" "(project_event e (co_snap c))\<lparr>sn_vendor := ev_text e\<rparr>"])
  show "pend_ok (ev_seq e) (co_pending c)"
    using pend_after(1) [OF _ counted_emit(2) [OF assms(2,3)]] assms(1) by (simp add: mirrors_def)
  show "\<exists>w. (V \<and> v = sn_vendor (co_snap c) \<longrightarrow> w = sn_vendor ((project_event e (co_snap c))\<lparr>sn_vendor := ev_text e\<rparr>)) \<and>
      replay_step ((co_snap c)\<lparr>sn_vendor := v\<rparr>, co_pending c) e =
        ((project_event e (co_snap c))\<lparr>sn_vendor := ev_text e, sn_vendor := w\<rparr>, co_pending c)" for v
    using replay_other(4) [OF assms(5)] by (intro exI [of _ "ev_text e"]) (simp del: replay_step.simps)
  show "all_events (emit e (c\<lparr>co_snap := (co_snap c)\<lparr>sn_vendor := ev_text e\<rparr>\<rparr>)) = all_events c @ [e]"
    using assms(2) by (subst all_emit) (simp_all add: all_events_def)
qed (use assms(1,5) in \<open>auto simp: kind_defs emit_def mirrors_def\<close>)

lemma mirrors_trim:
  assumes "mirrors V c" "counted c" "\<not> co_buf c" "makeHistoryCheckpoint (take n (events_after (co_events c) 0 (2 ^ 63 - 1))) = Inr cp"
  shows "mirrors V (c\<lparr>co_events := compact_events cp (co_events c)\<rparr>)"
proof -
  obtain pre post where p: "co_events c = pre @ post" "makeHistoryCheckpoint pre = Inr cp"
    using trim_seqs [OF assms(2-4)] by blast
  have es: "co_batch c = []" "all_events c = pre @ post" using assms(2,3) p(1) by (simp_all add: counted_def all_events_def)
  have ok: "log_ok (pre @ post)" "list_all ranged pre" using assms(1) by (simp_all add: mirrors_def es)
  note s = checkpoint_stands [OF ok(1) p(2) ok(2)]
  have "ranged cp" using checkpoint_ranged(1) [OF p(2) log_ok_prefix [OF ok(1)] ok(2)] .
  then show ?thesis
    using assms(1) s unfolding mirrors_def es by (simp add: all_events_def es(1) p(1))
qed

lemma shed_replay: "Replay (map (shed_event k) es) = Replay es"
  by (simp add: Replay_def ReplayFrom_def foldl_map replay_step_shed)

lemma shed_log_ok: "log_ok es \<Longrightarrow> log_ok (map (shed_event k) es)"
  using shed_shape [of k es] by (cases es) (simp_all add: log_ok_def checkpoint_snapshot_def)

lemma mirrors_shed:
  assumes "mirrors V c" "counted c" "\<not> co_buf c"
  shows "mirrors V (c\<lparr>co_events := map (shed_event k) (co_events c)\<rparr>)"
proof -
  have es: "co_batch c = []" "all_events c = co_events c" using assms(2,3) by (simp_all add: counted_def all_events_def)
  have "list_all ranged (map (shed_event k) (co_events c)) = list_all ranged (co_events c)"
    by (simp add: list_all_iff ranged_def)
  then show ?thesis
    using assms(1) shed_replay shed_log_ok unfolding mirrors_def es by (simp add: all_events_def es(1))
qed

lemma mirrors_micro:
  "micro c c' \<Longrightarrow> mirrors V c \<Longrightarrow> counted c \<Longrightarrow> sn_last (co_snap c') < 2 ^ 64 \<Longrightarrow> mirrors V c'"
proof (induction rule: micro.induct)
  case (report e c)
  then show ?case by (intro mirrors_simple) simp_all
next
  case (ask e c)
  then show ?case by (intro mirrors_ask(1)) simp_all
next
  case (resolve e c)
  then show ?case by (intro mirrors_ask(2)) simp_all
next
  case (identify e c)
  then show ?case by (intro mirrors_identify) simp_all
next
  case (hold e c)
  then show ?case by (intro mirrors_simple) simp_all
next
  case (take e c)
  then show ?case by (intro mirrors_simple) simp_all
next
  case (drop e c d reason)
  have c: "counted (emit e c)" using counted_emit drop by blast
  then have "ev_seq e < 2 ^ 64" using counted_emit(2) [OF c drop.hyps(5)] drop.prems(3) by simp
  then have "mirrors V (emit e c)" using drop by (intro mirrors_simple) simp_all
  then show ?case using drop by (intro mirrors_simple [OF _ c]) (simp_all add: plain_simps)
next
  case (trim c n cp)
  then show ?case using mirrors_trim by blast
next
  case (shed c k)
  then show ?case using mirrors_shed by blast
qed

lemma mirrors_path:
  "path c c' \<Longrightarrow> mirrors V c \<Longrightarrow> counted c \<Longrightarrow>
   counted c' \<and> sn_last (co_snap c) \<le> sn_last (co_snap c') \<and> (sn_last (co_snap c') < 2 ^ 64 \<longrightarrow> mirrors V c')"
proof (induction rule: rtranclp_induct)
  case (step d e)
  then have "counted d" "sn_last (co_snap c) \<le> sn_last (co_snap d)" by simp_all
  moreover note counted_micro [OF step.hyps(2) \<open>counted d\<close>]
  moreover have "mirrors V e" if "sn_last (co_snap e) < 2 ^ 64"
    using mirrors_micro [OF step.hyps(2) _ \<open>counted d\<close> that] step calculation that by simp
  ultimately show ?case by simp
qed simp

lemma counted_path: "path c c' \<Longrightarrow> counted c \<Longrightarrow> counted c' \<and> sn_last (co_snap c) \<le> sn_last (co_snap c')"
proof (induction rule: rtranclp_induct)
  case (step d e)
  then show ?case using counted_micro [OF step.hyps(2)] by simp
qed simp

lemma gather_keeps: "counted c \<Longrightarrow> \<not> co_buf c \<Longrightarrow> counted (gather c) \<and> (mirrors V c \<longrightarrow> mirrors V (gather c))"
  by (auto simp: counted_def mirrors_def gather_def all_events_def)

text \<open>A committed batch is the events the live state was already computed from.\<close>

lemma commit_counted:
  assumes "counted c"
  shows "counted (commit now c)"
proof -
  let ?b = "number_batch now (lastSeq (co_events c)) (co_batch c)"
  have "map ev_seq ?b = map ev_seq (co_batch c)" using assms by (simp add: number_batch_seqs counted_def)
  then have seqs: "map ev_seq (co_events c @ ?b) = map ev_seq (all_events c)" by (simp add: all_events_def)
  have all: "all_events (commit now c) = co_events c @ ?b" by (simp add: commit_def all_events_def)
  have "\<forall>n\<in>set (map ev_seq (co_events c @ ?b)). 0 < n"
    unfolding seqs using assms by (simp add: counted_def)
  then have "\<forall>e\<in>set (co_events c @ ?b). 0 < ev_seq e" by (simp only: set_map) blast
  moreover have "sorted_wrt (<) (map ev_seq (co_events c @ ?b))"
    unfolding seqs using assms by (simp add: counted_def)
  moreover have "lastSeq (co_events c @ ?b) = lastSeq (all_events c)" using arg_cong [OF seqs, of "last_or 0"] by (simp only: lastSeq_def)
  ultimately show ?thesis
    using assms unfolding counted_def all by (simp add: commit_def)
qed

lemma number_batch_self:
  "contiguous n es \<Longrightarrow> \<forall>e\<in>set es. ev_time e \<noteq> 0 \<Longrightarrow> number_batch now n es = es"
proof (induction es arbitrary: n)
  case (Cons e es)
  then have "ev_seq e = n + 1" "number_batch now (n + 1) es = es" by simp_all
  then show ?case using Cons.prems(2) by (cases e) simp
qed simp

lemma commit_keeps:
  assumes "mirrors V c"
  shows "mirrors V (commit now c)" "all_events (commit now c) = all_events c"
proof -
  have "contiguous (lastSeq (co_events c)) (co_batch c)"
    using log_ok_rest [of "co_events c" "co_batch c"] assms by (simp add: mirrors_def all_events_def)
  then have b: "number_batch now (lastSeq (co_events c)) (co_batch c) = co_batch c"
    using assms by (intro number_batch_self) (auto simp: mirrors_def)
  show "all_events (commit now c) = all_events c" by (simp add: commit_def all_events_def b)
  then show "mirrors V (commit now c)"
    using assms by (simp add: mirrors_def) (simp add: commit_def)
qed

lemma mirrors_advance:
  assumes "advance c c'" "mirrors V c" "counted c" "\<not> co_buf c" "sn_last (co_snap c') < 2 ^ 64"
  shows "mirrors V c' \<and> counted c' \<and> \<not> co_buf c' \<and> sn_last (co_snap c) \<le> sn_last (co_snap c')"
  using assms
proof (induction rule: advance.induct)
  case (alone c c')
  then show ?case using mirrors_path [OF alone.hyps] path_buf [OF alone.hyps] by simp
next
  case (message c d now c')
  have g: "counted (gather c)" "mirrors V (gather c)" using gather_keeps message.prems by blast+
  note d = counted_path [OF message.hyps(2) g(1)]
  have c: "counted (commit now d)" "co_snap (commit now d) = co_snap d" using commit_counted d by (simp_all add: commit_def)
  note p = counted_path [OF message.hyps(4) c(1)]
  have "mirrors V d" using mirrors_path [OF message.hyps(2) g(2,1)] p c(2) message.prems(4) by simp
  then have "mirrors V c'"
    using mirrors_path [OF message.hyps(4) commit_keeps(1) c(1)] message.prems(4) by simp
  then show ?case
    using p d c(2) path_buf [OF message.hyps(4)] by (simp add: commit_def gather_def)
qed

lemma counted_advance:
  "advance c c' \<Longrightarrow> counted c \<Longrightarrow> \<not> co_buf c \<Longrightarrow> counted c' \<and> \<not> co_buf c' \<and> sn_last (co_snap c) \<le> sn_last (co_snap c')"
proof (induction rule: advance.induct)
  case (alone c c')
  then show ?case using counted_path [OF alone.hyps] path_buf [OF alone.hyps] by simp
next
  case (message c d now c')
  have g: "counted (gather c)" using gather_keeps message.prems by blast
  note d = counted_path [OF message.hyps(2) g]
  have c: "counted (commit now d)" "co_snap (commit now d) = co_snap d" using commit_counted d by (simp_all add: commit_def)
  show ?case
    using counted_path [OF message.hyps(4) c(1)] d c(2) path_buf [OF message.hyps(4)] by (simp add: commit_def gather_def)
qed

section \<open>From the start of a run\<close>

text \<open>A log a run can start on: as opening leaves it, of a length a Go slice has, and the run's id is new.\<close>

definition startable :: "store_log \<Rightarrow> string \<Rightarrow> bool" where
  "startable l run \<longleftrightarrow> log_ok (lo_events l) \<and> list_all ranged (lo_events l) \<and> length (lo_events l) < 2 ^ 63 \<and>
     run \<noteq> sn_run (Replay (lo_events l))"

lemma Log_All_events: "startable l run \<Longrightarrow> Log_All l = lo_events l"
proof -
  assume s: "startable l run"
  then have "log_shape (lo_events l)" "length (lo_events l) \<le> nat (max 0 (2 ^ 63 - 1))"
    by (simp_all add: startable_def log_ok_def)
  then have "filter (\<lambda>e. 0 < ev_seq e) (lo_events l) = lo_events l" "sorted_wrt (<) (map ev_seq (lo_events l))"
    using log_shape_seq_pos log_shape_sorted by (auto intro: filter_eq_self)
  then show ?thesis
    using s events_after_filter [of "lo_events l" 0 "2 ^ 63 - 1"]
    by (simp add: Log_All_def Log_After_eq startable_def)
qed

lemma Replay_state:
  assumes "log_ok es" "ev_seq e = lastSeq es + 1" "ev_kind e = ''state''" "ev_run e \<noteq> sn_run (Replay es)"
  shows "log_ok (es @ [e])" "Replay (es @ [e]) = (Replay es)\<lparr>sn_last := ev_seq e, sn_state := ev_text e, sn_run := ev_run e,
    sn_queued := [], sn_queued_id := [], sn_pending := []\<rparr>"
proof -
  have "log_shape (es @ [e])"
    by (rule log_shape_append) (use assms(1-3) in \<open>simp_all add: log_ok_def kind_defs\<close>)
  then show ok: "log_ok (es @ [e])"
    using assms(1,3) by (cases es) (simp_all add: log_ok_def kind_defs)
  have "Replay (es @ [e]) = ReplayFrom (Replay es) [e]"
  proof (cases "es = []")
    case True
    have "Replay [] = fresh_snapshot" by (simp add: Replay_def ReplayFrom_def replay_close_def fresh_snapshot_def zero_snapshot_def)
    then show ?thesis by (simp add: True Replay_fresh [of "[e]"])
  qed (use Replay_prefix [OF ok] in simp)
  then show "Replay (es @ [e]) = (Replay es)\<lparr>sn_last := ev_seq e, sn_state := ev_text e, sn_run := ev_run e,
    sn_queued := [], sn_queued_id := [], sn_pending := []\<rparr>"
    using assms(3,4) by (simp add: ReplayFrom_def replay_close_def kind_defs)
qed

lemma mirrors_vendor:
  "mirrors V c \<Longrightarrow> mirrors (V \<and> v = sn_vendor (co_snap c)) (c\<lparr>co_snap := (co_snap c)\<lparr>sn_vendor := v\<rparr>\<rparr>)"
  by (auto simp: mirrors_def all_events_def)

lemma core_restore_steps: "core (foldl restore_step s es) = core s"
  by (induction es arbitrary: s) (simp_all add: restore_step_def Let_def)

lemma start_first:
  assumes "startable l run" "clock env" "core s = core (new_sup session l run)" "say env ''state'' ''starting'' s = Some t"
  shows "lastSeq (lo_events l) + 1 < 2 ^ 64 \<Longrightarrow> mirrors True (core t)" "counted (core t)" "\<not> sp_buffering t" "sn_vendor (sp_snap t) = sn_vendor (Replay (lo_events l))"
proof -
  let ?es = "lo_events l" and ?old = "Replay (lo_events l)"
  obtain c where cs: "core s = c" by simp
  have c: "co_events c = ?es" "co_batch c = []" "\<not> co_buf c" "co_pending c = []"
    "co_snap c = zero_snapshot\<lparr>sn_state := ''starting'', sn_run := run, sn_vendor := sn_vendor ?old, sn_permission := sn_permission ?old\<rparr>"
    unfolding cs [symmetric] assms(3) by (simp_all add: new_sup_def core_def Let_def Log_All_events [OF assms(1)])
  from event_step [OF assms(4) [unfolded say_def] assms(2), unfolded cs] obtain e where
    e: "emits e c" "core t = emit e c" "ev_kind e = ''state''" "ev_text e = ''starting''" by blast
  have seq: "ev_seq e = lastSeq ?es + 1" "ev_run e = run" "0 < ev_time e" "ev_time e < 2 ^ 63"
    using e(1) c(3) by (simp_all add: emits_def next_seq_def c(1)) (simp add: c(5))
  have ok: "log_ok ?es" "list_all ranged ?es" "run \<noteq> sn_run ?old" using assms(1) by (simp_all add: startable_def)
  have r: "log_ok (?es @ [e])" "Replay (?es @ [e]) = ?old\<lparr>sn_last := ev_seq e, sn_state := ''starting'', sn_run := run,
      sn_queued := [], sn_queued_id := [], sn_pending := []\<rparr>"
    using Replay_state [OF ok(1) seq(1) e(3)] ok(3) by (simp_all add: seq(2) e(4))
  have all: "all_events (core t) = ?es @ [e]" "co_batch (core t) = []" "co_events (core t) = ?es @ [e]" "\<not> co_buf (core t)"
    using c by (simp_all add: e(2) emit_def all_events_def)
  have snap: "co_snap (core t) = (co_snap c)\<lparr>sn_last := ev_seq e\<rparr>" "co_pending (core t) = []"
    using e(3,4) c(4,5) by (simp_all add: e(2) project_event_def zero_snapshot_def)
  have "Replay (?es @ [e]) = replay_close (co_snap (core t), co_pending (core t))"
    unfolding r(2) snap replay_close_def c(5) by (cases ?old) (simp add: zero_snapshot_def)
  moreover have "ranged e" if "lastSeq ?es + 1 < 2 ^ 64" using seq that by (simp add: ranged_def)
  ultimately show "mirrors True (core t)" if "lastSeq ?es + 1 < 2 ^ 64"
    using that r(1) ok(2) unfolding mirrors_def all by (simp add: snap(2) pend_ok_def del: core_fields)
  have "log_shape ?es" using ok(1) by (simp add: log_ok_def)
  then show "counted (core t)"
    using log_shape_seq_pos [of "?es @ [e]"] log_shape_sorted [of "?es @ [e]"] r(1) unfolding counted_def all
    by (simp add: log_ok_def snap del: core_fields)
  show "\<not> sp_buffering t" using all(4) by simp
  show "sn_vendor (sp_snap t) = sn_vendor ?old" using arg_cong [OF snap(1), of sn_vendor] by (simp add: c(5))
qed

lemma core_codex_setup:
  "core (codex_setup session s) = core s \<or> core (codex_setup session s) = (core s)\<lparr>co_snap := (sp_snap s)\<lparr>sn_vendor := []\<rparr>\<rparr>"
  by (auto simp: codex_setup_def Let_def)

lemma say_vendor: "say env k t s = Some s' \<Longrightarrow> clock env \<Longrightarrow> sn_vendor (co_snap (core s')) = sn_vendor (co_snap (core s))"
  unfolding say_def using event_step [of env k t "[]" None s s']
  by (metis emit_fields(1) project_vendor(2))

lemma mirrors_weaken: "mirrors True c \<Longrightarrow> mirrors V c"
  by (auto simp: mirrors_def)

abbreviation fresh :: "env \<Rightarrow> string \<Rightarrow> string \<Rightarrow> session \<Rightarrow> store_log \<Rightarrow> string \<Rightarrow> sup" where
  "fresh env root token session l run \<equiv>
     (recordState env (foldl restore_step (new_sup session l run) (resumeEvents (Log_All l))))
       \<lparr>sp_quota_root := root, sp_quota_token := token\<rparr>"

lemma start_parts:
  assumes "start env root token session l run mcp = Some (b, s)"
  obtains t u where "say env ''state'' ''starting'' (fresh env root token session l run) = Some t"
    "(if sn_queued (Replay (Log_All l)) \<noteq> [] then say env ''diagnostic'' (survived_notice (sn_queued (Replay (Log_All l)))) t
      else Some t) = Some u"
    "core s = core (codex_setup session u)"
  using assms core_write unfolding start_def Let_def bind_eq_Some_conv option.inject by fastforce

lemma core_fresh: "core (fresh env root token session l run) = core (new_sup session l run)"
  by (simp add: core_restore_steps)

lemma start_live:
  assumes "start env root token session l run mcp = Some (b, s)" "startable l run" "clock env"
  shows "counted (core s) \<and> \<not> sp_buffering s \<and>
    (sn_last (sp_snap s) < 2 ^ 64 \<longrightarrow> mirrors (sn_vendor (sp_snap s) = sn_vendor (Replay (lo_events l))) (core s))"
proof -
  let ?old = "Replay (Log_All l)" and ?s0 = "fresh env root token session l run"
  obtain t u where t: "say env ''state'' ''starting'' ?s0 = Some t"
    and u: "(if sn_queued ?old \<noteq> [] then say env ''diagnostic'' (survived_notice (sn_queued ?old)) t else Some t) = Some u"
    and w: "core s = core (codex_setup session u)"
    using start_parts [OF assms(1)] by blast
  have s: "core s = core u \<or> core s = (core u)\<lparr>co_snap := (sp_snap u)\<lparr>sn_vendor := []\<rparr>\<rparr>"
    using w core_codex_setup [of session u] by simp
  have c0: "core ?s0 = core (new_sup session l run)" by (rule core_fresh)
  have "leads (core t) (if sn_queued ?old \<noteq> [] then say env ''diagnostic'' (survived_notice (sn_queued ?old)) t else Some t)"
    using assms(3) by (intro paths) (simp_all add: plain_simps)
  then have p: "path (core t) (core u)" using u by (simp add: leads_def)
  have last: "sn_last (co_snap (core u)) = sn_last (co_snap (core s))"
    using s by (elim disjE) (simp_all only:, simp_all)
  from event_step [OF t [unfolded say_def] assms(3)] obtain e where
    e: "emits e (core ?s0)" "core t = emit e (core ?s0)" by blast
  have "sn_last (co_snap (core t)) = ev_seq e" by (simp only: e(2) emit_fields project_last)
  moreover have "ev_seq e = lastSeq (lo_events l) + 1"
    using e(1) unfolding c0 by (simp add: emits_def next_seq_def new_sup_def Let_def)
  moreover note first = start_first [OF assms(2,3) c0 t]
  moreover note grows = counted_path [OF p first(2)]
  ultimately have seq: "sn_last (co_snap (core s)) < 2 ^ 64 \<Longrightarrow> lastSeq (lo_events l) + 1 < 2 ^ 64" using last by linarith
  have buf: "\<not> sp_buffering u" using path_buf [OF p] first(3) by simp
  have vendor: "sn_vendor (sp_snap u) = sn_vendor (Replay (lo_events l))"
    using u say_vendor [OF _ assms(3)] first(4) by (auto split: if_splits)
  have m: "mirrors True (core u)" if "sn_last (co_snap (core s)) < 2 ^ 64"
    using mirrors_path [OF p first(1) [OF seq [OF that]] first(2)] last that by simp
  show ?thesis using s
  proof (elim disjE)
    assume c: "core s = core u"
    from arg_cong [OF c, of co_buf] arg_cong [OF c, of co_snap]
    have e: "sp_buffering s = sp_buffering u" "sp_snap s = sp_snap u" by simp_all
    have "\<not> sp_buffering s" "counted (core s)" using buf grows c by (simp_all add: e)
    then show ?thesis using m mirrors_weaken c by (simp add: e)
  next
    assume c: "core s = (core u)\<lparr>co_snap := (sp_snap u)\<lparr>sn_vendor := []\<rparr>\<rparr>"
    have "co_snap (core s) = (sp_snap u)\<lparr>sn_vendor := []\<rparr>" "co_buf (core s) = co_buf (core u)" by (simp_all add: c del: core_fields)
    then have v: "sn_vendor (sp_snap s) = []" "\<not> sp_buffering s" "sn_last (sp_snap s) = sn_last (sp_snap u)"
      using buf by simp_all
    have "counted (core s)" using grows counted_ignores(2) [where c = "core u" and v = "[]"] by (simp add: c)
    moreover have "mirrors ([] = sn_vendor (Replay (lo_events l))) (core s)" if "sn_last (sp_snap s) < 2 ^ 64"
      using mirrors_vendor [OF m, of "[]"] that vendor v(3) by (simp add: c)
    ultimately show ?thesis using v by simp
  qed
qed

text \<open>
  The supervisors that can be running: one that a start gave, and one that an action made of a
  running one.  The flag records whether the start kept the conversation id of the log.
\<close>

inductive live :: "bool \<Rightarrow> sup \<Rightarrow> bool" where
  started: "start env root token session l run mcp = Some (b, s) \<Longrightarrow> startable l run \<Longrightarrow> clock env \<Longrightarrow>
    live (sn_vendor (sp_snap s) = sn_vendor (Replay (lo_events l))) s"
| acted: "live V s \<Longrightarrow> clock env \<Longrightarrow> act env a s = Some s' \<Longrightarrow> live V s'"

lemma live_core:
  "live V s \<Longrightarrow> counted (core s) \<and> \<not> sp_buffering s \<and> (sn_last (sp_snap s) < 2 ^ 64 \<longrightarrow> mirrors V (core s))"
proof (induction rule: live.induct)
  case (started env root token session l run mcp b s)
  then show ?case using start_live [OF started] by blast
next
  case (acted V s env a s')
  then have "advance (core s) (core s')" using act_advances [of env s a s'] by blast
  note a = counted_advance [OF this]
  show ?case
  proof (intro conjI impI)
    show "counted (core s')" "\<not> sp_buffering s'" using a acted.IH by simp_all
    assume l: "sn_last (sp_snap s') < 2 ^ 64"
    then have "sn_last (sp_snap s) < 2 ^ 64" using a acted.IH by simp
    then show "mirrors V (core s')"
      using mirrors_advance [OF \<open>advance (core s) (core s')\<close>, of V] acted.IH l by simp
  qed
qed

lemma live_log:
  assumes "live V s" "sn_last (sp_snap s) < 2 ^ 64"
  shows "log_ok (lo_events (sp_log s))" "list_all ranged (lo_events (sp_log s))" "\<not> sp_buffering s"
    "lastSeq (lo_events (sp_log s)) = sn_last (sp_snap s)"
    "\<exists>v. (V \<longrightarrow> v = sn_vendor (sp_snap s)) \<and> Replay (lo_events (sp_log s)) = (view s)\<lparr>sn_vendor := v\<rparr>"
proof -
  note l = live_core [OF assms(1)]
  then have all: "all_events (core s) = lo_events (sp_log s)" by (simp add: counted_def all_events_def)
  have m: "mirrors V (core s)" using l assms(2) by simp
  show "log_ok (lo_events (sp_log s))" "list_all ranged (lo_events (sp_log s))" "\<not> sp_buffering s"
    using m l by (simp_all add: mirrors_def all)
  show "lastSeq (lo_events (sp_log s)) = sn_last (sp_snap s)" using l unfolding counted_def all by simp
  show "\<exists>v. (V \<longrightarrow> v = sn_vendor (sp_snap s)) \<and> Replay (lo_events (sp_log s)) = (view s)\<lparr>sn_vendor := v\<rparr>"
    using m unfolding mirrors_def all by (cases "sp_snap s") (auto simp: view_def replay_close_def)
qed

end
