(* ===== verification/Frames.thy ===== *)
theory Frames
  imports Live
begin

text \<open>
  What an event leaves alone, and when recording one cannot fail.
\<close>

section \<open>Frames\<close>

lemma store_event_fields:
  assumes "store_event env e s = Some (e', s')"
  shows "\<exists>l b. s' = s\<lparr>sp_log := l, sp_batch := b\<rparr>"
proof (cases "sp_buffering s")
  case True
  then have "s' = s\<lparr>sp_log := sp_log s, sp_batch := sp_batch s'\<rparr>" using assms by (auto simp: store_event_def Let_def)
  then show ?thesis by blast
next
  case False
  then obtain l where "s' = s\<lparr>sp_log := l, sp_batch := sp_batch s\<rparr>"
    using assms by (auto simp: store_event_def Let_def split: prod.splits sum.splits)
  then show ?thesis by blast
qed

lemma record_more [simp]:
  "sp_clients (recordState env s) = sp_clients s" "sp_buffering (recordState env s) = sp_buffering s"
  "sp_killed (recordState env s) = sp_killed s"
  by (simp_all add: recordState_def split: prod.split)

lemma record_events [simp]: "lo_events (sp_log (recordState env s)) = lo_events (sp_log s)"
  by (simp add: recordState_def split: prod.split)

lemma track_more [simp]: "sp_clients (track_response e s) = sp_clients s" "sp_killed (track_response e s) = sp_killed s"
  "sp_pending (track_response e s) = sp_pending s"
  by (simp_all add: track_response_def Let_def split: option.split)

lemma observe_more [simp]: "sp_clients (observeUpdateEvent env k t r s) = sp_clients s"
  "sp_killed (observeUpdateEvent env k t r s) = sp_killed s"
  by (simp_all add: observeUpdateEvent_def Let_def)

lemma event_full_keeps:
  assumes "event_full env k t r pl raw resp s = Some (e, s')"
  shows "sp_receipts s' = sp_receipts s" "sp_codex s' = sp_codex s" "sp_stopping s' = sp_stopping s"
    "sp_session s' = sp_session s" "sp_setting_pending s' = sp_setting_pending s" "sp_out s' = sp_out s"
    "sp_clients s' = sp_clients s" "sp_buffering s' = sp_buffering s" "sp_killed s' = sp_killed s" "sp_pending s' = sp_pending s"
proof -
  let ?s = "observeUpdateEvent env k t r s"
  obtain s1 where s1: "store_event env (make_event k t r pl raw resp ?s) ?s = Some (e, s1)"
    and s': "s' = (let s2 = (track_response e s1)\<lparr>sp_snap := project_event e (sp_snap (track_response e s1))\<rparr>
        in if sp_buffering s2 then s2 else recordState env s2)"
    using assms by (auto simp: event_full_def Let_def bind_eq_Some_conv)
  obtain l b where s1: "s1 = ?s\<lparr>sp_log := l, sp_batch := b\<rparr>" using store_event_fields [OF s1] by blast
  show "sp_receipts s' = sp_receipts s" "sp_codex s' = sp_codex s" "sp_stopping s' = sp_stopping s"
    "sp_session s' = sp_session s" "sp_setting_pending s' = sp_setting_pending s" "sp_out s' = sp_out s"
    "sp_clients s' = sp_clients s" "sp_buffering s' = sp_buffering s" "sp_killed s' = sp_killed s" "sp_pending s' = sp_pending s"
    by (simp_all add: s' Let_def s1)
qed

lemma event_keeps:
  assumes "event env k t r pl s = Some s'"
  shows "sp_receipts s' = sp_receipts s" "sp_codex s' = sp_codex s" "sp_stopping s' = sp_stopping s"
    "sp_session s' = sp_session s" "sp_setting_pending s' = sp_setting_pending s" "sp_out s' = sp_out s"
    "sp_clients s' = sp_clients s" "sp_buffering s' = sp_buffering s" "sp_killed s' = sp_killed s" "sp_pending s' = sp_pending s"
  using assms event_full_keeps unfolding event_def by (fastforce simp del: core_fields)+

lemmas say_keeps = event_keeps [of env k t "[]" None s s' for env k t s s', folded say_def]

text \<open>With the database there, an event that is not background work is recorded.\<close>

definition recording :: "env \<Rightarrow> bool" where
  "recording env \<longleftrightarrow> (\<forall>n. si_tx (en_io env n) \<and> si_sync (en_io env n))"

lemma store_appends:
  assumes "si_tx io" "si_sync io" "ev_kind e \<noteq> ''raw''" "ev_kind e \<noteq> ''background''" "ev_kind e \<noteq> HistoryCheckpointKind"
  shows "\<exists>l'. Log_Append io l e = (Inr (hd (number_batch (si_now io) (lastSeq (lo_events l)) [e])), l')"
proof -
  have k: "ev_kind (FromCore x) = ev_kind e" if "ev_kind x = ev_kind e" for x
    using assms(3-5) that by (simp add: FromCore_def)
  then show ?thesis
    using assms by (simp add: Log_Append_def Log_AppendBatch_eq Store_Append_def foldBackground_def Let_def)
qed

lemma event_records:
  assumes "recording env" "\<not> sp_buffering s" "k \<noteq> ''raw''" "k \<noteq> ''background''" "k \<noteq> HistoryCheckpointKind"
  shows "\<exists>s'. event env k t r pl s = Some s'"
proof -
  let ?s = "observeUpdateEvent env k t r s"
  obtain e l where "Log_Append (en_io env (sn_last (sp_snap ?s))) (sp_log ?s) (make_event k t r pl [] None ?s) = (Inr e, l)"
    using store_appends [of _ "make_event k t r pl [] None ?s"] assms by (fastforce simp: recording_def)
  then have "store_event env (make_event k t r pl [] None ?s) ?s = Some (e, ?s\<lparr>sp_log := l\<rparr>)"
    using assms(2) by (simp add: store_event_def)
  then show ?thesis by (simp add: event_def event_full_def Let_def)
qed

lemma say_records:
  "recording env \<Longrightarrow> \<not> sp_buffering s \<Longrightarrow> k \<noteq> ''raw'' \<Longrightarrow> k \<noteq> ''background'' \<Longrightarrow> k \<noteq> HistoryCheckpointKind \<Longrightarrow>
   \<exists>s'. say env k t s = Some s'"
  unfolding say_def by (rule event_records)

end
