(* ===== verification/Fate.thy ===== *)
theory Fate
  imports Live
begin

text \<open>
  What becomes of the message that waits, and what an action cannot change: the states between two
  states of the machine, the event that is newest in one of them, and the invariants that hold of
  every action.
\<close>

section \<open>Between two states\<close>

inductive shift :: "core \<Rightarrow> core \<Rightarrow> bool" where
  moved: "micro c c' \<Longrightarrow> shift c c'"
| gathered: "\<not> co_buf c \<Longrightarrow> shift c (gather c)"
| committed: "shift c (commit now c)"

abbreviation between :: "core \<Rightarrow> core \<Rightarrow> bool" where
  "between \<equiv> shift\<^sup>*\<^sup>*"

lemma path_between: "path c c' \<Longrightarrow> between c c'"
  by (induction rule: rtranclp_induct) (auto intro: moved rtranclp.rtrancl_into_rtrancl)

lemma advance_between: "advance c c' \<Longrightarrow> between c c'"
proof (induction rule: advance.induct)
  case (alone c c')
  then show ?case by (rule path_between)
next
  case (message c d now c')
  have "between c (gather c)" using gathered [OF message.hyps(1)] by blast
  also have "between (gather c) d" by (rule path_between [OF message.hyps(2)])
  also have "between d (commit now d)" using committed by blast
  also have "between (commit now d) c'" by (rule path_between [OF message.hyps(4)])
  finally show ?case .
qed

lemma shift_counted: "shift c c' \<Longrightarrow> counted c \<Longrightarrow> counted c' \<and> sn_last (co_snap c) \<le> sn_last (co_snap c')"
proof (induction rule: shift.induct)
  case (moved c c')
  then show ?case by (rule counted_micro)
next
  case (gathered c)
  then show ?case using gather_keeps by (simp add: gather_def)
next
  case (committed c now)
  then show ?case using commit_counted by (simp add: commit_def)
qed

lemma between_counted: "between c c' \<Longrightarrow> counted c \<Longrightarrow> counted c' \<and> sn_last (co_snap c) \<le> sn_last (co_snap c')"
proof (induction rule: rtranclp_induct)
  case (step d e)
  then show ?case using shift_counted [OF step.hyps(2)] by simp
qed simp

text \<open>An invariant of the single steps is one of everything between.\<close>

lemma between_keeps:
  assumes "between c c'" "P c" "\<And>c c'. micro c c' \<Longrightarrow> P c \<Longrightarrow> P c'" "\<And>c. P c \<Longrightarrow> P (gather c)" "\<And>c now. P c \<Longrightarrow> P (commit now c)"
  shows "P c'"
  using assms(1,2)
proof (induction rule: rtranclp_induct)
  case (step d e)
  then show ?case using assms(3-5) by (auto elim: shift.cases)
qed

section \<open>The waiting message\<close>

definition newest :: "core \<Rightarrow> event \<Rightarrow> bool" where
  "newest c e \<longleftrightarrow> (\<exists>es. all_events c = es @ [e])"

text \<open>The events that say where a waiting message went: it was sent, it was dropped with a notice that
  quotes it, it was written anew under its id, or its owner took it back.\<close>

definition fate :: "string \<Rightarrow> string \<Rightarrow> event \<Rightarrow> bool" where
  "fate rid t e \<longleftrightarrow>
     ev_kind e = ''input'' \<and> ev_request e = rid \<or>
     ev_kind e = ''diagnostic'' \<and> (\<exists>reason. ev_text e = dropped_notice reason t) \<or>
     ev_kind e = ''queued'' \<and> ev_request e = rid \<and> ev_text e \<noteq> [] \<or>
     ev_kind e = ''queued'' \<and> ev_text e = [] \<and> ev_payload e \<noteq> None"

definition same_slot :: "core \<Rightarrow> core \<Rightarrow> bool" where
  "same_slot c c' \<longleftrightarrow> sn_queued (co_snap c') = sn_queued (co_snap c) \<and> sn_queued_id (co_snap c') = sn_queued_id (co_snap c)"

lemma newest_emit [simp]: "counted c \<Longrightarrow> newest (emit e c) e"
  by (simp add: newest_def)

lemma project_slot:
  "ev_kind e \<noteq> ''queued'' \<Longrightarrow> ev_kind e \<noteq> ''input'' \<or> ev_request e \<noteq> sn_queued_id s \<Longrightarrow>
   sn_queued (project_event e s) = sn_queued s \<and> sn_queued_id (project_event e s) = sn_queued_id s"
  by (auto simp: project_event_def Let_def)

lemma newest_pending [simp]: "newest (c\<lparr>co_pending := p\<rparr>) e = newest c e"
  by (simp add: newest_def all_events_def)

lemma micro_slot:
  "micro c c' \<Longrightarrow> counted c \<Longrightarrow> sn_queued (co_snap c) \<noteq> [] \<Longrightarrow>
   same_slot c c' \<or>
   (\<exists>e. newest c' e \<and> sn_last (co_snap c) < ev_seq e \<and> fate (sn_queued_id (co_snap c)) (sn_queued (co_snap c)) e)"
proof (induction rule: micro.induct)
  case (report e c)
  then have n: "newest (emit e c) e" "sn_last (co_snap c) < ev_seq e" "ev_kind e \<noteq> ''queued''"
    using counted_emit(2) by (auto simp: plain_def)
  show ?case
  proof (cases "ev_kind e = ''input'' \<and> ev_request e = sn_queued_id (co_snap c)")
    case True
    then show ?thesis using n by (auto simp: fate_def)
  next
    case False
    then show ?thesis using project_slot [OF n(3)] by (simp add: same_slot_def)
  qed
next
  case (hold e c)
  then show ?case using counted_emit(2) [of c e] newest_emit [of c e] by (auto simp: fate_def)
next
  case (take e c)
  then show ?case using counted_emit(2) [of c e] newest_emit [of c e] by (auto simp: fate_def)
next
  case (drop e c d reason)
  have c: "counted (emit e c)" "sn_last (co_snap c) < ev_seq e" using counted_emit drop by blast+
  then have "newest (emit d (emit e c)) d" "sn_last (co_snap c) < ev_seq d"
    using counted_emit(2) [OF c(1) drop.hyps(5)] by simp_all
  then show ?case using drop.hyps by (auto simp: fate_def)
qed (simp_all add: same_slot_def project_event_def Let_def)

lemma between_slot:
  assumes "between c c'" "counted c" "sn_queued (co_snap c) \<noteq> []"
  shows "same_slot c c' \<or>
    (\<exists>d e. between c d \<and> between d c' \<and> newest d e \<and> sn_last (co_snap c) < ev_seq e \<and>
      fate (sn_queued_id (co_snap c)) (sn_queued (co_snap c)) e)"
  using assms
proof (induction rule: rtranclp_induct)
  case base
  then show ?case by (simp add: same_slot_def)
next
  case (step d d')
  show ?case
  proof (cases "same_slot c d")
    case True
    note d = between_counted [OF step.hyps(1) step.prems(1)]
    have "same_slot d d' \<or> (\<exists>e. newest d' e \<and> sn_last (co_snap d) < ev_seq e \<and> fate (sn_queued_id (co_snap d)) (sn_queued (co_snap d)) e)"
      using step.hyps(2)
    proof cases
      case moved
      have "counted d" "sn_queued (co_snap d) \<noteq> []" using d True step.prems by (simp_all add: same_slot_def)
      then show ?thesis by (rule micro_slot [OF moved])
    qed (simp_all add: same_slot_def gather_def commit_def)
    moreover have "between c d'" using step.hyps by simp
    ultimately show ?thesis
      using True d by (auto simp: same_slot_def intro!: exI [of _ d'])
  next
    case False
    then obtain x e where x: "between c x" "between x d" "newest x e" "sn_last (co_snap c) < ev_seq e"
        "fate (sn_queued_id (co_snap c)) (sn_queued (co_snap c)) e"
      using step by blast
    then have "between x d'" using step.hyps(2) by simp
    then show ?thesis using x by blast
  qed
qed

section \<open>What no action changes\<close>

lemma between_run: "between c c' \<Longrightarrow> sn_run (co_snap c') = sn_run (co_snap c)"
proof (rule between_keeps [where P = "\<lambda>d. sn_run (co_snap d) = sn_run (co_snap c)"])
  show "micro d d' \<Longrightarrow> sn_run (co_snap d) = sn_run (co_snap c) \<Longrightarrow> sn_run (co_snap d') = sn_run (co_snap c)" for d d'
    by (induction rule: micro.induct) (simp_all add: project_event_def Let_def)
qed (simp_all add: gather_def commit_def)

lemma between_tools: "between c c' \<Longrightarrow> co_tools c = [] \<Longrightarrow> co_tools c' = []"
proof (rule between_keeps [where P = "\<lambda>d. co_tools d = []"])
  show "micro d d' \<Longrightarrow> co_tools d = [] \<Longrightarrow> co_tools d' = []" for d d'
    by (induction rule: micro.induct) (auto simp: emit_def next_tools_def plain_def)
qed (simp_all add: gather_def commit_def)

end
