(* ===== verification/Instances.thy ===== *)
theory Instances
  imports Frames Fate
begin

text \<open>
  Concrete supervisors: a Claude session on an empty log, started, with a message that waits, and
  without it again.
\<close>

definition calm_io :: store_io where
  "calm_io = \<lparr>si_open = True, si_tx = True, si_sync = True, si_read = True, si_meta = (\<lambda>_. False), si_now = 7\<rparr>"

definition calm_env :: env where
  "calm_env = \<lparr>en_now = 7000000, en_write = (\<lambda>_. True), en_io = (\<lambda>_. calm_io), en_busy = [],
     en_lib = \<lparr>lb_float = (\<lambda>_. None), lb_schema = (\<lambda>_ _. True)\<rparr>, en_exchange = (\<lambda>_ _. None), en_token = None,
     en_policy = None, en_timeout = None, en_idle = UpdateIdlePeriod None\<rparr>"

definition plain_session :: session where
  "plain_session = \<lparr>ss_id = ''s'', ss_workspace = ''/w'', ss_agent = ''claude'', ss_supervisor = ''1'', ss_kind = ''claude'',
     ss_model = [], ss_project = ''p'', ss_account = [], ss_fork = None\<rparr>"

definition empty_log :: store_log where
  "empty_log = \<lparr>lo_store = \<lparr>st_rows = [], st_meta = [], st_background = None\<rparr>, lo_events = [], lo_raw = 0\<rparr>"

lemma calm: "clock calm_env" "recording calm_env"
  by (simp_all add: clock_def recording_def millis_def calm_env_def calm_io_def)

lemma empty_log_starts: "run \<noteq> [] \<Longrightarrow> startable empty_log run"
  by (simp add: startable_def empty_log_def log_ok_def log_shape_def Replay_def ReplayFrom_def replay_close_def
      fresh_snapshot_def zero_snapshot_def)

lemma empty_replay: "lo_events empty_log = []" "Log_All empty_log = []" "Replay [] = fresh_snapshot"
  by (simp_all add: empty_log_def Log_All_def Log_After_eq events_after_def Replay_def ReplayFrom_def replay_close_def
      fresh_snapshot_def zero_snapshot_def)

lemma start_calm:
  "\<exists>b s. start calm_env [] [] plain_session empty_log ''r1'' [] = Some (b, s) \<and> live True s \<and>
     state_of s = ''starting'' \<and> run_of s = ''r1'' \<and> sn_queued (sp_snap s) = [] \<and> sn_last (sp_snap s) = 1 \<and>
     sp_receipts s = [] \<and> sp_codex s = None \<and> sp_setting_pending s = [] \<and> \<not> sp_stopping s"
proof -
  obtain f where f: "f = fresh calm_env [] [] plain_session empty_log ''r1''" by simp
  have f0: "f = (recordState calm_env (new_sup plain_session empty_log ''r1''))\<lparr>sp_quota_root := [], sp_quota_token := []\<rparr>"
    by (simp add: f empty_replay resumeEvents_def)
  have ff: "\<not> sp_buffering f" "run_of f = ''r1''" "sn_queued (sp_snap f) = []" "sp_receipts f = []" "sp_codex f = None"
      "sp_setting_pending f = []" "\<not> sp_stopping f" "sn_vendor (sp_snap f) = []" "lo_events (sp_log f) = []"
    unfolding f0 by (simp_all add: new_sup_def Let_def empty_replay fresh_snapshot_def zero_snapshot_def)
  obtain t where t: "say calm_env ''state'' ''starting'' f = Some t"
    using say_records [OF calm(2) ff(1), of "''state''" "''starting''"] by (auto simp: kind_defs)
  let ?s = "(write_agent calm_env (initialize_request (t\<lparr>sp_mcp := []\<rparr>)) (t\<lparr>sp_mcp := []\<rparr>))"
  have st: "start calm_env [] [] plain_session empty_log ''r1'' [] = Some ?s"
    using t by (simp add: start_def f empty_replay fresh_snapshot_def zero_snapshot_def codex_setup_def plain_session_def Let_def)
  obtain b s where s: "?s = (b, s)" by fastforce
  then have s': "s = t\<lparr>sp_mcp := [], sp_out := sp_out s\<rparr>" by (auto simp: write_agent_def)
  obtain e where e: "emits e (core f)" "core t = emit e (core f)" "ev_kind e = ''state''" "ev_text e = ''starting''"
    using event_step [OF t [unfolded say_def] calm(1)] by blast
  have snap: "sp_snap t = project_event e (sp_snap f)" using arg_cong [OF e(2), of co_snap] by simp
  have seq: "ev_seq e = 1" using e(1) ff(1,9) by (simp add: emits_def next_seq_def lastSeq_def)
  have sn: "state_of t = ''starting''" "run_of t = ''r1''" "sn_queued (sp_snap t) = []" "sn_last (sp_snap t) = 1" "sn_vendor (sp_snap t) = []"
    using ff(2,3,8) e(3,4) by (simp_all add: snap seq project_event_def Let_def)
  have "live (sn_vendor (sp_snap s) = sn_vendor (Replay (lo_events empty_log))) s"
    by (rule started [OF st [unfolded s] empty_log_starts calm(1)]) simp
  moreover have "sn_vendor (sp_snap s) = sn_vendor (Replay (lo_events empty_log))"
    using sn(5) by (subst s') (simp add: empty_log_def empty_replay fresh_snapshot_def zero_snapshot_def)
  ultimately have "live True s" by simp
  moreover have "sp_snap s = sp_snap t" "sp_receipts s = sp_receipts t" "sp_codex s = sp_codex t"
      "sp_setting_pending s = sp_setting_pending t" "sp_stopping s = sp_stopping t"
    by (subst s', simp)+
  ultimately show ?thesis using st s sn say_keeps [OF t] ff by auto
qed

text \<open>A client sends a message while the agent is starting, and takes it back.\<close>

definition a_message :: command where
  "a_message = zero_command\<lparr>cm_run := ''r1'', cm_client := ''m1'', cm_text := ''hi''\<rparr>"

definition taking_back :: command where
  "taking_back = zero_command\<lparr>cm_run := ''r1'', cm_client := ''m2''\<rparr>"

definition posted :: "string \<Rightarrow> command \<Rightarrow> action" where
  "posted p c = Serve \<lparr>rq_method = ''POST'', rq_path = p, rq_body = Some (command_json c), rq_fork = False\<rparr>"

lemma posted_body [simp]:
  "unmarshal_payload dec_command (Some (command_json a_message)) zero_command = (a_message, True)"
  "unmarshal_payload dec_command (Some (command_json taking_back)) zero_command = (taking_back, True)"
  by (simp_all add: a_message_def taking_back_def unmarshal_payload_def dec_simps key_simps dec_command_def command_json_def
      zero_command_def omit_def)

lemma strip_plain: "plain_char c \<Longrightarrow> strip_rune space_runes (c # s) = None" "strip_rune space_runes [] = None"
  using strip_rune_hd [of "c # s" space_runes] plain_heads [of c] by simp_all

lemma not_setting: "\<not> isSettingCommand ''hi''"
proof -
  have "Fields ''hi'' = [''hi'']"
    unfolding Fields_def by (subst fields_from.simps, simp add: strip_plain plain_char_def)+
  then show ?thesis by (simp add: isSettingCommand_def)
qed

lemma waiting_calm:
  "\<exists>s. live True s \<and> sn_queued (sp_snap s) = ''hi'' \<and> sn_queued_id (sp_snap s) = ''m1'' \<and> sn_last (sp_snap s) = 2 \<and>
     run_of s = ''r1'' \<and> map_of (sp_receipts s) ''m2'' = None \<and> \<not> sp_buffering s \<and>
     sp_receipts s = [(''m1'', new_record ''send'' a_message ''queued'')]"
proof -
  obtain s where s: "live True s" "state_of s = ''starting''" "run_of s = ''r1''" "sn_queued (sp_snap s) = []"
      "sn_last (sp_snap s) = 1" "sp_receipts s = []" "sp_codex s = None" "sp_setting_pending s = []" "\<not> sp_stopping s"
    using start_calm by blast
  have buf: "\<not> sp_buffering s" using live_log(3) [OF s(1)] s(5) by simp
  obtain u where u: "event calm_env ''queued'' ''hi'' ''m1'' None s = Some u"
    using event_records [OF calm(2) buf, of "''queued''" "''hi''" "''m1''" None] by (auto simp: kind_defs)
  let ?t = "put_receipt a_message (new_record ''send'' a_message ''queued'') u"
  have "executeLocked calm_env ''send'' a_message s = Some (ok_receipt a_message ''queued'', ?t)"
    using s(2-4,6-9) not_setting u
    by (simp add: executeLocked_def admit_def dispatch_def proceed_def send_refused_def run_command_def claude_command_def
        enqueue_def a_message_def zero_command_def)
  then have "act calm_env (posted ''/send'' a_message) s = Some ?t"
    by (simp add: posted_def serve_def update_paths_def ok_receipt_def)
  from acted [OF s(1) calm(1) this] have l: "live True ?t" .
  obtain e where e: "emits e (core s)" "core u = emit e (core s)" "ev_kind e = ''queued''" "ev_text e = ''hi''" "ev_request e = ''m1''"
    using event_step [OF u calm(1)] by blast
  have snap: "sp_snap u = project_event e (sp_snap s)" using arg_cong [OF e(2), of co_snap] by simp
  have "lastSeq (lo_events (sp_log s)) = 1" using live_log(4) [OF s(1)] s(5) by simp
  then have seq: "ev_seq e = 2" using e(1) buf by (simp add: emits_def next_seq_def)
  show ?thesis
    using l s(3,6) buf event_keeps [OF u] e(3-5)
    by (intro exI [of _ ?t]) (simp add: put_receipt_def snap seq project_event_def Let_def a_message_def zero_command_def)
qed

lemma taken_calm:
  assumes "sn_queued (sp_snap s) \<noteq> []" "run_of s = ''r1''" "map_of (sp_receipts s) ''m2'' = None" "\<not> sp_buffering s"
  shows "\<exists>t. act calm_env (posted ''/unqueue'' taking_back) s = Some t \<and> sn_queued (sp_snap t) = [] \<and>
    executeLocked calm_env ''unqueue'' taking_back s = Some (ok_receipt taking_back ''accepted'', t)"
proof -
  let ?r = "new_record ''unqueue'' taking_back ''accepted''"
  obtain u where u: "event calm_env ''queued'' [] [] (Some (record_json ?r)) s = Some u"
    using event_records [OF calm(2) assms(4), of "''queued''" "[]" "[]" "Some (record_json ?r)"] by (auto simp: kind_defs)
  moreover have admit: "admit ''unqueue'' taking_back s = None"
    using assms(2,3) by (simp add: admit_def taking_back_def zero_command_def)
  ultimately have x: "executeLocked calm_env ''unqueue'' taking_back s = Some (ok_receipt taking_back ''accepted'', put_receipt taking_back ?r u)"
    using assms admit by (simp add: executeLocked_def dispatch_def proceed_def unqueue_def Let_def)
  then have a: "act calm_env (posted ''/unqueue'' taking_back) s = Some (put_receipt taking_back ?r u)"
    by (simp add: posted_def serve_def update_paths_def ok_receipt_def)
  obtain e where e: "emits e (core s)" "core u = emit e (core s)" "ev_kind e = ''queued''" "ev_text e = []" "ev_request e = []"
    using event_step [OF u calm(1)] by blast
  have "sp_snap u = project_event e (sp_snap s)" using arg_cong [OF e(2), of co_snap] by simp
  then show ?thesis using a x e(3-5) by (simp add: put_receipt_def project_event_def Let_def)
qed

end
