(* ===== verification/Restart.thy ===== *)
theory Restart
  imports Instances
begin

text \<open>
  What outlives a supervisor: the record is enough to rebuild its state, a restart tells of the
  message it could not keep, and while it runs a waiting message leaves its slot only in ways the
  record shows.
\<close>

section \<open>The record is the state\<close>

text \<open>C1. Under every sequence of actions the log replays to the live state, up to the conversation id
  that a fresh Codex thread forgets in memory only.\<close>

theorem live_state_is_record:
  assumes "live V s" "sn_last (sp_snap s) < 2 ^ 64"
  shows "log_ok (lo_events (sp_log s)) \<and> lastSeq (lo_events (sp_log s)) = sn_last (sp_snap s) \<and>
    (\<exists>v. (V \<longrightarrow> v = sn_vendor (sp_snap s)) \<and> Replay (lo_events (sp_log s)) = (view s)\<lparr>sn_vendor := v\<rparr>)"
  using live_log [OF assms] by blast

section \<open>Two runs in a row\<close>

lemma length_by_seq: "sorted_wrt (<) (map ev_seq es) \<Longrightarrow> \<forall>e\<in>set es. 0 < ev_seq e \<Longrightarrow> length es \<le> lastSeq es"
proof (induction es rule: rev_induct)
  case (snoc e es)
  then have "length es \<le> lastSeq es" by (simp add: sorted_wrt_append)
  moreover have "lastSeq es < ev_seq e"
    using snoc.prems by (cases "es = []") (auto simp: lastSeq_def last_or_last sorted_wrt_append last_map)
  ultimately show ?case by simp
qed (simp add: lastSeq_def)

lemma live_startable:
  assumes "live V s" "sn_last (sp_snap s) < 2 ^ 63" "run \<noteq> run_of s"
  shows "startable (sp_log s) run"
proof -
  note l = live_log [OF assms(1)]
  have "counted (core s)" using live_core [OF assms(1)] by blast
  then have "length (all_events (core s)) \<le> sn_last (sp_snap s)"
    using length_by_seq [of "all_events (core s)"] by (simp add: counted_def)
  then have "length (lo_events (sp_log s)) < 2 ^ 63" using assms(2) by (simp add: all_events_def)
  then show ?thesis using l assms(2,3) by (auto simp: startable_def view_def replay_close_def)
qed

lemma start_records:
  assumes "recording env"
  shows "\<exists>b s. start env root token session l run mcp = Some (b, s)"
proof -
  let ?old = "Replay (Log_All l)"
  let ?f = "fresh env root token session l run"
  have "\<not> sp_buffering (foldl restore_step (new_sup session l run) (resumeEvents (Log_All l)))"
    using arg_cong [OF core_restore_steps, of co_buf] by (simp add: new_sup_def Let_def)
  then have "\<not> sp_buffering ?f" by simp
  then obtain t where t: "say env ''state'' ''starting'' ?f = Some t" "\<not> sp_buffering t"
    using say_records [OF assms, of ?f "''state''"] say_keeps(8) by (fastforce simp: kind_defs)
  then obtain u where u: "say env ''diagnostic'' (survived_notice (sn_queued ?old)) t = Some u"
    using say_records [OF assms, of t "''diagnostic''"] by (fastforce simp: kind_defs)
  show ?thesis
    using t(1) u by (cases "write_agent env (initialize_request ((codex_setup session u)\<lparr>sp_mcp := mcp\<rparr>)) ((codex_setup session u)\<lparr>sp_mcp := mcp\<rparr>)";
      cases "write_agent env (initialize_request ((codex_setup session t)\<lparr>sp_mcp := mcp\<rparr>)) ((codex_setup session t)\<lparr>sp_mcp := mcp\<rparr>)")
      (simp add: start_def Let_def)
qed

lemma say_events:
  assumes "say env k t s = Some s'" "clock env" "\<not> sp_buffering s" "k \<noteq> ''queued''" "k \<noteq> ''input''" "k \<noteq> ''permission''"
  shows "\<exists>e. lo_events (sp_log s') = lo_events (sp_log s) @ [e] \<and> ev_kind e = k \<and> ev_text e = t \<and> ev_run e = run_of s"
    "\<not> sp_buffering s'" "run_of s' = run_of s" "sn_queued (sp_snap s') = sn_queued (sp_snap s)"
    "sn_permission (sp_snap s') = sn_permission (sp_snap s)" "sp_pending s' = sp_pending s"
proof -
  obtain e where e: "emits e (core s)" "core s' = emit e (core s)" "ev_kind e = k" "ev_text e = t"
    using event_step assms unfolding say_def by blast
  have "lo_events (sp_log s') = lo_events (sp_log s) @ [e]" "sp_buffering s' = sp_buffering s"
    "sp_snap s' = project_event e (sp_snap s)" "sp_pending s' = sp_pending s"
    using arg_cong [OF e(2), of co_events] arg_cong [OF e(2), of co_buf] arg_cong [OF e(2), of co_snap]
      arg_cong [OF e(2), of co_pending] assms(3) by (simp_all add: emit_def)
  then show "\<exists>e. lo_events (sp_log s') = lo_events (sp_log s) @ [e] \<and> ev_kind e = k \<and> ev_text e = t \<and> ev_run e = run_of s"
    "\<not> sp_buffering s'" "run_of s' = run_of s" "sn_queued (sp_snap s') = sn_queued (sp_snap s)"
    "sn_permission (sp_snap s') = sn_permission (sp_snap s)" "sp_pending s' = sp_pending s"
    using e(1,3,4) assms(3-6) by (auto simp: emits_def project_event_def Let_def)
qed

lemma setup_fields [simp]:
  "lo_events (sp_log (codex_setup session s)) = lo_events (sp_log s)"
  "sn_queued (sp_snap (codex_setup session s)) = sn_queued (sp_snap s)"
  "sn_permission (sp_snap (codex_setup session s)) = sn_permission (sp_snap s)"
  "run_of (codex_setup session s) = run_of s" "sp_pending (codex_setup session s) = sp_pending s"
  by (simp_all add: codex_setup_def Let_def)

text \<open>C4. The next run starts from what the last one recorded: it keeps the permission, starts with
  nothing pending and nothing waiting, and if a message was waiting it records that it was lost.\<close>

theorem restart_announces:
  assumes "live V s" "sn_last (sp_snap s) < 2 ^ 63" "run \<noteq> run_of s"
    and "clock env" "start env root token session (sp_log s) run mcp = Some (b, t)"
  shows "(\<exists>W. live W t) \<and> run_of t = run \<and> sn_permission (sp_snap t) = sn_permission (sp_snap s) \<and>
    sn_queued (sp_snap t) = [] \<and> sp_pending t = [] \<and>
    (sn_queued (sp_snap s) \<noteq> [] \<longrightarrow>
      (\<exists>e\<in>set (lo_events (sp_log t)). ev_run e = run \<and> ev_kind e = ''diagnostic'' \<and> ev_text e = survived_notice (sn_queued (sp_snap s))))"
proof -
  note st = live_startable [OF assms(1-3)]
  obtain v where v: "Replay (lo_events (sp_log s)) = (view s)\<lparr>sn_vendor := v\<rparr>" using live_log(5) [OF assms(1)] assms(2) by fastforce
  have old: "sn_queued (Replay (Log_All (sp_log s))) = sn_queued (sp_snap s)"
      "sn_permission (Replay (Log_All (sp_log s))) = sn_permission (sp_snap s)"
    by (simp_all add: Log_All_events [OF st] v view_def replay_close_def)
  obtain f where f: "f = fresh env root token session (sp_log s) run" by simp
  obtain x u where x: "say env ''state'' ''starting'' f = Some x"
    and u: "(if sn_queued (sp_snap s) \<noteq> [] then say env ''diagnostic'' (survived_notice (sn_queued (sp_snap s))) x else Some x) = Some u"
    and t: "core t = core (codex_setup session u)"
    using start_parts [OF assms(5)] unfolding old f by blast
  have f: "\<not> sp_buffering f" "run_of f = run" "sn_queued (sp_snap f) = []" "sp_pending f = []"
      "sn_permission (sp_snap f) = sn_permission (sp_snap s)"
    using core_fresh [of token root env session "sp_log s" run, folded f] old
    by (simp_all add: new_sup_def Let_def core_def zero_snapshot_def)
  note x = say_events [OF x assms(4) f(1)]
  have tu: "lo_events (sp_log t) = lo_events (sp_log u)" "run_of t = run_of u" "sp_pending t = sp_pending u"
      "sn_queued (sp_snap t) = sn_queued (sp_snap u)" "sn_permission (sp_snap t) = sn_permission (sp_snap u)"
    using arg_cong [OF t, of co_events] arg_cong [OF t, of co_snap] arg_cong [OF t, of co_pending] by simp_all
  show ?thesis
  proof (cases "sn_queued (sp_snap s) = []")
    case True
    then show ?thesis using u x f started [OF assms(5) st assms(4)] by (auto simp: tu)
  next
    case False
    then have "say env ''diagnostic'' (survived_notice (sn_queued (sp_snap s))) x = Some u" using u by simp
    note u = say_events [OF this assms(4) x(2)]
    then show ?thesis using x f started [OF assms(5) st assms(4)] by (auto simp: tu)
  qed
qed

section \<open>While it runs\<close>

text \<open>C3. A waiting message never leaves its slot silently: whatever the action, it still waits under
  the same id with the same text, or the record held, as its newest event at some moment of the
  action, what became of it: its input, the notice that quotes it, its new text, or its withdrawal.\<close>

theorem waiting_message_accounted:
  assumes "live V s" "clock env" "act env a s = Some s'" "sn_queued (sp_snap s) \<noteq> []"
  shows "(sn_queued (sp_snap s') = sn_queued (sp_snap s) \<and> sn_queued_id (sp_snap s') = sn_queued_id (sp_snap s)) \<or>
    (\<exists>d e. between (core s) d \<and> between d (core s') \<and> newest d e \<and> sn_last (sp_snap s) < ev_seq e \<and>
      fate (sn_queued_id (sp_snap s)) (sn_queued (sp_snap s)) e)"
proof -
  note l = live_core [OF assms(1)]
  then have "between (core s) (core s')" using act_advances [OF assms(2) _ assms(3)] advance_between by blast
  from between_slot [OF this] l assms(4) show ?thesis by (simp add: same_slot_def)
qed

lemma say_tools: "say env k t s = Some s' \<Longrightarrow> clock env \<Longrightarrow> co_tools (core s) = [] \<Longrightarrow> co_tools (core s') = []"
proof -
  assume s: "say env k t s = Some s'" "clock env" and c: "co_tools (core s) = []"
  obtain e where e: "core s' = emit e (core s)" "ev_request e = []"
    using event_step [OF s(1) [unfolded say_def] s(2)] by blast
  show ?thesis unfolding e(1) emit_def by (simp add: next_tools_def e(2) c del: core_fields)
qed

text \<open>C7. No tool call is ever counted as unfinished: the check of an update asks for events of kind
  \<open>tool\<close> and none is recorded, so that part of its answer is always empty.\<close>

theorem tools_never_counted:
  assumes "live V s"
  shows "sp_tools s = []"
  using assms
proof (induction rule: live.induct)
  case (started env root token session l run mcp b s)
  obtain t u where t: "say env ''state'' ''starting'' (fresh env root token session l run) = Some t"
    and u: "(if sn_queued (Replay (Log_All l)) \<noteq> [] then say env ''diagnostic'' (survived_notice (sn_queued (Replay (Log_All l)))) t
      else Some t) = Some u"
    and s: "core s = core (codex_setup session u)"
    using start_parts [OF started.hyps(1)] .
  have "co_tools (core (fresh env root token session l run)) = []"
    unfolding core_fresh by (simp add: new_sup_def Let_def)
  then have "co_tools (core t) = []" using say_tools [OF t started.hyps(3)] by blast
  then have "co_tools (core u) = []" using u say_tools [OF _ started.hyps(3)] by (auto split: if_splits simp del: core_fields)
  then show ?case using arg_cong [OF s, of co_tools] by (simp add: codex_setup_def Let_def split: if_splits)
next
  case (acted V s env a s')
  have "between (core s) (core s')"
    using act_advances [OF acted.hyps(2) _ acted.hyps(3)] live_core [OF acted.hyps(1)] advance_between by blast
  from between_tools [OF this] acted.IH show ?case by simp
qed

section \<open>Instances\<close>

theorem live_state_is_record_witness:
  "\<exists>s. sn_queued (sp_snap s) = ''hi'' \<and> Replay (lo_events (sp_log s)) = view s"
proof -
  obtain s where s: "live True s" "sn_queued (sp_snap s) = ''hi''" "sn_last (sp_snap s) = 2" using waiting_calm by blast
  have "sn_last (sp_snap s) < 2 ^ 64" by (simp add: s(3))
  from live_state_is_record [OF s(1) this] have "Replay (lo_events (sp_log s)) = (view s)\<lparr>sn_vendor := sn_vendor (sp_snap s)\<rparr>"
    by auto
  also have "\<dots> = view s" by (cases "sp_snap s") (simp add: view_def replay_close_def)
  finally show ?thesis using s(2) by blast
qed

theorem restart_announces_witness:
  "\<exists>t. sn_queued (sp_snap t) = [] \<and> run_of t = ''r2'' \<and>
     (\<exists>e\<in>set (lo_events (sp_log t)). ev_text e = survived_notice ''hi'')"
proof -
  obtain s where s: "live True s" "sn_queued (sp_snap s) = ''hi''" "sn_last (sp_snap s) = 2" "run_of s = ''r1''"
    using waiting_calm by blast
  have h: "sn_last (sp_snap s) < 2 ^ 63" "''r2'' \<noteq> run_of s" by (simp_all add: s)
  obtain b t where t: "start calm_env [] [] plain_session (sp_log s) ''r2'' [] = Some (b, t)"
    using start_records [OF calm(2)] by blast
  from restart_announces [OF s(1) h calm(1) t] s(2) show ?thesis by auto
qed

theorem waiting_message_accounted_witness:
  "\<exists>s s' d e. sn_queued (sp_snap s) = ''hi'' \<and> sn_queued (sp_snap s') = [] \<and> between (core s) d \<and> between d (core s') \<and>
     newest d e \<and> fate ''m1'' ''hi'' e"
proof -
  obtain s where s: "live True s" "sn_queued (sp_snap s) = ''hi''" "sn_queued_id (sp_snap s) = ''m1''" "run_of s = ''r1''"
      "map_of (sp_receipts s) ''m2'' = None" "\<not> sp_buffering s"
    using waiting_calm by blast
  have q: "sn_queued (sp_snap s) \<noteq> []" by (simp add: s(2))
  obtain s' where s': "act calm_env (posted ''/unqueue'' taking_back) s = Some s'" "sn_queued (sp_snap s') = []"
    using taken_calm [OF q s(4-6)] by blast
  from waiting_message_accounted [OF s(1) calm(1) s'(1) q] s s'(2) show ?thesis by auto
qed

theorem tools_never_counted_witness: "\<exists>s :: sup. sn_queued (sp_snap s) = ''hi'' \<and> sp_tools s = []"
proof -
  obtain s where s: "live True s" "sn_queued (sp_snap s) = ''hi''" using waiting_calm by blast
  from tools_never_counted [OF s(1)] s(2) show ?thesis by (intro exI [of _ s]) simp
qed

end
