(* ===== verification/Commands.thy ===== *)
theory Commands
  imports Restart
begin

text \<open>
  What a client can rely on when it sends a command: a retry changes nothing, and readiness for an
  update means that nothing is going on.
\<close>

section \<open>Operations that leave the commands alone\<close>

definition unrecorded :: "sup \<Rightarrow> sup option \<Rightarrow> bool" where
  "unrecorded s m \<longleftrightarrow> (\<forall>s'. m = Some s' \<longrightarrow> sp_receipts s' = sp_receipts s)"

named_theorems unrec "operations that keep the commands"

lemma unrec_base [unrec]:
  "unrecorded s (Some s)"
  "unrecorded s (event env k t r pl s)"
  "unrecorded s (say env k t s)"
  using event_keeps(1) by (auto simp: unrecorded_def say_def)

lemma unrec_from: "sp_receipts s = sp_receipts t \<Longrightarrow> unrecorded s m \<Longrightarrow> unrecorded t m"
  by (simp add: unrecorded_def)

lemma unrec_bind [unrec]: "unrecorded s m \<Longrightarrow> (\<And>t. unrecorded t (f t)) \<Longrightarrow> unrecorded s (Option.bind m f)"
  by (cases m) (auto simp: unrecorded_def)

lemma unrec_if [unrec]: "unrecorded s m \<Longrightarrow> unrecorded s n \<Longrightarrow> unrecorded s (if b then m else n)"
  by simp

lemma unrec_resolve: "unrecorded s (resolve_all env ks s)"
proof (induction ks arbitrary: s)
  case (Cons k ks)
  have "unrecorded t (resolve_all env ks (t\<lparr>sp_pending := p\<rparr>))" for t p
    by (rule unrec_from [OF _ Cons]) simp
  then show ?case unfolding resolve_all.simps by (intro unrec)
qed (simp add: unrecorded_def)

lemma unrec_clear [unrec]: "unrecorded s (clearPending env s)"
  unfolding clearPending_def by (rule unrec_resolve)

lemma unrec_drop [unrec]: "unrecorded s (dropQueued env reason s)"
  unfolding dropQueued_def Let_def by (intro unrec)

lemma unrec_perform:
  "unrecorded s (perform_send env c s)" "unrecorded s (perform_reply env c resolved s)"
  "unrecorded s (perform_interrupt env s)" "unrecorded s (perform_stop env s)"
proof -
  show "unrecorded s (perform_send env c s)" unfolding perform_send_def by (intro unrec)
  show "unrecorded s (perform_reply env c resolved s)" unfolding perform_reply_def Let_def
    by (rule unrec_from [of "s\<lparr>sp_pending := AList.delete (cm_request c) (sp_pending s)\<rparr>"], simp) (intro unrec)
  show "unrecorded s (perform_interrupt env s)" unfolding perform_interrupt_def
    by (rule unrec_from [of "s\<lparr>sp_interrupted := True\<rparr>"], simp) (intro unrec)
  show "unrecorded s (perform_stop env s)" unfolding perform_stop_def
    by (rule unrec_from [of "s\<lparr>sp_stopping := True\<rparr>"], simp) (intro unrec)
qed

lemma async_receipts: "sp_receipts (snd (answerAsync p c s)) = sp_receipts s"
  by (auto simp: answerAsync_def on_codex_def Let_def split: sum.splits)

lemma provider_receipts:
  "sp_receipts (snd (codex_command env op c s)) = sp_receipts s"
  "sp_receipts (snd (claude_command env op c s)) = sp_receipts s"
  by (auto simp: codex_command_def claude_command_def codex_send_def codex_reply_def on_codex_def Let_def async_receipts
      split: option.splits prod.splits)

lemma input_answers_error: "input_answers c sel qs m = Inl e \<Longrightarrow> e \<noteq> Queue_input"
  by (induction qs arbitrary: m) (auto simp: Let_def split: prod.splits if_splits)

lemma decision_error: "codex_decision lib c r p = Inl e \<Longrightarrow> e \<noteq> Queue_input"
  by (auto simp: codex_decision_def input_selections_def bind_res_def dest: input_answers_error split: if_splits sum.splits)

lemma queue_is_send:
  assumes "fst (if codex then codex_command env op c s else claude_command env op c s) = Inl Queue_input"
  shows "op = ''send''"
proof (rule ccontr)
  assume op: "op \<noteq> ''send''"
  have a: "fst (answerAsync p c s) \<noteq> Inl Queue_input" for p
    by (auto simp: answerAsync_def Let_def split: sum.splits)
  have "fst (codex_reply (en_lib env) c s) \<noteq> Inl Queue_input"
    by (auto simp: codex_reply_def a dest: decision_error split: option.splits prod.splits sum.splits)
  moreover have "claude_input c p r = Inl e \<Longrightarrow> e \<noteq> Queue_input" for p r e
    by (auto simp: claude_input_def claude_answers_def bind_res_def Let_def
        split: if_splits sum.splits option.splits json.splits list.splits prod.splits)
  then have "claude_reply (en_lib env) c s \<noteq> Inl Queue_input"
    by (auto simp: claude_reply_def bind_res_def split: option.splits prod.splits sum.splits if_splits)
  ultimately show False
    using assms op by (auto simp: codex_command_def claude_command_def Let_def split: if_splits)
qed

section \<open>Retries\<close>

definition holds_record :: "string \<Rightarrow> command \<Rightarrow> sup \<Rightarrow> bool" where
  "holds_record op c s \<longleftrightarrow>
     (\<exists>r. map_of (sp_receipts s) (cm_client c) = Some r \<and> rd_op r = op \<and> rd_command r = c \<and> rd_digest r = [])"

definition status_of :: "command \<Rightarrow> sup \<Rightarrow> string" where
  "status_of c s = rd_status (get_or zero_record (sp_receipts s) (cm_client c))"

lemma holds_put [simp]: "holds_record op c (put_receipt c (new_record op c st) s)"
  "status_of c (put_receipt c (new_record op c st) s) = st"
  by (simp_all add: holds_record_def put_receipt_def new_record_def status_of_def get_or_def map_of_update)

lemma holds_same: "sp_receipts s' = sp_receipts s \<Longrightarrow> holds_record op c s' = holds_record op c s \<and> status_of c s' = status_of c s"
  by (simp add: holds_record_def status_of_def)

lemma retry_holds:
  assumes "holds_record op c s" "cm_client c \<noteq> []"
  shows "executeLocked env op c s = Some (ok_receipt c (status_of c s), s)"
    "op' \<noteq> op \<Longrightarrow> executeLocked env op' c s = Some (Inl Client_id_reused, s)"
  using assms by (auto simp: holds_record_def executeLocked_def admit_def record_conflicts_def status_of_def get_or_def)

lemma perform_parts:
  assumes "perform env op c wire s = Some (r, s')"
  shows "\<exists>d ok. sp_receipts d = sp_receipts (put_receipt c (new_record op c ''delivery_unknown'') s) \<and>
    (if ok
     then r = ok_receipt c ''accepted'' \<and> (\<exists>u. sp_receipts u = sp_receipts d \<and> s' = put_receipt c (new_record op c ''accepted'') u)
     else r = ok_receipt c ''delivery_unknown'' \<and> s' = kill d)"
proof -
  let ?r = "new_record op c ''delivery_unknown''" and ?resolved = "resolved_as c wire s"
  obtain a where a: "event env ''intent'' op (cm_client c) (Some (record_json ?r)) s = Some a"
    using assms by (auto simp: perform_def Let_def bind_eq_Some_conv)
  let ?m = "(if op = ''send'' then perform_send env c (put_receipt c ?r a)
              else if op = ''reply'' then perform_reply env c ?resolved (put_receipt c ?r a)
              else if op = ''interrupt'' then perform_interrupt env (put_receipt c ?r a)
              else if op = ''stop'' then perform_stop env (put_receipt c ?r a)
              else Some (put_receipt c ?r a))"
  obtain b where b: "?m = Some b" using assms a by (auto simp: perform_def Let_def bind_eq_Some_conv)
  have "unrecorded (put_receipt c ?r a) ?m" using unrec_perform by (auto simp: unrecorded_def)
  then have rb: "sp_receipts b = sp_receipts (put_receipt c ?r s)"
    using b event_keeps(1) [OF a] by (simp add: unrecorded_def put_receipt_def)
  obtain ok d where w: "(case wire of None \<Rightarrow> (True, b) | Some w \<Rightarrow> write_agent env w b) = (ok, d)" by fastforce
  then have d: "sp_receipts d = sp_receipts (put_receipt c ?r s)" using rb by (auto simp: write_agent_def split: option.splits)
  have "if ok
     then r = ok_receipt c ''accepted'' \<and> (\<exists>u. sp_receipts u = sp_receipts d \<and> s' = put_receipt c (new_record op c ''accepted'') u)
     else r = ok_receipt c ''delivery_unknown'' \<and> s' = kill d"
    using assms a b w by (auto simp: perform_def Let_def bind_eq_Some_conv dest!: event_keeps(1))
  then show ?thesis using d by blast
qed

lemma perform_holds:
  assumes "perform env op c wire s = Some (Inr rc, s')"
  shows "holds_record op c s' \<and> rc = \<lparr>rc_client = cm_client c, rc_status = status_of c s'\<rparr>"
proof -
  obtain d ok where d: "sp_receipts d = sp_receipts (put_receipt c (new_record op c ''delivery_unknown'') s)"
    "if ok then Inr rc = ok_receipt c ''accepted'' \<and> (\<exists>u. sp_receipts u = sp_receipts d \<and> s' = put_receipt c (new_record op c ''accepted'') u)
     else Inr rc = ok_receipt c ''delivery_unknown'' \<and> s' = kill d"
    using perform_parts [OF assms] by blast
  show ?thesis
  proof (cases ok)
    case False
    then have r: "sp_receipts s' = sp_receipts (put_receipt c (new_record op c ''delivery_unknown'') s)"
      using d by (simp add: kill_def)
    then show ?thesis using holds_same [OF r, of op c] d(2) False by (simp add: ok_receipt_def)
  qed (use d(2) in \<open>auto simp: ok_receipt_def\<close>)
qed

lemma enqueue_holds:
  assumes "enqueue env c s = Some (Inr rc, s')"
  shows "holds_record ''send'' c s' \<and> rc = \<lparr>rc_client = cm_client c, rc_status = status_of c s'\<rparr>"
  using assms by (auto simp: enqueue_def ok_receipt_def bind_eq_Some_conv split: if_splits)

lemma run_command_holds:
  assumes "run_command env op c s = Some (Inr rc, s')"
  shows "holds_record op c s' \<and> rc = \<lparr>rc_client = cm_client c, rc_status = status_of c s'\<rparr>"
proof -
  obtain r u where r: "(if sp_codex s \<noteq> None then codex_command env op c s else claude_command env op c s) = (r, u)" by fastforce
  show ?thesis
  proof (cases r)
    case (Inr wire)
    then show ?thesis using assms r perform_holds by (auto simp: run_command_def)
  next
    case (Inl e)
    then have e: "e = Queue_input" "enqueue env c u = Some (Inr rc, s')"
      using assms r by (cases e; auto simp: run_command_def)+
    then have "op = ''send''" using queue_is_send [of "sp_codex s \<noteq> None" env op c s] r Inl by simp
    then show ?thesis using enqueue_holds [OF e(2)] by simp
  qed
qed

text \<open>The commands of other clients stay as they are.\<close>

lemma put_other [simp]: "k \<noteq> cm_client c \<Longrightarrow> map_of (sp_receipts (put_receipt c r s)) k = map_of (sp_receipts s) k"
  by (simp add: put_receipt_def map_of_update)

lemma perform_other:
  assumes "perform env op c wire s = Some (r, s')" "k \<noteq> cm_client c"
  shows "map_of (sp_receipts s') k = map_of (sp_receipts s) k"
proof -
  obtain d ok where d: "sp_receipts d = sp_receipts (put_receipt c (new_record op c ''delivery_unknown'') s)"
    "if ok
     then r = ok_receipt c ''accepted'' \<and> (\<exists>u. sp_receipts u = sp_receipts d \<and> s' = put_receipt c (new_record op c ''accepted'') u)
     else r = ok_receipt c ''delivery_unknown'' \<and> s' = kill d"
    using perform_parts [OF assms(1)] by blast
  then have "map_of (sp_receipts d) k = map_of (sp_receipts s) k" using put_other [OF assms(2)] by simp
  then show ?thesis using d(2) put_other [OF assms(2)] by (cases ok) (auto simp: kill_def)
qed

lemma run_command_other:
  assumes "run_command env op c s = Some (r, s')" "k \<noteq> cm_client c"
  shows "map_of (sp_receipts s') k = map_of (sp_receipts s) k"
proof -
  obtain x u where x: "(if sp_codex s \<noteq> None then codex_command env op c s else claude_command env op c s) = (x, u)" by fastforce
  then have u: "sp_receipts u = sp_receipts s"
    using provider_receipts [of env op c s] by (auto split: if_splits)
  show ?thesis
  proof (cases x)
    case (Inr wire)
    then show ?thesis using assms x perform_other u by (auto simp: run_command_def)
  next
    case (Inl e)
    have "map_of (sp_receipts s') k = map_of (sp_receipts u) k" if "enqueue env c u = Some (r, s')"
      using that assms(2) by (auto simp: enqueue_def bind_eq_Some_conv dest!: event_keeps(1) split: if_splits)
    then show ?thesis using assms x Inl u by (cases e) (auto simp: run_command_def)
  qed
qed

lemma approve_step:
  assumes "approve_list env (p # ps) s = Some s'" "\<not> has_key (sp_receipts s) (auto_client s p)"
  obtains r u where "executeReply env (auto_command s p) s = Some (r, u)"
    "(case r of
       Inl _ \<Rightarrow> do {
         s \<leftarrow> say env ''permission'' ''ask'' u;
         say env ''diagnostic'' ''automatic approval failed; manual approval enabled'' s }
     | Inr rc \<Rightarrow> if rc_status rc \<noteq> ''accepted'' then Some u else approve_list env ps u) = Some s'"
proof (cases "executeReply env (auto_command s p) s")
  case None
  then show ?thesis using assms by (simp only: approve_list.simps if_False Option.bind.simps option.distinct)
next
  case (Some ru)
  obtain r u where ru: "ru = (r, u)" by fastforce
  show ?thesis
    by (rule that [of r u]) (use assms Some ru in \<open>simp_all only: approve_list.simps if_False Option.bind.simps prod.case\<close>)
qed

lemma approve_keeps:
  "approve_list env ps s = Some s' \<Longrightarrow> map_of (sp_receipts s) k \<noteq> None \<Longrightarrow> map_of (sp_receipts s') k = map_of (sp_receipts s) k"
proof (induction ps arbitrary: s)
  case (Cons p ps)
  show ?case
  proof (cases "has_key (sp_receipts s) (auto_client s p)")
    case True
    then have "approve_list env ps s = Some s'" using Cons.prems(1) by simp
    then show ?thesis using Cons.IH Cons.prems(2) by blast
  next
    case False
    then have k: "k \<noteq> cm_client (auto_command s p)"
      using Cons.prems(2) by (auto simp: auto_command_def zero_command_def)
    obtain r u where r: "executeReply env (auto_command s p) s = Some (r, u)"
      and u: "(case r of
       Inl _ \<Rightarrow> do {
         s \<leftarrow> say env ''permission'' ''ask'' u;
         say env ''diagnostic'' ''automatic approval failed; manual approval enabled'' s }
     | Inr rc \<Rightarrow> if rc_status rc \<noteq> ''accepted'' then Some u else approve_list env ps u) = Some s'"
      using approve_step [OF Cons.prems(1) False] .
    have ku: "map_of (sp_receipts u) k = map_of (sp_receipts s) k"
      using r run_command_other [OF _ k] by (auto simp: executeReply_def split: option.splits)
    show ?thesis
    proof (cases r)
      case (Inl e)
      then have "unrecorded u (Some s')" using u by (metis (no_types, lifting) old.sum.simps(5) unrec)
      then show ?thesis using ku by (simp add: unrecorded_def)
    next
      case (Inr rc)
      then show ?thesis using u ku Cons.IH [of u] Cons.prems(2) by (auto split: if_splits)
    qed
  qed
qed simp

lemma approvePending_keeps:
  "approvePending env s = Some s' \<Longrightarrow> map_of (sp_receipts s) k \<noteq> None \<Longrightarrow> map_of (sp_receipts s') k = map_of (sp_receipts s) k"
  using approve_keeps by (auto simp: approvePending_def split: if_splits)

lemma publish_unrec [unrec]: "unrecorded s (publishModels env s)"
  unfolding publishModels_def Let_def by (intro unrec)

lemma restore_receipts [simp]: "sp_receipts (restoreSetting name raw s) = sp_receipts s"
  by (simp add: restoreSetting_def Let_def split: prod.split)

lemma finish_receipts:
  assumes "finishSetting env rid success s = Some s'"
  shows "sp_receipts s' = sp_receipts s \<or>
    (\<exists>r st. map_of (sp_receipts s) rid = Some r \<and> sp_receipts s' = AList.update rid (r\<lparr>rd_status := st\<rparr>) (sp_receipts s))"
proof (cases "map_of (sp_receipts s) rid")
  case (Some r)
  show ?thesis
  proof (cases "rd_status r = ''delivery_unknown'' \<and> (\<exists>f v. Fields (cm_text (rd_command r)) = [f, v])")
    case False
    then have "s' = s" using assms Some by (auto simp: finishSetting_def split: list.splits if_splits)
    then show ?thesis by simp
  next
    case True
    then obtain f v where fv: "Fields (cm_text (rd_command r)) = [f, v]" by blast
    let ?s = "if sp_setting_pending s = rid then s\<lparr>sp_setting_pending := []\<rparr> else s"
    let ?payload = "JObj [(''value'', JStr (setting_value v))]"
    have s: "sp_receipts ?s = sp_receipts s" by simp
    note def = finishSetting_def [of env rid success s, unfolded Some option.case fv list.case Let_def]
    show ?thesis
    proof (cases success)
      case True': True
      obtain a b where a: "event env ''setting'' (trim_slash f) rid (Some ?payload) (restoreSetting (trim_slash f) (Some ?payload) ?s) = Some a"
        and b: "publishModels env a = Some b"
        and s': "event env ''receipt'' ''configure'' rid (Some (record_json (r\<lparr>rd_status := ''accepted''\<rparr>)))
          (b\<lparr>sp_receipts := AList.update rid (r\<lparr>rd_status := ''accepted''\<rparr>) (sp_receipts b)\<rparr>) = Some s'"
        using assms True True' unfolding def by (simp add: bind_eq_Some_conv) blast
      have "sp_receipts b = sp_receipts s"
        using event_keeps(1) [OF a] publish_unrec [of a env] b by (simp add: unrecorded_def)
      then show ?thesis using event_keeps(1) [OF s'] Some by auto
    next
      case False
      obtain a where a: "event env ''setting_status'' ''rejected; provider did not confirm update'' rid None ?s = Some a"
        and s': "event env ''receipt'' ''configure'' rid (Some (record_json (r\<lparr>rd_status := ''rejected''\<rparr>)))
          (a\<lparr>sp_receipts := AList.update rid (r\<lparr>rd_status := ''rejected''\<rparr>) (sp_receipts a)\<rparr>) = Some s'"
        using assms True False unfolding def by (simp add: bind_eq_Some_conv) blast
      then show ?thesis using event_keeps(1) [OF s'] event_keeps(1) [OF a] Some by auto
    qed
  qed
qed (use assms in \<open>simp add: finishSetting_def\<close>)

lemma finish_holds:
  assumes "finishSetting env rid success s = Some s'" "holds_record op c s"
  shows "holds_record op c s'"
  using finish_receipts [OF assms(1)] assms(2) by (auto simp: holds_record_def map_of_update)

lemma configure_holds:
  assumes "configure env c s = Some (Inr rc, s')"
  shows "holds_record ''send'' c s'"
proof -
  have idle: "\<not> (state_of s \<noteq> ''idle'' \<or> sp_setting_pending s \<noteq> [])" using assms by (auto simp: configure_def split: if_splits)
  note def = configure_def [of env c s, unfolded if_not_P [OF idle] Let_def]
  consider (one) f where "Fields (cm_text c) = [f]" | (two) f v where "Fields (cm_text c) = [f, v]"
    using assms unfolding def by (auto split: list.splits)
  then show ?thesis
  proof cases
    case one
    note def = def [unfolded one list.case]
    have "\<exists>b. event env ''receipt'' ''configure'' (cm_client c) (Some (record_json (new_record ''send'' c ''accepted'')))
        (put_receipt c (new_record ''send'' c ''accepted'') b) = Some s'"
      using assms unfolding def bind_eq_Some_conv ok_receipt_def option.inject prod.inject by blast
    then obtain b where e: "event env ''receipt'' ''configure'' (cm_client c) (Some (record_json (new_record ''send'' c ''accepted'')))
        (put_receipt c (new_record ''send'' c ''accepted'') b) = Some s'" by blast
    show ?thesis using holds_same [OF event_keeps(1) [OF e]] by simp
  next
    case (two f v)
    let ?n = "trim_slash f" and ?v = "setting_value v"
    have ok: "setting_refused ?n ?v s = None"
      using assms unfolding def two by (auto split: option.splits)
    note def = def [unfolded two list.case ok option.case]
    obtain u where u: "event env ''intent'' ''configure'' (cm_client c) (Some (record_json (new_record ''send'' c ''delivery_unknown'')))
        (put_receipt c (new_record ''send'' c ''delivery_unknown'') s) = Some u"
      using assms unfolding def
      by (cases "event env ''intent'' ''configure'' (cm_client c) (Some (record_json (new_record ''send'' c ''delivery_unknown'')))
        (put_receipt c (new_record ''send'' c ''delivery_unknown'') s)") simp_all
    note def = def [unfolded u Option.bind.simps]
    have h: "holds_record ''send'' c u" using holds_same [OF event_keeps(1) [OF u]] by simp
    show ?thesis
    proof (cases "sp_codex u = None")
      case False
      then obtain x where "finishSetting env (cm_client c) True u = Some x" "s' = x"
        using assms False unfolding def ok_receipt_def by (cases "finishSetting env (cm_client c) True u") auto
      then show ?thesis using finish_holds h by blast
    next
      case True
      let ?w = "u\<lparr>sp_setting_pending := cm_client c,
          sp_out := sp_out u @ [control_request (''cxz-setting-'' @ cm_client c) (setting_request ?n ?v)]\<rparr>"
      obtain x where x: "event env ''setting_status'' ''pending'' (cm_client c) None ?w = Some x" "s' = x"
        using assms True unfolding def write_agent_def prod.case Let_def
        by (auto simp: bind_eq_Some_conv ok_receipt_def split: if_splits)
      have "holds_record ''send'' c ?w" using h by (simp add: holds_record_def)
      then show ?thesis using holds_same [OF event_keeps(1) [OF x(1)]] x(2) by simp
    qed
  qed
qed

lemma set_permission_holds:
  assumes "setPermission env c s = Some (Inr rc, s')"
  shows "holds_record ''permission'' c s' \<and> rc = \<lparr>rc_client = cm_client c, rc_status = status_of c s'\<rparr>"
proof -
  let ?r = "new_record ''permission'' c ''accepted''"
  obtain u where u: "approvePending env (put_receipt c ?r u) = Some s'" "rc = \<lparr>rc_client = cm_client c, rc_status = ''accepted''\<rparr>"
    using assms by (auto simp: setPermission_def Let_def bind_eq_Some_conv ok_receipt_def split: if_splits)
  have "map_of (sp_receipts (put_receipt c ?r u)) (cm_client c) = Some ?r" by (simp add: put_receipt_def map_of_update)
  then have "map_of (sp_receipts s') (cm_client c) = Some ?r" using approvePending_keeps [OF u(1)] by simp
  then show ?thesis using u(2) by (simp add: holds_record_def status_of_def get_or_def new_record_def)
qed

lemma proceed_holds:
  assumes "proceed env op c s = Some (Inr rc, s')" "op \<noteq> ''models''"
  shows "holds_record op c s' \<and>
    (\<not> (op = ''send'' \<and> isSettingCommand (cm_text c)) \<longrightarrow> rc = \<lparr>rc_client = cm_client c, rc_status = status_of c s'\<rparr>)"
proof -
  consider (un) "op = ''unqueue''" "unqueue env c s = Some (Inr rc, s')"
    | (set) "op = ''send''" "isSettingCommand (cm_text c)" "configure env c s = Some (Inr rc, s')"
    | (run) "run_command env op c s = Some (Inr rc, s')"
    using assms by (auto simp: proceed_def split: if_splits option.splits)
  then show ?thesis
  proof cases
    case un
    then show ?thesis by (auto simp: unqueue_def Let_def bind_eq_Some_conv ok_receipt_def split: if_splits)
  next
    case set
    then show ?thesis using configure_holds by simp
  next
    case run
    then show ?thesis using run_command_holds by blast
  qed
qed

text \<open>C2. A retry changes nothing.  Once a command other than \<open>models\<close> and \<open>update-stop\<close> was answered,
  asking again under the same client id with the same words before anything else happened is answered
  from its record whatever the environment now does: nothing is written to the agent, nothing is
  recorded, and the supervisor is as it was.  The status given is the one given before, except that of a
  setting, whose record may have moved on while it was being answered.  A catalog refresh keeps no
  record, so asking for it again does it again; \<open>update-stop\<close> is recorded as the stop it becomes, so a
  retry of it is refused.\<close>

theorem retry_changes_nothing:
  assumes "executeLocked env op c s = Some (Inr rc, s')" "op \<noteq> ''models''" "op \<noteq> ''update-stop''"
  shows "\<exists>status. executeLocked env' op c s' = Some (ok_receipt c status, s') \<and>
    (\<not> (op = ''send'' \<and> isSettingCommand (cm_text c)) \<longrightarrow> rc = \<lparr>rc_client = cm_client c, rc_status = status\<rparr>)"
proof (cases "admit op c s")
  case (Some r)
  then have r: "r = Inr rc" "s' = s" using assms(1) by (simp_all add: executeLocked_def)
  obtain old where "map_of (sp_receipts s) (cm_client c) = Some old" "rc = \<lparr>rc_client = cm_client c, rc_status = rd_status old\<rparr>"
    using Some r(1) by (auto simp: admit_def ok_receipt_def split: if_splits option.splits)
  then have "r = ok_receipt c (rd_status old)" by (simp add: r ok_receipt_def)
  then show ?thesis using Some r by (auto simp: executeLocked_def ok_receipt_def)
next
  case None
  then have c: "cm_client c \<noteq> []" by (auto simp: admit_def)
  have "holds_record op c s' \<and>
      (\<not> (op = ''send'' \<and> isSettingCommand (cm_text c)) \<longrightarrow> rc = \<lparr>rc_client = cm_client c, rc_status = status_of c s'\<rparr>)"
  proof (cases "op = ''permission''")
    case True
    then show ?thesis using assms(1) None set_permission_holds by (simp add: executeLocked_def)
  next
    case False
    then have "proceed env op c s = Some (Inr rc, s')"
      using assms None by (simp add: executeLocked_def dispatch_def)
    from proceed_holds [OF this assms(2)] show ?thesis .
  qed
  then show ?thesis using retry_holds(1) [OF _ c] by blast
qed

section \<open>Readiness for an update\<close>

definition quiet :: "int \<Rightarrow> int \<Rightarrow> string \<Rightarrow> sup \<Rightarrow> bool" where
  "quiet idle now busy s \<longleftrightarrow> state_of s = ''idle'' \<and> \<not> sp_stopping s \<and> sp_pending s = [] \<and> sp_setting_pending s = [] \<and>
     cx_turn (the_codex s) = [] \<and> cx_replies (the_codex s) = [] \<and> \<not> sp_unknown s \<and> \<not> bs_unavailable (sp_background s) \<and>
     \<not> any_active (sp_background s) \<and> busy = [] \<and>
     (\<forall>(k, seen, b)\<in>set (sp_clients s). b \<longrightarrow> seconds 30 < now - seen) \<and>
     \<not> sp_blocked s \<and> (\<exists>t. sp_activity s = Some t \<and> idle \<le> now - t)"

lemma scan_clients_frame: "scan_clients now cs s = (b, s') \<Longrightarrow> \<exists>m. s' = s\<lparr>sp_clients := m\<rparr>"
proof (induction now cs s arbitrary: s' rule: scan_clients.induct)
  case (1 now s)
  then have "s' = s\<lparr>sp_clients := sp_clients s\<rparr>" by simp
  then show ?case by blast
next
  case (2 now k seen busy cs s)
  show ?case
  proof (cases "seconds 30 < now - seen")
    case True
    then obtain m where "s' = (s\<lparr>sp_clients := AList.delete k (sp_clients s)\<rparr>)\<lparr>sp_clients := m\<rparr>" using 2 by auto
    then show ?thesis by auto
  next
    case False
    then show ?thesis
    proof (cases busy)
      case True
      then have "s' = s\<lparr>sp_clients := sp_clients s\<rparr>" using 2(3) False by simp
      then show ?thesis by blast
    qed (use 2 False in auto)
  qed
qed

lemma scan_clients_idle:
  "scan_clients now cs s = (False, s') \<Longrightarrow> \<forall>(k, seen, b)\<in>set cs. b \<longrightarrow> seconds 30 < now - seen"
  by (induction now cs s arbitrary: s' rule: scan_clients.induct) (auto split: if_splits)

lemma updateReason_quiet:
  assumes "updateReason idle now busy s = ([], s')" "0 < idle"
  shows "quiet idle now busy s"
proof -
  obtain u where u: "update_check idle now busy s = ([], u)"
    using assms(1) by (auto simp: updateReason_def split: prod.splits)
  then have g: "state_of s = ''idle''" "\<not> sp_stopping s" "sp_pending s = []" "sp_setting_pending s = []"
      "cx_turn (the_codex s) = []" "cx_replies (the_codex s) = []" "\<not> sp_unknown s" "\<not> bs_unavailable (sp_background s)"
      "\<not> any_active (sp_background s)" "busy = []" "sp_tools s = []"
    by (auto simp: update_check_def split: if_splits)
  obtain b v where v: "scan_clients now (sp_clients s) s = (b, v)" by fastforce
  obtain m where m: "v = s\<lparr>sp_clients := m\<rparr>" using scan_clients_frame [OF v] by blast
  have b: "\<not> b" using u g v by (cases b) (simp_all add: update_check_def)
  then have w: "(case sp_activity (if sp_blocked v then v\<lparr>sp_blocked := False, sp_activity := Some now\<rparr> else v) of
      None \<Rightarrow> waiting_reason | Some t \<Rightarrow> if now - t < idle then waiting_reason else []) = []"
    using u g v by (auto simp: update_check_def Let_def split: option.splits if_splits)
  have "waiting_reason \<noteq> []" by (simp add: waiting_reason_def)
  then have "\<not> sp_blocked s \<and> (\<exists>t. sp_activity s = Some t \<and> idle \<le> now - t)"
    using w assms(2) by (auto simp: m split: option.splits if_splits)
  then show ?thesis using g scan_clients_idle [of now "sp_clients s" s v] v b by (simp add: quiet_def)
qed

section \<open>Instances\<close>

theorem retry_changes_nothing_witness:
  "\<exists>s s'. executeLocked calm_env ''unqueue'' taking_back s = Some (ok_receipt taking_back ''accepted'', s') \<and> s \<noteq> s' \<and>
     executeLocked calm_env ''unqueue'' taking_back s' = Some (ok_receipt taking_back ''accepted'', s')"
proof -
  obtain s where s: "sn_queued (sp_snap s) = ''hi''" "run_of s = ''r1''" "map_of (sp_receipts s) ''m2'' = None" "\<not> sp_buffering s"
    using waiting_calm by blast
  have q: "sn_queued (sp_snap s) \<noteq> []" by (simp add: s(1))
  obtain t where t: "sn_queued (sp_snap t) = []" "executeLocked calm_env ''unqueue'' taking_back s = Some (ok_receipt taking_back ''accepted'', t)"
    using taken_calm [OF q s(2-4)] by blast
  have "s \<noteq> t" using q t(1) by auto
  with retry_changes_nothing [OF t(2) [unfolded ok_receipt_def], of calm_env] t(2) show ?thesis
    by (auto simp: ok_receipt_def)
qed

definition idle_sup :: sup where
  "idle_sup = (new_sup plain_session empty_log ''r1'')\<lparr>
     sp_snap := (sp_snap (new_sup plain_session empty_log ''r1''))\<lparr>sn_state := ''idle''\<rparr>, sp_activity := Some 0\<rparr>"

lemma stops:
  assumes "recording env" "clock env" "\<not> sp_buffering s" "sn_queued (sp_snap s) = []"
  shows "\<exists>s'. perform env ''stop'' c None s = Some (ok_receipt c ''accepted'', s')"
proof -
  let ?r = "new_record ''stop'' c ''delivery_unknown''"
  obtain a where a: "event env ''intent'' ''stop'' (cm_client c) (Some (record_json ?r)) s = Some a"
    using event_records [OF assms(1,3), of "''intent''" "''stop''" "cm_client c" "Some (record_json ?r)"] by (auto simp: kind_defs)
  obtain e where e: "core a = emit e (core s)" "ev_kind e = ''intent''" using event_step [OF a assms(2)] by blast
  have "sp_snap a = project_event e (sp_snap s)" using arg_cong [OF e(1), of co_snap] by simp
  then have qa: "sn_queued (sp_snap a) = []" using assms(4) e(2) by (simp add: project_event_def Let_def)
  let ?b = "(put_receipt c ?r a)\<lparr>sp_stopping := True\<rparr>"
  have ba: "\<not> sp_buffering ?b" "sn_queued (sp_snap ?b) = []"
    using event_keeps(8) [OF a] assms(3) qa by (simp_all add: put_receipt_def)
  obtain d where d: "say env ''state'' ''stopping'' ?b = Some d"
    using say_records [OF assms(1) ba(1), of "''state''" "''stopping''"] by (auto simp: kind_defs)
  have "\<not> sp_buffering d" using say_keeps(8) [OF d] ba(1) by simp
  then obtain f where "event env ''receipt'' ''stop'' (cm_client c) (Some (record_json (new_record ''stop'' c ''accepted''))) d = Some f"
    using event_records [OF assms(1), of d "''receipt''" "''stop''" "cm_client c"] by (fastforce simp: kind_defs)
  then show ?thesis using a d ba(2) by (simp add: perform_def Let_def perform_stop_def dropQueued_def)
qed

end
