(* ===== verification/Idle.thy ===== *)
theory Idle
  imports Commands
begin

text \<open>
  The idle period before an update: what an action keeps, for any predicate that the steps of an
  operation keep one by one, and with it the clock of the last activity over a run.
\<close>

section \<open>What the result of an operation has\<close>

definition stays :: "(sup \<Rightarrow> bool) \<Rightarrow> sup option \<Rightarrow> bool" where
  "stays P r \<longleftrightarrow> (\<forall>s. r = Some s \<longrightarrow> P s)"

definition stays_with :: "(sup \<Rightarrow> bool) \<Rightarrow> ('a \<times> sup) option \<Rightarrow> bool" where
  "stays_with P r \<longleftrightarrow> (\<forall>p. r = Some p \<longrightarrow> P (snd p))"

named_theorems kept "operations that keep a predicate"

lemma stays_base [kept]:
  "P s \<Longrightarrow> stays P (Some s)" "P (snd p) \<Longrightarrow> stays_with P (Some p)" "stays P None" "stays_with P None"
  by (simp_all add: stays_def stays_with_def)

lemma stays_if [kept]:
  "(b \<Longrightarrow> stays P x) \<Longrightarrow> (\<not> b \<Longrightarrow> stays P y) \<Longrightarrow> stays P (if b then x else y)"
  "(b \<Longrightarrow> stays_with P u) \<Longrightarrow> (\<not> b \<Longrightarrow> stays_with P v) \<Longrightarrow> stays_with P (if b then u else v)"
  by simp_all

lemma stays_bool [kept]:
  "(b \<Longrightarrow> stays P x) \<Longrightarrow> (\<not> b \<Longrightarrow> stays P y) \<Longrightarrow> stays P (case b of True \<Rightarrow> x | False \<Rightarrow> y)"
  by (cases b) simp_all

lemma stays_option [kept]:
  "(z = None \<Longrightarrow> stays P x) \<Longrightarrow> (\<And>v. z = Some v \<Longrightarrow> stays P (f v)) \<Longrightarrow> stays P (case z of None \<Rightarrow> x | Some v \<Rightarrow> f v)"
  "(z = None \<Longrightarrow> stays_with P y) \<Longrightarrow> (\<And>v. z = Some v \<Longrightarrow> stays_with P (g v)) \<Longrightarrow>
     stays_with P (case z of None \<Rightarrow> y | Some v \<Rightarrow> g v)"
  by (simp_all split: option.split)

lemma stays_list [kept]:
  "(xs = [] \<Longrightarrow> stays P x) \<Longrightarrow> (\<And>v vs. xs = v # vs \<Longrightarrow> stays P (f v vs)) \<Longrightarrow> stays P (case xs of [] \<Rightarrow> x | v # vs \<Rightarrow> f v vs)"
  "(xs = [] \<Longrightarrow> stays_with P y) \<Longrightarrow> (\<And>v vs. xs = v # vs \<Longrightarrow> stays_with P (g v vs)) \<Longrightarrow>
     stays_with P (case xs of [] \<Rightarrow> y | v # vs \<Rightarrow> g v vs)"
  by (simp_all split: list.split)

lemma stays_sum [kept]:
  "(\<And>e. r = Inl e \<Longrightarrow> stays P (f e)) \<Longrightarrow> (\<And>v. r = Inr v \<Longrightarrow> stays P (g v)) \<Longrightarrow> stays P (case r of Inl e \<Rightarrow> f e | Inr v \<Rightarrow> g v)"
  "(\<And>e. r = Inl e \<Longrightarrow> stays_with P (f' e)) \<Longrightarrow> (\<And>v. r = Inr v \<Longrightarrow> stays_with P (g' v)) \<Longrightarrow>
     stays_with P (case r of Inl e \<Rightarrow> f' e | Inr v \<Rightarrow> g' v)"
  by (simp_all split: sum.split)

lemma stays_bind [kept]:
  "stays P m \<Longrightarrow> (\<And>t. P t \<Longrightarrow> stays P (f t)) \<Longrightarrow> stays P (m \<bind> f)"
  "stays P m \<Longrightarrow> (\<And>t. P t \<Longrightarrow> stays_with P (g t)) \<Longrightarrow> stays_with P (m \<bind> g)"
  "stays_with P n \<Longrightarrow> (\<And>p. P (snd p) \<Longrightarrow> stays P (f' p)) \<Longrightarrow> stays P (n \<bind> f')"
  "stays_with P n \<Longrightarrow> (\<And>p. P (snd p) \<Longrightarrow> stays_with P (g' p)) \<Longrightarrow> stays_with P (n \<bind> g')"
  by (auto simp: stays_def stays_with_def bind_eq_Some_conv)

lemma stays_map [kept]:
  "stays_with P n \<Longrightarrow> stays P (map_option snd n)" "stays P m \<Longrightarrow> stays_with P (map_option (Pair x) m)"
  by (auto simp: stays_def stays_with_def)

lemma stays_map_same [kept]: "stays P m \<Longrightarrow> (\<And>t. P (h t) = P t) \<Longrightarrow> stays P (map_option h m)"
  by (auto simp: stays_def)

section \<open>What every action keeps\<close>

text \<open>The interface between an operation and a predicate it keeps: the parts of the state that do not
  matter to the predicate, and the steps that may, recording, looking at a frame, asking whether an
  update may start, rewriting the log, and gathering and committing a batch.\<close>

locale kept_by =
  fixes env :: env and P :: "sup \<Rightarrow> bool"
  assumes other:
    "P (s\<lparr>sp_session := v1\<rparr>) = P s" "P (s\<lparr>sp_receipts := v2\<rparr>) = P s" "P (s\<lparr>sp_stopping := v3\<rparr>) = P s"
    "P (s\<lparr>sp_interrupted := v4\<rparr>) = P s" "P (s\<lparr>sp_codex := v5\<rparr>) = P s" "P (s\<lparr>sp_mcp := v6\<rparr>) = P s"
    "P (s\<lparr>sp_clients := v8\<rparr>) = P s" "P (s\<lparr>sp_tools := v9\<rparr>) = P s" "P (s\<lparr>sp_background := v10\<rparr>) = P s"
    "P (s\<lparr>sp_unknown := v11\<rparr>) = P s" "P (s\<lparr>sp_snap := v36\<rparr>) = P s" "P (s\<lparr>sp_pending := v37\<rparr>) = P s"
    "P (s\<lparr>sp_quota_fallback := v12\<rparr>) = P s"
    "P (s\<lparr>sp_quota_root := v13\<rparr>) = P s" "P (s\<lparr>sp_quota_token := v14\<rparr>) = P s" "P (s\<lparr>sp_quota_lease := v15\<rparr>) = P s"
    "P (s\<lparr>sp_quota_observed := v16\<rparr>) = P s" "P (s\<lparr>sp_quota_disabled := v17\<rparr>) = P s"
    "P (s\<lparr>sp_quota_requested := v18\<rparr>) = P s" "P (s\<lparr>sp_quota_checking := v19\<rparr>) = P s"
    "P (s\<lparr>sp_options := v20\<rparr>) = P s" "P (s\<lparr>sp_model_requested := v21\<rparr>) = P s" "P (s\<lparr>sp_model_disabled := v22\<rparr>) = P s"
    "P (s\<lparr>sp_model_source := v23\<rparr>) = P s" "P (s\<lparr>sp_model_pages := v24\<rparr>) = P s" "P (s\<lparr>sp_effort := v25\<rparr>) = P s"
    "P (s\<lparr>sp_applied_model := v26\<rparr>) = P s" "P (s\<lparr>sp_applied_effort := v27\<rparr>) = P s" "P (s\<lparr>sp_settings_seq := v28\<rparr>) = P s"
    "P (s\<lparr>sp_settings_request := v29\<rparr>) = P s" "P (s\<lparr>sp_settings_for := v30\<rparr>) = P s" "P (s\<lparr>sp_setting_pending := v31\<rparr>) = P s"
    "P (s\<lparr>sp_context := v32\<rparr>) = P s" "P (s\<lparr>sp_tracking := v33\<rparr>) = P s" "P (s\<lparr>sp_out := v34\<rparr>) = P s"
    "P (s\<lparr>sp_killed := v35\<rparr>) = P s"
    and stored: "P (s\<lparr>sp_log := (sp_log s)\<lparr>lo_store := st\<rparr>\<rparr>) = P s"
    and recorded: "P s \<Longrightarrow> event_full env k t r pl raw resp s = Some (e, s') \<Longrightarrow> P s'"
    and observed: "P s \<Longrightarrow> P (observeUpdateRaw env doc s)"
    and asked: "P s \<Longrightarrow> P (snd (updateReason (en_idle env) (en_now env) (en_busy env) s))"
    and shed: "P s \<Longrightarrow> lo_events l = map (shed_event n) (lo_events (sp_log s)) \<Longrightarrow> P (s\<lparr>sp_log := l\<rparr>)"
    and trimmed: "P s \<Longrightarrow> ev_kind cp = HistoryCheckpointKind \<Longrightarrow> lo_events l = compact_events cp (lo_events (sp_log s)) \<Longrightarrow> P (s\<lparr>sp_log := l\<rparr>)"
    and kept_log: "lo_events l = lo_events (sp_log s) \<Longrightarrow> P (s\<lparr>sp_log := l\<rparr>) = P s"
    and gathering: "P s \<Longrightarrow> P (s\<lparr>sp_buffering := True, sp_batch := []\<rparr>)"
    and committed: "P s \<Longrightarrow> sp_buffering s \<Longrightarrow> append_batch env s = Some s' \<Longrightarrow> P s'"
begin

declare other [simp] stored [simp]

lemma same [simp]:
  "P (kill s) = P s" "P (on_codex f s) = P s" "P (put_receipt c r s) = P s"
  "P (write_ignore env v s) = P s" "P (snd (write_agent env v s)) = P s"
  "P (reset_response s) = P s" "P (on_polling g s) = P s" "P (on_progress h s) = P s"
  "P (restoreSetting name raw s) = P s" "P (captureResponseUsage env raw s) = P s" "P (recordState env s) = P s"
  by (simp_all add: kill_def on_codex_def put_receipt_def write_ignore_def write_agent_def reset_response_def
      on_polling_def on_progress_def restoreSetting_def captureResponseUsage_def recordState_def Let_def split: prod.split option.split)

lemma event_full_stays [kept]: "P s \<Longrightarrow> stays_with P (event_full env k t r pl raw resp s)"
  using recorded by (fastforce simp: stays_with_def)

lemma event_stays [kept]: "P s \<Longrightarrow> stays P (event env k t r pl s)"
  unfolding event_def by (intro kept)

lemma say_stays [kept]: "P s \<Longrightarrow> stays P (say env k t s)"
  unfolding say_def by (intro kept)

lemma ask_stays [kept]: "P s \<Longrightarrow> stays P (ask env name rid pl s)"
  unfolding ask_def split_beta by (intro kept | simp)+

lemma resolve_all_stays [kept]: "P s \<Longrightarrow> stays P (resolve_all env ks s)"
proof (induction ks arbitrary: s)
  case (Cons k ks)
  show ?case unfolding resolve_all.simps using Cons by (intro kept | simp)+
qed (simp add: stays_def)

lemma clearPending_stays [kept]: "P s \<Longrightarrow> stays P (clearPending env s)"
  unfolding clearPending_def by (rule resolve_all_stays)

lemma dropQueued_stays [kept]: "P s \<Longrightarrow> stays P (dropQueued env reason s)"
  unfolding dropQueued_def Let_def by (intro kept | simp)+

lemma publishModels_stays [kept]: "P s \<Longrightarrow> stays P (publishModels env s)"
  unfolding publishModels_def Let_def by (intro kept | simp)+

lemma finishSetting_stays [kept]: "P s \<Longrightarrow> stays P (finishSetting env rid ok s)"
  unfolding finishSetting_def Let_def by (intro kept | simp)+

lemma receiveClaudeSettings_stays [kept]: "P s \<Longrightarrow> stays P (receiveClaudeSettings env rid ok raw s)"
  unfolding receiveClaudeSettings_def Let_def split_beta by (intro kept | simp)+

lemma readClaudeSettings_stays [kept]: "P s \<Longrightarrow> stays P (readClaudeSettings env rid s)"
  unfolding readClaudeSettings_def Let_def split_beta by (intro kept | simp)+

lemma readModelsNow_stays [kept]: "P s \<Longrightarrow> stays P (readModelsNow env forced s)"
  unfolding readModelsNow_def Let_def split_beta by (intro kept | simp)+

lemma readModels_stays [kept]: "P s \<Longrightarrow> stays P (readModels env s)"
  unfolding readModels_def by (rule readModelsNow_stays)

lemma refreshModels_stays [kept]: "P s \<Longrightarrow> stays_with P (refreshModels env cmd s)"
  unfolding refreshModels_def Let_def split_beta by (intro kept | simp)+

lemma configure_stays [kept]: "P s \<Longrightarrow> stays_with P (configure env cmd s)"
  unfolding configure_def Let_def split_beta by (intro kept | simp)+

lemma expireSetting_stays [kept]: "P s \<Longrightarrow> stays P (expireSetting env s)"
  unfolding expireSetting_def by (intro kept | simp)+

lemma requestQuota_stays [kept]: "P s \<Longrightarrow> stays P (requestQuota env req s)"
  unfolding requestQuota_def Let_def split_beta by (intro kept | simp)+

lemma sendClaudeQuota_stays [kept]: "P s \<Longrightarrow> stays P (sendClaudeQuota env s)"
  unfolding sendClaudeQuota_def by (intro kept | simp)+

lemma recordSharedQuota_stays [kept]: "P s \<Longrightarrow> stays P (recordSharedQuota env raw n s)"
  unfolding recordSharedQuota_def
  by (intro kept | simp split: json.split | intro conjI impI allI)+

lemma claimClaudeQuota_stays [kept]: "P s \<Longrightarrow> stays_with P (claimClaudeQuota env s)"
  unfolding claimClaudeQuota_def Let_def split_beta by (intro kept | simp)+

lemma readClaudeQuota_stays [kept]: "P s \<Longrightarrow> stays P (readClaudeQuota env s)"
  unfolding readClaudeQuota_def split_beta by (intro kept | simp)+

lemma remoteQuota_stays [kept]: "P s \<Longrightarrow> stays P (remoteQuota env over s)"
  unfolding remoteQuota_def Let_def split_beta by (intro kept | simp)+

lemma publishClaudeQuota_stays [kept]: "P s \<Longrightarrow> stays P (publishClaudeQuota env raw s)"
  unfolding publishClaudeQuota_def Let_def split_beta by (intro kept | simp)+

lemma fail_session_stays [kept]: "P s \<Longrightarrow> stays P (fail_session env s)"
  unfolding fail_session_def by (intro kept | simp)+

lemma publishBackground_stays [kept]: "P s \<Longrightarrow> stays P (publishBackground env sub j s)"
  unfolding publishBackground_def Let_def split_beta by (intro kept | simp)+

lemma backgroundFailed_stays [kept]: "P s \<Longrightarrow> stays P (backgroundFailed env st s)"
  unfolding backgroundFailed_def Let_def split_beta by (intro kept | simp)+

lemma backgroundPage_stays [kept]: "P s \<Longrightarrow> stays P (backgroundPage env cur s)"
  unfolding backgroundPage_def Let_def split_beta by (intro kept | simp)+

lemma readBackground_stays [kept]: "P s \<Longrightarrow> stays P (readBackground env force s)"
  unfolding readBackground_def Let_def by (intro kept | simp)+

lemma consumeBackground_stays [kept]: "P s \<Longrightarrow> stays_with P (consumeBackground env rid r f s)"
  unfolding consumeBackground_def Let_def split_beta by (intro kept | simp)+

lemma checkProgress_stays [kept]: "P s \<Longrightarrow> stays P (checkProgress env s)"
  unfolding checkProgress_def Let_def split_beta by (intro kept | simp)+

lemma codex_quota_stays [kept]: "P s \<Longrightarrow> stays P (codex_quota env s)"
  unfolding codex_quota_def by (rule requestQuota_stays)

lemma startThread_stays [kept]: "P s \<Longrightarrow> stays P (startThread env s)"
  unfolding startThread_def Let_def split_beta by (intro kept | simp)+

lemma async_failed_stays [kept]: "P s \<Longrightarrow> stays P (async_failed env v p s)"
  unfolding async_failed_def Let_def by (intro kept | simp)+

lemma models_reply_stays [kept]: "P s \<Longrightarrow> stays P (models_reply env v s)"
  unfolding models_reply_def Let_def split_beta by (intro kept | simp)+

lemma quota_reply_stays [kept]: "P s \<Longrightarrow> stays P (quota_reply env v s)"
  unfolding quota_reply_def Let_def by (intro kept | simp)+

lemma steer_reply_stays [kept]: "P s \<Longrightarrow> stays P (steer_reply env v cmd s)"
  unfolding steer_reply_def by (intro kept | simp)+

lemma request_failed_stays [kept]: "P s \<Longrightarrow> stays P (request_failed env v s)"
  unfolding request_failed_def by (intro kept | simp)+

lemma initialized_stays [kept]: "P s \<Longrightarrow> stays P (initialized env s)"
  unfolding initialized_def Let_def split_beta by (intro kept | simp)+

lemma server_request_stays [kept]: "P s \<Longrightarrow> stays P (server_request env rid v s)"
  unfolding server_request_def Let_def split_beta by (intro kept | simp)+

lemma request_resolved_stays [kept]: "P s \<Longrightarrow> stays P (request_resolved env v s)"
  unfolding request_resolved_def Let_def split_beta by (intro kept | simp)+

lemma turn_started_stays [kept]: "P s \<Longrightarrow> stays P (turn_started env p s)"
  unfolding turn_started_def Let_def by (intro kept | simp)+

lemma turn_completed_stays [kept]: "P s \<Longrightarrow> stays P (turn_completed env v p s)"
  unfolding turn_completed_def Let_def split_beta by (intro kept | simp)+

lemma agent_message_stays [kept]: "P s \<Longrightarrow> stays P (agent_message env v item s)"
  unfolding agent_message_def Let_def split_beta by (intro kept | simp)+

lemma item_stays [kept]:
  "P s \<Longrightarrow> stays P (item_completed env v item s)" "P s \<Longrightarrow> stays P (item_started env v item s)"
  unfolding item_completed_def item_started_def by (intro kept | simp)+

lemma output_delta_stays [kept]: "P s \<Longrightarrow> stays P (output_delta env v s)"
  unfolding output_delta_def split_beta by (intro kept | simp)+

lemma thread_reply_stays [kept]: "P s \<Longrightarrow> stays P (thread_reply env v s)"
  unfolding thread_reply_def split_beta by (intro kept | simp)+

lemma codex_notification_stays [kept]: "P s \<Longrightarrow> stays P (codex_notification env v p s)"
  unfolding codex_notification_def Let_def by (intro kept | simp)+

lemma codex_frame_step_stays [kept]: "P s \<Longrightarrow> stays P (codex_frame_step env rid v p s)"
  unfolding codex_frame_step_def Let_def by (intro kept | simp)+

lemma codex_consume_stays [kept]: "P s \<Longrightarrow> stays P (codex_consume env raw s)"
  unfolding codex_consume_def Let_def split_beta by (intro kept | simp)+

lemma block_step_stays [kept]: "P s \<Longrightarrow> stays P (block_step env v b s)"
  unfolding block_step_def by (intro kept | simp)+

lemma block_steps_stays [kept]: "P s \<Longrightarrow> stays P (block_steps env v bs s)"
proof (induction bs arbitrary: s)
  case (Cons b bs)
  show ?case unfolding block_steps.simps by (intro kept Cons.IH Cons.prems)
qed (simp add: stays_def)

lemma claude_message_stays [kept]: "P s \<Longrightarrow> stays P (claude_message env v s)"
  unfolding claude_message_def split_beta by (intro kept | simp)+

lemma response_stays [kept]:
  "P s \<Longrightarrow> stays P (setting_response env v s)" "P s \<Longrightarrow> stays P (quota_response env v s)"
  "P s \<Longrightarrow> stays P (models_response env v s)" "P s \<Longrightarrow> stays P (initialize_response env v s)"
  unfolding setting_response_def quota_response_def models_response_def initialize_response_def Let_def
  by (intro kept | simp)+

lemma control_response_stays [kept]: "P s \<Longrightarrow> stays P (control_response env v s)"
  unfolding control_response_def by (intro kept | simp)+

lemma tool_request_stays [kept]: "P s \<Longrightarrow> stays P (tool_request env v s)"
  unfolding tool_request_def Let_def by (intro kept | simp)+

lemma cancel_request_stays [kept]: "P s \<Longrightarrow> stays P (cancel_request env v s)"
  unfolding cancel_request_def by (intro kept | simp)+

lemma turn_result_stays [kept]: "P s \<Longrightarrow> stays P (turn_result env v raw s)"
  unfolding turn_result_def Let_def split_beta by (intro kept | simp)+

lemma claude_frame_step_stays [kept]: "P s \<Longrightarrow> stays P (claude_frame_step env v raw s)"
  unfolding claude_frame_step_def Let_def by (intro kept | simp)+

lemma claude_consume_stays [kept]: "P s \<Longrightarrow> stays P (claude_consume env raw s)"
  unfolding claude_consume_def Let_def split_beta by (intro kept | simp)+

lemma enqueue_stays [kept]: "P s \<Longrightarrow> stays_with P (enqueue env cmd s)"
  unfolding enqueue_def by (intro kept | simp)+

lemma unqueue_stays [kept]: "P s \<Longrightarrow> stays_with P (unqueue env cmd s)"
  unfolding unqueue_def Let_def by (intro kept | simp)+

lemma perform_send_stays [kept]: "P s \<Longrightarrow> stays P (perform_send env cmd s)"
  unfolding perform_send_def by (intro kept | simp)+

lemma perform_reply_stays [kept]: "P s \<Longrightarrow> stays P (perform_reply env cmd r s)"
  unfolding perform_reply_def Let_def by (intro kept | simp)+

lemma perform_interrupt_stays [kept]: "P s \<Longrightarrow> stays P (perform_interrupt env s)"
  unfolding perform_interrupt_def by (intro kept | simp)+

lemma perform_stop_stays [kept]: "P s \<Longrightarrow> stays P (perform_stop env s)"
  unfolding perform_stop_def by (intro kept | simp)+

lemma wire_same [simp]: "P (snd (case wire of None \<Rightarrow> (True, s) | Some w \<Rightarrow> write_agent env w s)) = P s"
  by (simp split: option.split)

lemma perform_stays [kept]: "P s \<Longrightarrow> stays_with P (perform env op cmd wire s)"
  unfolding perform_def Let_def split_beta by (intro kept | simp)+

lemma agent_same [simp]:
  "P (snd (claude_command env op cmd s)) = P s" "P (snd (codex_send env cmd s)) = P s"
  "P (snd (codex_reply lib cmd s)) = P s"
  by (simp_all add: claude_command_def codex_send_def codex_reply_def answerAsync_def Let_def split_beta
      split: option.split sum.split)

lemma codex_same [simp]: "P (snd (codex_command env op cmd s)) = P s"
  by (simp add: codex_command_def Let_def)

lemma stays_run: "stays_with P (case r of (Inl Queue_input, s) \<Rightarrow> f s | (Inl e, s) \<Rightarrow> Some (Inl e, s) | (Inr w, s) \<Rightarrow> g w s)"
  if "P (snd r)" "stays_with P (f (snd r))" "\<And>w. stays_with P (g w (snd r))"
  using that by (auto simp: stays_with_def split: prod.split sum.split exec_error.split)

lemma run_command_stays [kept]: "P s \<Longrightarrow> stays_with P (run_command env op cmd s)"
  unfolding run_command_def by (rule stays_run) (simp_all add: enqueue_stays perform_stays)

lemma proceed_stays [kept]: "P s \<Longrightarrow> stays_with P (proceed env op cmd s)"
  unfolding proceed_def by (intro kept | simp)+

lemma asked_stays: "updateReason (en_idle env) (en_now env) (en_busy env) s = (r, u) \<Longrightarrow> P s \<Longrightarrow> P u"
  using asked [of s] by simp

lemma dispatch_stays [kept]: "P s \<Longrightarrow> stays_with P (dispatch env op cmd s)"
  unfolding dispatch_def split_beta by (intro kept asked | simp)+

lemma executeReply_stays [kept]: "P s \<Longrightarrow> stays_with P (executeReply env cmd s)"
  unfolding executeReply_def by (intro kept run_command_stays | simp)+

lemma approve_list_stays [kept]: "P s \<Longrightarrow> stays P (approve_list env ps s)"
proof (induction ps arbitrary: s)
  case (Cons p ps)
  show ?case unfolding approve_list.simps split_beta using Cons.prems by (intro kept Cons.IH | simp)+
qed (simp add: stays_def)

lemma approvePending_stays [kept]: "P s \<Longrightarrow> stays P (approvePending env s)"
  unfolding approvePending_def by (intro kept | simp)+

lemma setPermission_stays [kept]: "P s \<Longrightarrow> stays_with P (setPermission env cmd s)"
  unfolding setPermission_def Let_def by (intro kept | auto)+

lemma executeLocked_stays [kept]: "P s \<Longrightarrow> stays_with P (executeLocked env op cmd s)"
  unfolding executeLocked_def by (intro kept | simp)+

lemma deliverQueued_stays [kept]: "P s \<Longrightarrow> stays P (deliverQueued env s)"
  unfolding deliverQueued_def Let_def split_beta by (intro kept | simp)+

lemma shedRaw_stays [kept]:
  assumes "P s"
  shows "stays_with P (shedRaw env limit s)"
proof -
  have shed: "P (s\<lparr>sp_log := l\<rparr>)" if "Log_Shed io (sp_log s) k = (r, l)" for io k r l
    by (rule shed [OF assms, where n = k])
      (use that in \<open>auto simp: Log_Shed_eq Let_def split: if_splits prod.splits option.splits\<close>)
  show ?thesis
    unfolding shedRaw_def Let_def using assms
    by (auto intro!: kept dest: shed split: prod.split option.split)
qed

lemma trimHistory_stays:
  assumes "P s"
  shows "P (trimHistory env limit s)"
proof -
  have trim: "P (s\<lparr>sp_log := l\<rparr>)"
    if "makeHistoryCheckpoint es = Inr cp" "Log_Compact io (sp_log s) cp = (r, l)" for es cp io r l
  proof (cases r)
    case None
    have "ev_kind cp = HistoryCheckpointKind"
      using that(1) by (auto simp: makeHistoryCheckpoint_def Let_def bind_res_Inr_iff split: if_splits)
    moreover have "lo_events l = compact_events cp (lo_events (sp_log s))"
      using None that(2) by (auto simp: Log_Compact_eq Let_def split: if_splits prod.splits option.splits)
    ultimately show ?thesis by (rule trimmed [OF assms])
  next
    case (Some e)
    then have "lo_events l = lo_events (sp_log s)"
      using that(2) by (auto simp: Log_Compact_eq Let_def split: if_splits prod.splits option.splits)
    then show ?thesis using assms kept_log by simp
  qed
  show ?thesis
    unfolding trimHistory_def Let_def
    using trim assms by (auto split: option.split sum.split prod.split)
qed

lemma retainHistory_stays [kept]: "P s \<Longrightarrow> stays P (retainHistory env s)"
  unfolding retainHistory_def Let_def split_beta by (intro kept trimHistory_stays | simp)+

lemma consume_body_stays: "P (observeUpdateRaw env (parse_json raw) s) \<Longrightarrow> stays P (consume_body env raw s)"
  unfolding consume_body_def Let_def split_beta
  by (intro kept gathering | simp)+

lemma settle_stays: "P s \<Longrightarrow> sp_buffering s \<Longrightarrow> stays P (settle env s)"
  unfolding settle_def Let_def using committed [of s]
  by (intro stays_bind(1) kept | simp add: stays_def)+

lemma consume_stays:
  assumes "clock env" "P (observeUpdateRaw env (parse_json raw) s)"
  shows "stays P (consume env raw s)"
proof (cases "consume_body env raw s")
  case (Some t)
  then have "sp_buffering t"
    using path_buf [OF consume_body_leads [OF assms(1) Some]] by (simp add: gather_def)
  moreover have "P t" using consume_body_stays [OF assms(2)] Some by (simp add: stays_def)
  ultimately show ?thesis using settle_stays by (simp add: consume_def Some)
qed (simp add: consume_def stays_def)

lemma recordOverflow_stays [kept]: "P s \<Longrightarrow> stays P (recordOverflow env frag s)"
  unfolding recordOverflow_def split_beta by (intro kept | simp)+

lemma serveUpdate_stays [kept]: "P s \<Longrightarrow> stays_with P (serveUpdate env r s)"
  unfolding serveUpdate_def Let_def split_beta by (intro kept asked | simp)+

lemma serve_stays [kept]:
  assumes "P s"
  shows "stays_with P (serve env r s)"
proof -
  have "stays_with P (Some (case out of Inl _ \<Rightarrow> (Http_error 409, t) | Inr rc \<Rightarrow> (Receipt_of rc, if b then kill t else t)))"
    if "P t" for out t b
    using that by (auto simp: stays_with_def split: sum.split)
  note answered = this
  have "stays_with P (executeLocked env op cmd s \<bind> (\<lambda>(out, t). Some (case out of Inl _ \<Rightarrow> (Http_error 409, t)
      | Inr rc \<Rightarrow> (Receipt_of rc, if b then kill t else t))))" for op cmd b
    by (rule stays_bind(4) [OF executeLocked_stays [OF assms]]) (simp add: answered case_prod_beta)
  then show ?thesis
    using serveUpdate_stays [OF assms, of r] assms by (simp add: serve_def split_beta stays_base)
qed

lemma sharedQuotaTick_stays [kept]: "P s \<Longrightarrow> stays P (sharedQuotaTick env s)"
  unfolding sharedQuotaTick_def by (intro kept | simp)+

lemma quotaTick_stays [kept]: "P s \<Longrightarrow> stays P (quotaTick env s)"
  unfolding quotaTick_def by (intro kept | simp)+

lemma finish_stays [kept]: "P s \<Longrightarrow> stays P (finish env b s)"
  unfolding finish_def by (intro kept | simp)+

lemma act_stays:
  assumes "clock env" "P s" "act env a s = Some s'"
  shows "P s'"
proof -
  have "stays P (act env a s)"
    using assms(1,2) by (cases a) (auto intro!: kept consume_stays observed)
  then show ?thesis using assms(3) by (simp add: stays_def)
qed

end

section \<open>The clock of the last activity\<close>

text \<open>An event of work: input, a request or its answer, a tool, the agent's words, the end of a turn,
  a command, or a state other than idle.\<close>

definition active :: "event \<Rightarrow> bool" where
  "active e \<longleftrightarrow>
     ev_kind e \<in> {''input'', ''approval'', ''approval_resolved'', ''tool'', ''tool_result'', ''assistant'', ''turn_end'', ''intent''} \<or>
     ev_kind e = ''state'' \<and> ev_text e \<noteq> ''idle''"

text \<open>The clock says now, or it says what it did, a refused check is still noted, and no event of work
  was recorded past the numbers given.\<close>

definition idle_since :: "env \<Rightarrow> nat set \<Rightarrow> int option \<Rightarrow> bool \<Rightarrow> sup \<Rightarrow> bool" where
  "idle_since env old a b s \<longleftrightarrow> sp_activity s = Some (en_now env) \<or>
     sp_activity s = a \<and> (b \<longrightarrow> sp_blocked s) \<and>
     (\<forall>e\<in>set (lo_events (sp_log s)). active e \<longrightarrow> (\<exists>k\<in>old. ev_seq e \<le> k)) \<and>
     (sp_buffering s \<longrightarrow> (\<forall>e\<in>set (sp_batch s). \<not> active e))"

lemma stored_event:
  assumes "store_event env e0 s = Some (e, s')"
  shows "ev_kind e = ev_kind e0 \<and> ev_text e = ev_text e0 \<and>
    (\<exists>l. s' = s\<lparr>sp_log := l, sp_batch := (if sp_buffering s then sp_batch s @ [e] else sp_batch s)\<rparr> \<and>
       lo_events l = (if sp_buffering s then lo_events (sp_log s) else lo_events (sp_log s) @ [e]))"
proof (cases "sp_buffering s")
  case True
  then show ?thesis using assms by (intro conjI exI [of _ "sp_log s"]) (auto simp: store_event_def Let_def)
next
  case False
  then obtain l where l: "Log_Append (en_io env (sn_last (sp_snap s))) (sp_log s) e0 = (Inr e, l)" "s' = s\<lparr>sp_log := l\<rparr>"
    using assms by (auto simp: store_event_def split: prod.splits sum.splits)
  with Log_Append_Inr [OF l(1)] False show ?thesis by (intro conjI exI [of _ l]) simp_all
qed

lemma idle_recorded:
  assumes "idle_since env old a b s" "event_full env k t r pl raw resp s = Some (e, s')"
  shows "idle_since env old a b s'"
proof -
  let ?s = "observeUpdateEvent env k t r s"
  obtain s1 where s1: "store_event env (make_event k t r pl raw resp ?s) ?s = Some (e, s1)"
    and s': "s' = (let s2 = (track_response e s1)\<lparr>sp_snap := project_event e (sp_snap (track_response e s1))\<rparr>
        in if sp_buffering s2 then s2 else recordState env s2)"
    using assms(2) by (auto simp: event_full_def Let_def bind_eq_Some_conv)
  have log: "lo_events (sp_log s') = lo_events (sp_log s1)" "sp_batch s' = sp_batch s1" "sp_buffering s' = sp_buffering s1"
      "sp_activity s' = sp_activity s1" "sp_blocked s' = sp_blocked s1"
    by (simp_all add: s' Let_def track_response_def recordState_def split: option.split prod.split)
  from stored_event [OF s1] obtain l where l: "ev_kind e = k" "ev_text e = t"
      "s1 = ?s\<lparr>sp_log := l, sp_batch := (if sp_buffering s then sp_batch s @ [e] else sp_batch s)\<rparr>"
      "lo_events l = (if sp_buffering s then lo_events (sp_log s) else lo_events (sp_log s) @ [e])"
    by (simp cong: if_cong) blast
  have new: "lo_events (sp_log s1) = (if sp_buffering s then lo_events (sp_log s) else lo_events (sp_log s) @ [e])"
      "sp_batch s1 = (if sp_buffering s then sp_batch s @ [e] else sp_batch s)" "sp_buffering s1 = sp_buffering s"
      "sp_activity s1 = sp_activity ?s"
    by (simp_all add: l)
  have blocked: "sp_blocked s1 = sp_blocked s" by (simp add: l(3) observeUpdateEvent_def Let_def)
  have act: "sp_activity ?s = (if k = ''state'' \<and> (t \<noteq> ''idle'' \<or> state_of s \<noteq> ''idle'') \<or> activity_kind k
      then Some (en_now env) else sp_activity s)"
    by (auto simp: observeUpdateEvent_def Let_def)
  show ?thesis
  proof (cases "sp_activity ?s = Some (en_now env)")
    case True
    then show ?thesis by (simp add: idle_since_def log new)
  next
    case False
    then have k: "\<not> active e" "sp_activity ?s = sp_activity s"
      using act l(1,2) by (auto simp: active_def activity_kind_def split: if_splits)
    then show ?thesis using False assms(1) by (auto simp: idle_since_def log new blocked)
  qed
qed

lemma batch_kinds: "e \<in> set (number_batch now n es) \<Longrightarrow> \<exists>f\<in>set es. ev_kind e = ev_kind f \<and> ev_text e = ev_text f"
  by (induction es arbitrary: n) auto

lemma idle_committed:
  assumes "idle_since env old a b s" "sp_buffering s" "append_batch env s = Some s'"
  shows "idle_since env old a b s'"
proof -
  obtain batch l where l: "s' = s\<lparr>sp_log := l, sp_buffering := False, sp_batch := []\<rparr>"
      "lo_events l = lo_events (sp_log s) @ batch" "\<forall>e\<in>set batch. \<exists>f\<in>set (sp_batch s). ev_kind e = ev_kind f \<and> ev_text e = ev_text f"
    using assms(3) batch_kinds
    by (fastforce simp: append_batch_def Log_AppendBatch_eq Let_def split: if_splits prod.splits option.splits sum.splits)
  then have "\<forall>e\<in>set batch. \<exists>f\<in>set (sp_batch s). active e = active f" by (fastforce simp: active_def)
  with assms(1,2) show ?thesis by (auto simp: idle_since_def l(1,2))
qed

lemma idle_checked:
  assumes "idle_since env old a b s"
  shows "idle_since env old a b (snd (update_check idle (en_now env) busy s))"
  unfolding update_check_def
proof (intro if_both [where P = "\<lambda>p. idle_since env old a b (snd p)"])
  obtain v m where v: "scan_clients (en_now env) (sp_clients s) s = (v, s\<lparr>sp_clients := m\<rparr>)"
    using scan_clients_frame by (cases "scan_clients (en_now env) (sp_clients s) s") blast
  let ?u = "s\<lparr>sp_clients := m\<rparr>"
  let ?w = "if sp_blocked ?u then ?u\<lparr>sp_blocked := False, sp_activity := Some (en_now env)\<rparr> else ?u"
  have u: "idle_since env old a b ?u" using assms by (simp add: idle_since_def)
  then have w: "idle_since env old a b ?w" by (auto simp: idle_since_def)
  show "idle_since env old a b (snd (case scan_clients (en_now env) (sp_clients s) s of (True, s) \<Rightarrow> (''attached client busy'', s)
      | (False, s) \<Rightarrow>
          let s = (if sp_blocked s then s\<lparr>sp_blocked := False, sp_activity := Some (en_now env)\<rparr> else s)
          in case sp_activity s of
               None \<Rightarrow> (waiting_reason, s)
             | Some t \<Rightarrow> if en_now env - t < idle then (waiting_reason, s) else ([], s)))"
    unfolding v Let_def using u w
    by (cases v; cases "sp_activity ?w") (simp_all del: simp_thms split: bool.split)
qed (use assms in \<open>simp_all add: idle_since_def\<close>)

lemma idle_asked:
  assumes "idle_since env old a b s"
  shows "idle_since env old a b (snd (updateReason idle (en_now env) busy s))"
  using idle_checked [OF assms, of idle busy]
  by (cases "update_check idle (en_now env) busy s") (auto simp: updateReason_def idle_since_def)

lemma idle_events:
  assumes "idle_since env old a b s" "\<And>e. e \<in> set (lo_events l) \<Longrightarrow> active e \<Longrightarrow> \<exists>f\<in>set (lo_events (sp_log s)). active f \<and> ev_seq f = ev_seq e"
  shows "idle_since env old a b (s\<lparr>sp_log := l\<rparr>)"
proof (cases "sp_activity s = Some (en_now env)")
  case False
  then have "\<forall>e\<in>set (lo_events (sp_log s)). active e \<longrightarrow> (\<exists>k\<in>old. ev_seq e \<le> k)" using assms(1) by (simp add: idle_since_def)
  then have "\<forall>e\<in>set (lo_events l). active e \<longrightarrow> (\<exists>k\<in>old. ev_seq e \<le> k)" using assms(2) by metis
  then show ?thesis using assms(1) by (auto simp: idle_since_def)
qed (simp add: idle_since_def)

interpretation idle: kept_by env "idle_since env old a b" for env old a b
proof unfold_locales
  fix s
  show "idle_since env old a b s \<Longrightarrow> idle_since env old a b (observeUpdateRaw env doc s)" for doc
    by (simp add: observeUpdateRaw_def Let_def idle_since_def split: prod.split)
  show "idle_since env old a b (snd (updateReason (en_idle env) (en_now env) (en_busy env) s))" if "idle_since env old a b s"
    using that by (rule idle_asked)
  show "idle_since env old a b (s\<lparr>sp_log := l\<rparr>)"
    if "idle_since env old a b s" "lo_events l = map (shed_event n) (lo_events (sp_log s))" for l n
    by (rule idle_events [OF that(1)]) (auto simp: that(2) active_def shed_event_def split: if_splits)
  show "idle_since env old a b (s\<lparr>sp_log := l\<rparr>)"
    if "idle_since env old a b s" "ev_kind cp = HistoryCheckpointKind" "lo_events l = compact_events cp (lo_events (sp_log s))" for cp l
    by (rule idle_events [OF that(1)])
      (use that(2) in \<open>auto simp: that(3) active_def compact_events_def kind_defs dest: in_set_dropD\<close>)
  show "idle_since env old a b s'" if "idle_since env old a b s" "event_full env k t r pl raw resp s = Some (e, s')" for k t r pl raw resp e s'
    using that by (rule idle_recorded)
  show "idle_since env old a b s'" if "idle_since env old a b s" "sp_buffering s" "append_batch env s = Some s'" for s'
    using that by (rule idle_committed)
  show "idle_since env old a b (s\<lparr>sp_buffering := True, sp_batch := []\<rparr>)" if "idle_since env old a b s"
    using that by (auto simp: idle_since_def)
qed (simp_all add: idle_since_def)

section \<open>Work and the stop for an update\<close>

text \<open>An action that is work: it recorded an event of work, it was a message about background tasks, or it
  leaves a refused readiness check noted.\<close>

definition works :: "action \<Rightarrow> sup \<Rightarrow> sup \<Rightarrow> bool" where
  "works a s s' \<longleftrightarrow>
     (\<exists>e\<in>set (lo_events (sp_log s')). active e \<and> (\<forall>f\<in>set (lo_events (sp_log s)). ev_seq f < ev_seq e)) \<or>
     (\<exists>raw. a = Consume raw \<and> IsBackgroundEvent (parse_json raw)) \<or> sp_blocked s'"

text \<open>The clock is not behind \<open>t0\<close>, or it will be set when a check next passes.\<close>

definition since :: "int \<Rightarrow> sup \<Rightarrow> bool" where
  "since t0 s \<longleftrightarrow> sp_blocked s \<or> (\<exists>t. sp_activity s = Some t \<and> t0 \<le> t)"

text \<open>What happens to a supervisor from a moment on.\<close>

inductive later :: "int \<Rightarrow> sup \<Rightarrow> sup \<Rightarrow> bool" for t0 s where
  same: "later t0 s s"
| action: "later t0 s u \<Longrightarrow> clock env \<Longrightarrow> t0 \<le> en_now env \<Longrightarrow> act env a u = Some v \<Longrightarrow> later t0 s v"

lemma work_noted:
  assumes "clock env" "\<not> sp_buffering s" "act env a s = Some s'" "works a s s'"
  shows "since (en_now env) s'"
proof -
  consider (event) e where "e \<in> set (lo_events (sp_log s'))" "active e" "\<forall>f\<in>set (lo_events (sp_log s)). ev_seq f < ev_seq e"
    | (background) raw where "a = Consume raw" "IsBackgroundEvent (parse_json raw)" | (refused) "sp_blocked s'"
    using assms(4) by (auto simp: works_def)
  then show ?thesis
  proof cases
    case event
    let ?old = "ev_seq ` set (lo_events (sp_log s))"
    have "idle_since env ?old (sp_activity s) False s" using assms(2) by (auto simp: idle_since_def)
    then have "idle_since env ?old (sp_activity s) False s'" by (rule idle.act_stays [OF assms(1) _ assms(3)])
    moreover have "\<not> (\<exists>k\<in>?old. ev_seq e \<le> k)" using event(3) by (auto simp: not_le)
    ultimately show ?thesis using event(1,2) by (auto simp: idle_since_def since_def)
  next
    case background
    have "stays (idle_since env UNIV (Some (en_now env)) False) (consume env raw s)"
      by (rule idle.consume_stays [OF assms(1)])
        (use background(2) assms(2) in \<open>auto simp: idle_since_def observeUpdateRaw_def Let_def split: prod.split\<close>)
    then show ?thesis using assms(3) background(1) by (auto simp: stays_def idle_since_def since_def)
  qed (simp add: since_def)
qed

lemma advance_buffers: "advance c c' \<Longrightarrow> \<not> co_buf c \<Longrightarrow> \<not> co_buf c'"
  by (induction rule: advance.induct) (auto simp: commit_def dest: path_buf)

lemma later_since: "later t0 s s' \<Longrightarrow> \<not> sp_buffering s \<Longrightarrow> since t0 s \<Longrightarrow> \<not> sp_buffering s' \<and> since t0 s'"
proof (induction rule: later.induct)
  case (action u env a v)
  then have u: "\<not> sp_buffering u" "since t0 u" by simp_all
  then have "idle_since env UNIV (sp_activity u) (sp_blocked u) u" by (auto simp: idle_since_def)
  then have "idle_since env UNIV (sp_activity u) (sp_blocked u) v" by (rule idle.act_stays [OF action.hyps(2) _ action.hyps(4)])
  then have "since t0 v" using u(2) action.hyps(3) by (auto simp: idle_since_def since_def)
  moreover have "\<not> sp_buffering v"
    using advance_buffers [OF act_advances [OF action.hyps(2) u(1) action.hyps(4)]] u(1) by simp
  ultimately show ?case by simp
qed simp

text \<open>C5. An update never cuts into work.  Take any action of the supervisor that was work, one that recorded
  input, a request or its answer, a tool's result, the agent's words, a command, the end of a turn
  or another state than idle, that was a message about background tasks, or that left a refused readiness
  check noted, and anything that happens after it.  If \<open>update-stop\<close> is then carried out, the whole idle
  period has passed since that action, and at that moment nothing is going on: the turn is over, no
  request, setting, known background task or child process is there, and no client reported
  itself busy within half a minute.  The stop is recorded under another operation than the one asked
  for, so a retry of it is refused.  A busy client and the agent's list of background tasks hold an
  update back only while they are there; neither starts the idle period again.\<close>

theorem update_stop_when_quiet:
  assumes "clock env0" "\<not> sp_buffering s0" "act env0 a s0 = Some s1" "works a s0 s1" "later (en_now env0) s1 s"
    "executeLocked env ''update-stop'' c s = Some (Inr rc, s')" "map_of (sp_receipts s) (cm_client c) = None" "0 < en_idle env"
  shows "en_idle env \<le> en_now env - en_now env0 \<and> quiet (en_idle env) (en_now env) (en_busy env) s \<and>
    cm_run c = run_of s \<and>
    executeLocked env' ''update-stop'' c s' = Some (Inl Client_id_reused, s') \<and>
    executeLocked env' ''stop'' c s' = Some (ok_receipt c (status_of c s'), s')"
proof -
  have a: "cm_client c \<noteq> []" "cm_run c = run_of s" "admit ''update-stop'' c s = None"
    using assms(6,7) by (auto simp: executeLocked_def admit_def split: if_splits)
  obtain reason u where r: "updateReason (en_idle env) (en_now env) (en_busy env) s = (reason, u)" by fastforce
  have e: "reason = []" using assms(6) a(3) r by (auto simp: executeLocked_def dispatch_def split: if_splits)
  obtain v where "say env ''update'' ''applying agent update'' u = Some v" "proceed env ''stop'' c v = Some (Inr rc, s')"
    using assms(6) a(3) r e by (auto simp: executeLocked_def dispatch_def bind_eq_Some_conv)
  then have h: "holds_record ''stop'' c s'" using proceed_holds [of env "''stop''" c v rc s'] by simp
  note q = updateReason_quiet [OF r [unfolded e] assms(8)]
  have "\<not> sp_buffering s1" using advance_buffers [OF act_advances [OF assms(1-3)]] assms(2) by simp
  then have "since (en_now env0) s" using later_since [OF assms(5)] work_noted [OF assms(1-4)] by simp
  then have "en_idle env \<le> en_now env - en_now env0" using q by (auto simp: quiet_def since_def)
  then show ?thesis using q h a(1,2) retry_holds [of "''stop''" c s'] by simp
qed

section \<open>Instances\<close>

definition at :: "int \<Rightarrow> string \<Rightarrow> env" where
  "at n busy = calm_env\<lparr>en_now := seconds n, en_busy := busy\<rparr>"

definition asking :: request where
  "asking = \<lparr>rq_method = ''POST'', rq_path = ''/update-status'', rq_body = Some (JObj [(''run_id'', JStr ''r1'')]), rq_fork = False\<rparr>"

lemma at_env: "0 < n \<Longrightarrow> n < 1000 \<Longrightarrow> clock (at n busy)" "recording (at n busy)" "en_now (at n busy) = seconds n" "en_busy (at n busy) = busy"
    "en_idle (at n busy) = seconds 300"
  by (simp_all add: at_def clock_def recording_def millis_def calm_env_def calm_io_def seconds_def UpdateIdlePeriod_def)

lemma asked_body: "unmarshal_payload dec_command (rq_body asking) zero_command = (zero_command\<lparr>cm_run := ''r1''\<rparr>, True)"
  by code_simp

lemma status_asked:
  assumes "run_of s = ''r1''"
  shows "act env (Serve asking) s = Some (snd (updateReason (en_idle env) (en_now env) (en_busy env) s))"
  using assms asked_body by (simp add: serve_def serveUpdate_def update_paths_def asking_def split_beta)

text \<open>A check refused because of a child process, a check that finds it gone, and the stop five minutes later.\<close>

theorem update_stop_when_quiet_witness:
  "\<exists>s1 s s'. act (at 301 ''make'') (Serve asking) idle_sup = Some s1 \<and> works (Serve asking) idle_sup s1 \<and>
     act (at 302 []) (Serve asking) s1 = Some s \<and>
     executeLocked (at 602 []) ''update-stop'' taking_back s = Some (ok_receipt taking_back ''accepted'', s') \<and>
     quiet (seconds 300) (seconds 602) [] s \<and>
     executeLocked (at 603 []) ''update-stop'' taking_back s' = Some (Inl Client_id_reused, s')"
proof -
  define s1 where "s1 = idle_sup\<lparr>sp_activity := Some (seconds 301), sp_blocked := True\<rparr>"
  define s where "s = idle_sup\<lparr>sp_activity := Some (seconds 302), sp_blocked := False\<rparr>"
  have f: "\<not> sp_buffering idle_sup" "sn_queued (sp_snap idle_sup) = []" "sp_receipts idle_sup = []" "sp_codex idle_sup = None"
      "run_of idle_sup = ''r1''"
    by (simp_all add: idle_sup_def new_sup_def Let_def zero_snapshot_def)
  note check = updateReason_def update_check_def idle_sup_def new_sup_def Let_def zero_snapshot_def the_codex_def zero_codex_def
    zero_background_def any_active_def tasks_of_def seconds_def waiting_reason_def
  have u: "updateReason (seconds 300) (seconds 301) ''make'' idle_sup = (''agent child process running or unknown: make'', s1)"
      "updateReason (seconds 300) (seconds 302) [] s1 = (waiting_reason, s)"
      "updateReason (seconds 300) (seconds 602) [] s = ([], s)"
    by (simp_all add: check s1_def s_def)
  have run: "run_of s1 = ''r1''" using f by (simp add: s1_def)
  have a1: "act (at 301 ''make'') (Serve asking) idle_sup = Some s1"
    using status_asked [OF f(5), of "at 301 ''make''"] u(1) by (simp add: at_env)
  have a2: "act (at 302 []) (Serve asking) s1 = Some s"
    using status_asked [OF run, of "at 302 []"] u(2) by (simp add: at_env)
  have s: "\<not> sp_buffering s" "sn_queued (sp_snap s) = []" "sp_receipts s = []" "sp_codex s = None" "run_of s = ''r1''"
    using f by (simp_all add: s_def)
  have admit: "admit ''update-stop'' taking_back s = None"
    by (simp add: admit_def s taking_back_def zero_command_def)
  have t: "recording (at 602 [])" "clock (at 602 [])" by (simp_all add: at_env)
  obtain v where v: "say (at 602 []) ''update'' ''applying agent update'' s = Some v"
    using say_records [OF t(1) s(1), of "''update''" "''applying agent update''"] by (auto simp: kind_defs)
  note k = say_keeps [OF v]
  have q: "sn_queued (sp_snap v) = []" using say_events(4) [OF v t(2) s(1)] s(2) by simp
  obtain w where w: "perform (at 602 []) ''stop'' taking_back None v = Some (ok_receipt taking_back ''accepted'', w)"
    using stops [OF t _ q] k(8) s(1) by auto
  have "proceed (at 602 []) ''stop'' taking_back v = Some (ok_receipt taking_back ''accepted'', w)"
    using w k(2) s(4) by (simp add: proceed_def run_command_def claude_command_def)
  then have x: "executeLocked (at 602 []) ''update-stop'' taking_back s = Some (ok_receipt taking_back ''accepted'', w)"
    using admit u(3) v by (simp add: executeLocked_def dispatch_def at_env)
  have works: "works (Serve asking) idle_sup s1" by (simp add: works_def s1_def)
  have c: "clock (at 301 ''make'')" "clock (at 302 [])" by (simp_all add: at_env)
  have "later (seconds 301) s1 s"
    by (rule later.action [OF later.same c(2) _ a2]) (simp add: at_env seconds_def)
  moreover have "map_of (sp_receipts s) (cm_client taking_back) = None" by (simp add: s)
  moreover have "0 < en_idle (at 602 [])" by (simp add: at_env seconds_def)
  ultimately have "quiet (seconds 300) (seconds 602) [] s \<and>
      executeLocked (at 603 []) ''update-stop'' taking_back w = Some (Inl Client_id_reused, w)"
    using update_stop_when_quiet [OF c(1) f(1) a1 works _ x [unfolded ok_receipt_def], of "at 603 []"] by (simp add: at_env)
  then show ?thesis using a1 a2 works x by blast
qed

end
