(* ===== verification/Stream_Lines.thy ===== *)
theory Stream_Lines
  imports Supervisor
begin

text \<open>
  Reading the agent's stream: whatever the size of the buffer, the lines are those of the input, in
  order, without their ends and without the empty ones, up to the first that is longer than the limit.
\<close>

lemma first_line_append: "chr_newline \<notin> set c \<Longrightarrow> first_line (c @ s) = c @ first_line s"
  by (induction c) (auto simp: first_line_def Let_def)

lemma first_line_newline: "first_line (chr_newline # s) = [chr_newline]"
  by (simp add: first_line_def)

lemma first_line_split: "s = first_line s @ drop (length (first_line s)) s"
proof (induction s)
  case (Cons c s)
  then show ?case
    using first_line_append [of "[c]" s] by (cases "c = chr_newline") (simp_all add: first_line_newline)
qed (simp add: first_line_def)

lemma first_line_none: "chr_newline \<notin> set s \<Longrightarrow> first_line s = s"
  using first_line_append [of s "[]"] by (simp add: first_line_def)

lemma first_line_ends: "chr_newline \<in> set s \<Longrightarrow> \<exists>l. first_line s = l @ [chr_newline] \<and> chr_newline \<notin> set l"
proof -
  assume "chr_newline \<in> set s"
  then obtain l r where s: "s = l @ chr_newline # r" "chr_newline \<notin> set l" using split_list_first by metis
  then show ?thesis using first_line_append [OF s(2), of "chr_newline # r"] by (simp add: first_line_newline)
qed

lemma read_slice_line: "read_slice b s = take b (first_line s)"
  by (simp add: read_slice_def first_line_def Let_def)

text \<open>A chunk holds the newline only as its last byte, and then it is the rest of the line.\<close>

lemma read_slice_parts:
  obtains (whole) l where "read_slice b s = l @ [chr_newline]" "chr_newline \<notin> set l" "first_line s = read_slice b s"
  | (part) "chr_newline \<notin> set (read_slice b s)" "s = read_slice b s @ drop (length (read_slice b s)) s"
proof (cases "chr_newline \<in> set (read_slice b s)")
  case True
  then have "chr_newline \<in> set (first_line s)" by (auto simp: read_slice_line dest: in_set_takeD)
  then have "chr_newline \<in> set s" using first_line_split [of s] by (metis Un_iff set_append)
  then obtain l where l: "first_line s = l @ [chr_newline]" "chr_newline \<notin> set l" using first_line_ends by blast
  then have "read_slice b s = l @ [chr_newline]"
    using True by (cases "b - length l") (auto simp: read_slice_line dest: in_set_takeD)
  then show ?thesis using whole l by simp
next
  case False
  have "s = take b (first_line s) @ (drop b (first_line s) @ drop (length (first_line s)) s)"
    by (subst append_assoc [symmetric], subst append_take_drop_id, rule first_line_split)
  then have "s = read_slice b s @ drop (length (read_slice b s)) s"
    unfolding read_slice_line by (metis append_eq_conv_conj)
  then show ?thesis using part False by blast
qed

definition line_result :: "nat \<Rightarrow> bytes \<Rightarrow> bytes \<Rightarrow> bytes \<times> line_end \<times> bytes \<Rightarrow> bool" where
  "line_result limit l rest res \<longleftrightarrow>
     (case res of (x, e, r) \<Rightarrow>
        if limit < length l then x = take limit l \<and> e = Overflow
        else x = l \<and> r = rest \<and> e = (if l \<noteq> [] \<and> last l = chr_newline then Newline else Input_end))"

lemma readLine_result:
  assumes "0 < b" "chr_newline \<notin> set line" "length line \<le> limit"
  shows "line_result limit (line @ first_line s) (drop (length (first_line s)) s) (readLine b limit line s)"
  using assms(2,3)
proof (induction "length s" arbitrary: line s rule: less_induct)
  case less
  let ?c = "read_slice b s"
  obtain l e r where res: "readLine b limit line s = (l, e, r)" by (metis prod_cases3)
  have pre: "length ?c \<le> length (first_line s)" "take (length ?c) (first_line s) = ?c"
    by (simp_all add: read_slice_line min_def)
  show ?case
  proof (cases "limit < length line + length ?c")
    case True
    then have "limit < length (line @ first_line s)" using pre(1) by simp
    moreover have "take limit (line @ first_line s) = line @ take (limit - length line) ?c"
      using True less.prems(2) by (simp add: read_slice_line)
    ultimately show ?thesis
      using True unfolding line_result_def readLine.simps [of b limit line s] by (simp add: Let_def)
  next
    case short: False
    show ?thesis
    proof (cases rule: read_slice_parts [of b s])
      case (whole k)
      then show ?thesis
        using short unfolding line_result_def readLine.simps [of b limit line s] by (simp add: Let_def)
    next
      case part
      let ?s = "drop (length ?c) s"
      have f: "first_line s = ?c @ first_line ?s" using first_line_append [OF part(1), of ?s] part(2) by simp
      have nl: "\<not> (?c \<noteq> [] \<and> last ?c = chr_newline)" using part(1) by (metis last_in_set)
      show ?thesis
      proof (cases "?s = [] \<or> ?c = []")
        case True
        have "?s = []"
        proof (rule ccontr)
          assume s: "?s \<noteq> []"
          then have "?c = []" using True by simp
          then have "first_line s = []" "s \<noteq> []" using assms(1) s by (auto simp: read_slice_line)
          then show False using first_line_append [of "[hd s]" "tl s"] first_line_newline [of "tl s"]
            by (cases s; cases "hd s = chr_newline") auto
        qed
        then have "first_line s = ?c" using f by (simp add: first_line_def)
        moreover have "last (line @ ?c) \<noteq> chr_newline" if "line @ ?c \<noteq> []"
          using that part(1) less.prems(1) by (metis Un_iff last_in_set set_append)
        ultimately show ?thesis
          using short nl True unfolding line_result_def readLine.simps [of b limit line s] by (auto simp: Let_def)
      next
        case False
        then have r: "readLine b limit line s = readLine b limit (line @ ?c) ?s"
          using short nl readLine.simps [of b limit line s] by (simp add: Let_def)
        have "length ?s < length s" using False by (cases s) auto
        from less.hyps [OF this, of "line @ ?c"] show ?thesis
          using part(1) less.prems short by (simp add: r f add.commute)
      qed
    qed
  qed
qed

lemma split_lines_first:
  "split_lines acc s =
     (if chr_newline \<in> set s then (rev acc @ first_line s) # split_lines [] (drop (length (first_line s)) s)
      else [rev acc @ s])"
proof (induction s arbitrary: acc)
  case (Cons c s)
  then show ?case
    using first_line_append [of "[c]" s] by (cases "c = chr_newline") (auto simp: first_line_newline)
qed simp

text \<open>C6. The lines handed on do not depend on how the stream is buffered: they are the lines of the
  input in order, without their ends and the empty ones, up to the first longer than the limit, of
  which the trimmed beginning is kept.  Reading always ends.\<close>

theorem read_lines_split:
  assumes "0 < b"
  shows "read_lines b limit s = take_lines limit (split_lines [] s)"
proof (induction "length s" arbitrary: s rule: less_induct)
  case less
  let ?f = "first_line s" and ?rest = "drop (length (first_line s)) s"
  obtain l e r where res: "readLine b limit [] s = (l, e, r)" by (metis prod_cases3)
  note x = readLine_result [OF assms, of "[]" limit s, simplified, unfolded res line_result_def prod.case]
  show ?case
  proof (cases "chr_newline \<in> set s")
    case True
    then obtain k where k: "?f = k @ [chr_newline]" using first_line_ends by blast
    have "length s = length ?f + length ?rest" using first_line_split [of s] by (metis length_append)
    then have "length ?rest < length s" using k by simp
    from less [OF this] show ?thesis
      using x True k by (cases "limit < length ?f")
        (auto simp: read_lines.simps [of b limit s] res split_lines_first [of "[]" s] split: prod.split)
  next
    case False
    then have "s = [] \<or> last s \<noteq> chr_newline" by (metis last_in_set)
    then show ?thesis
      using x False by (auto simp: read_lines.simps [of b limit s] res split_lines_first [of "[]" s] first_line_none split: if_splits)
  qed
qed

theorem read_lines_split_witness: "read_lines 2 5 ''abcd'' = ([''abcd''], None)"
  using read_lines_split [of 2 5 "''abcd''"] by (simp add: trim_line_def)

end
