(* ===== verification/Views.thy ===== *)
theory Views
  imports Answers
begin

text \<open>
  What a client shows of the provider's payloads: a shell command without its wrapper
  (\<^verbatim>\<open>shellview\<close>), the activity of a tool call (\<^verbatim>\<open>toolview\<close>), and whether a failure is one
  of authentication (\<^verbatim>\<open>authview\<close>).  The words of a command are split by a package that is not
  part of the sources: it is the parameter \<open>words\<close>.
\<close>

section \<open>Strings\<close>

text \<open>\<open>path.Base\<close>.\<close>

definition path_base :: "string \<Rightarrow> string" where
  "path_base p =
     (if p = [] then ''.''
      else let q = rev (dropWhile (\<lambda>c. c = CHR ''/'') (rev p))
           in if q = [] then ''/'' else rev (takeWhile (\<lambda>c. c \<noteq> CHR ''/'') (rev q)))"

text \<open>\<open>strings.Split(s, "\\n")\<close>.\<close>

fun split_newline :: "string \<Rightarrow> string \<Rightarrow> string list" where
  "split_newline acc [] = [rev acc]"
| "split_newline acc (c # s) = (if c = chr_newline then rev acc # split_newline [] s else split_newline (c # acc) s)"

text \<open>The runes of a valid UTF-8 text, and \<open>clip\<close>.\<close>

fun runes_from :: "string \<Rightarrow> string \<Rightarrow> string list" where
  "runes_from acc [] = (if acc = [] then [] else [rev acc])"
| "runes_from acc (c # s) =
     (if 0x80 \<le> byte c \<and> byte c < 0xC0 \<and> acc \<noteq> [] then runes_from (c # acc) s
      else (if acc = [] then [] else [rev acc]) @ runes_from [c] s)"

definition runes :: "string \<Rightarrow> string list" where
  "runes s = runes_from [] s"

definition clip :: "string \<Rightarrow> nat \<Rightarrow> string" where
  "clip s n = (if n < length (runes s) then concat (take n (runes s)) @ utf8 0x2026 else s)"

section \<open>Shell commands\<close>

text \<open>Whether the options before the script hand it to the shell: \<open>None\<close> for a word that is none.\<close>

fun shell_options :: "bool \<Rightarrow> string list \<Rightarrow> bool option" where
  "shell_options runs [] = Some runs"
| "shell_options runs (w # ws) =
     (if w = ''-c'' then shell_options True ws
      else if w = ''-o'' \<or> w = ''+o'' then (case ws of [] \<Rightarrow> Some runs | _ # r \<Rightarrow> shell_options runs r)
      else if prefix ''--'' w then shell_options runs ws
      else if prefix ''-'' w then shell_options (runs \<or> CHR ''c'' \<in> set (tl w)) ws
      else None)"

definition Unwrap :: "(string \<Rightarrow> string list option) \<Rightarrow> string \<Rightarrow> string \<times> string" where
  "Unwrap words command =
     (case words command of
        None \<Rightarrow> ([], command)
      | Some ws \<Rightarrow>
          if length ws < 3 then ([], command)
          else
            let shell = path_base (hd ws); script = last ws in
            if shell \<notin> {''sh'', ''bash'', ''zsh'', ''dash'', ''ksh'', ''ash''} then ([], command)
            else case shell_options False (butlast (tl ws)) of
                None \<Rightarrow> ([], command)
              | Some runs \<Rightarrow> if runs \<and> TrimSpace script \<noteq> [] then (shell, script) else ([], command))"

section \<open>Tool activity\<close>

record file_activity =
  fa_path :: string
  fa_move :: string
  fa_action :: string
  fa_added :: nat
  fa_removed :: nat
  fa_lines :: nat
  fa_measure :: string
  fa_per_match :: bool

definition zero_file :: file_activity where
  "zero_file = \<lparr>fa_path = [], fa_move = [], fa_action = [], fa_added = 0, fa_removed = 0, fa_lines = 0, fa_measure = [],
     fa_per_match = False\<rparr>"

record tool_activity =
  ta_kind :: string
  ta_command :: string
  ta_description :: string
  ta_shell :: string
  ta_files :: "file_activity list"

definition zero_activity :: tool_activity where
  "zero_activity = \<lparr>ta_kind = [], ta_command = [], ta_description = [], ta_shell = [], ta_files = []\<rparr>"

definition textLines :: "string \<Rightarrow> nat" where
  "textLines s =
     (if s = [] then 0
      else let s = (if last s = chr_newline then butlast s else s) in length (filter (\<lambda>c. c = chr_newline) s) + 1)"

fun diff_lines :: "bool \<Rightarrow> nat \<times> nat \<times> bool \<Rightarrow> string list \<Rightarrow> nat \<times> nat \<times> bool" where
  "diff_lines inHunk st [] = st"
| "diff_lines inHunk (added, removed, known) (l # ls) =
     (if prefix ''@@ '' l then diff_lines True (added, removed, True) ls
      else if prefix ''diff --git '' l then diff_lines False (added, removed, known) ls
      else if \<not> inHunk \<or> l = [] then diff_lines inHunk (added, removed, known) ls
      else if hd l = CHR ''+'' then diff_lines inHunk (added + 1, removed, known) ls
      else if hd l = CHR ''-'' then diff_lines inHunk (added, removed + 1, known) ls
      else diff_lines inHunk (added, removed, known) ls)"

definition diffCounts :: "string \<Rightarrow> nat \<times> nat \<times> bool" where
  "diffCounts diff = diff_lines False (0, 0, False) (split_newline [] diff)"

text \<open>\<open>fields.text\<close> and whether the value is a string.\<close>

definition known_text :: "(string, json) gomap \<Rightarrow> string \<Rightarrow> string \<times> bool" where
  "known_text f k = unmarshal_payload dec_string (map_of f k) []"

definition claude_view :: "(string \<Rightarrow> string list option) \<Rightarrow> string \<Rightarrow> (string, json) gomap \<Rightarrow> tool_activity option" where
  "claude_view words name p0 =
     (let p = (case map_of p0 ''input'' of Some (JObj kvs) \<Rightarrow> obj_fields (JObj kvs) | _ \<Rightarrow> p0) in
      if name = ''Write'' then
        (let (content, known) = known_text p ''content'' in
         Some (zero_activity\<lparr>ta_kind := ''files'', ta_files := [zero_file\<lparr>fa_path := field_text p ''file_path'', fa_action := ''write'',
           fa_lines := textLines content, fa_measure := (if known then ''content'' else ''unknown'')\<rparr>]\<rparr>))
      else if name = ''Edit'' then
        (let (old, ok1) = known_text p ''old_string''; (new, ok2) = (if ok1 then known_text p ''new_string'' else ([], False)) in
         Some (zero_activity\<lparr>ta_kind := ''files'', ta_files := [zero_file\<lparr>fa_path := field_text p ''file_path'', fa_action := ''edit'',
           fa_removed := textLines old, fa_added := textLines new, fa_measure := (if ok1 \<and> ok2 then ''replacement'' else ''unknown''),
           fa_per_match := (map_of p ''replace_all'' = Some (JBool True))\<rparr>]\<rparr>))
      else if name = ''Bash'' then
        (let (shell, script) = Unwrap words (field_text p ''command'') in
         Some (zero_activity\<lparr>ta_kind := ''command'', ta_command := script, ta_shell := shell,
           ta_description := field_text p ''description''\<rparr>))
      else if name = ''Read'' then
        Some (zero_activity\<lparr>ta_kind := ''read'', ta_files := [zero_file\<lparr>fa_path := field_text p ''file_path'', fa_action := ''read''\<rparr>]\<rparr>)
      else if name = ''Skill'' then
        Some (zero_activity\<lparr>ta_kind := ''tool'', ta_description := ''Skill'' @
          concat (map (\<lambda>k. let v = TrimSpace (field_text p k) in if v = [] then [] else '' '' @ v) [''skill'', ''args''])\<rparr>)
      else None)"

definition dec_change :: "(string \<times> string \<times> json option) dec" where
  "dec_change = dec_struct (\<lambda>kvs (p, d, k).
     let (a, oka) = dec_field ''Path'' dec_string kvs p;
         (b, okb) = dec_field ''Diff'' dec_string kvs d;
         (c, okc) = dec_field ''Kind'' dec_raw kvs k
     in ((a, b, c), oka \<and> okb \<and> okc))"

definition change_activity :: "string \<times> string \<times> json option \<Rightarrow> file_activity" where
  "change_activity = (\<lambda>(p, diff, k).
     let kind = object k;
         action = field_text kind ''type'';
         action = (if action = [] then fst (unmarshal_payload dec_string k []) else action);
         (added, removed, known) = diffCounts diff
     in zero_file\<lparr>fa_path := p, fa_move := field_text kind ''move_path'', fa_action := (if action = [] then ''edit'' else action),
          fa_added := added, fa_removed := removed, fa_measure := (if known then ''diff'' else ''unknown'')\<rparr>)"

definition codex_view :: "(string \<Rightarrow> string list option) \<Rightarrow> (string, json) gomap \<Rightarrow> tool_activity option" where
  "codex_view words p =
     (let item = child p ''item''; t = field_text item ''type'' in
      if t = ''commandExecution'' then
        (let (shell, script) = Unwrap words (field_text item ''command'') in
         Some (zero_activity\<lparr>ta_kind := ''command'', ta_command := script, ta_shell := shell\<rparr>))
      else if t = ''fileChange'' then
        (case unmarshal_payload (dec_list ([], [], None) dec_change) (map_of item ''changes'') [] of (changes, ok) \<Rightarrow>
           if \<not> ok then None
           else Some (zero_activity\<lparr>ta_kind := ''files'', ta_files := map change_activity changes\<rparr>))
      else None)"

definition ToolView :: "(string \<Rightarrow> string list option) \<Rightarrow> string \<Rightarrow> string \<Rightarrow> json option \<Rightarrow> tool_activity option" where
  "ToolView words provider name raw =
     (if provider = ''claude'' then claude_view words name (object raw)
      else if provider = ''codex'' then codex_view words (object raw)
      else None)"

section \<open>Failed authentication\<close>

definition word_byte :: "char \<Rightarrow> bool" where
  "word_byte c \<longleftrightarrow> is_digit c \<or> c = CHR ''_'' \<or> (byte (lower c) \<ge> 97 \<and> byte (lower c) \<le> 122)"

text \<open>\<open>(?i)^api error:\\s*401\\b\<close> on a text in lower case.\<close>

definition api_error_401 :: "string \<Rightarrow> bool" where
  "api_error_401 s \<longleftrightarrow> prefix ''api error:'' s \<and>
     (let r = dropWhile (\<lambda>c. byte c \<in> {9, 10, 12, 13, 32}) (drop 10 s)
      in prefix ''401'' r \<and> (drop 3 r = [] \<or> \<not> word_byte (hd (drop 3 r))))"

definition auth_texts :: "string set" where
  "auth_texts = {''authentication failed'', ''not logged in'', ''login required'',
     ''not logged in '' @ utf8 0xB7 @ '' please run /login'', ''not logged in. please run /login'',
     ''central codex login failed'', ''central authentication unavailable; check account login'',
     ''central authentication refresh failed'',
     ''failed to authenticate: oauth session expired and could not be refreshed''}"

text \<open>Letters past ASCII stay as they are.\<close>

definition authErrorText :: "string \<Rightarrow> bool" where
  "authErrorText s = (let t = map lower (TrimSpace s) in t \<in> auth_texts \<or> api_error_401 t)"

definition auth_code :: "json option \<Rightarrow> bool" where
  "auth_code v = (unmarshal_payload dec_int64 v 0 = (401, True))"

definition auth_words :: "string set" where
  "auth_words = {''authentication_error'', ''authentication_failed'', ''unauthorized'', ''invalid_api_key'', ''token_expired''}"

text \<open>The levels left: the depth of the source counts up to four.\<close>

primrec auth_levels :: "nat \<Rightarrow> json option \<Rightarrow> bool" where
  "auth_levels 0 raw = False"
| "auth_levels (Suc n) raw =
     (let f = object raw in
      if f = [] then (case unmarshal_payload dec_string raw [] of (t, ok) \<Rightarrow> ok \<and> authErrorText t)
      else if unmarshal_payload dec_bool (map_of f ''willRetry'') False = (True, True) then False
      else if list_ex (\<lambda>k. auth_code (map_of f k)) [''api_error_status'', ''status'', ''status_code'', ''httpStatusCode'', ''code'']
      then True
      else if field_text f ''type'' \<in> auth_words \<or> field_text f ''code'' \<in> auth_words then True
      else if field_text f ''type'' = ''result'' \<and> map_of f ''is_error'' = Some (JBool True) \<and> authErrorText (field_text f ''result'')
      then True
      else authErrorText (field_text f ''message'') \<or> auth_levels n (map_of f ''error'') \<or>
        list_ex (auth_levels n) (fst (unmarshal_payload (dec_list None dec_raw) (map_of f ''errors'') [])))"

definition authErrorPayload :: "json option \<Rightarrow> bool" where
  "authErrorPayload = auth_levels 5"

definition AuthenticationFailed :: "event \<Rightarrow> bool" where
  "AuthenticationFailed e \<longleftrightarrow>
     (ev_kind e = ''turn_end'' \<and> ev_text e = ''failed'' \<or> ev_kind e \<in> {''diagnostic'', ''stderr'', ''error''}) \<and>
     map_of (object (ev_payload e)) ''willRetry'' \<noteq> Some (JBool True) \<and>
     (authErrorText (ev_text e) \<or> authErrorPayload (ev_payload e))"

end
