(* ===== verification/Transcript.thy ===== *)
theory Transcript
  imports Views
begin

text \<open>
  The reading history (\<^verbatim>\<open>transcripthistory\<close>): the records of a conversation reduced to the rows a
  reader sees.  A row is the event it stands for, with a summary when it is a tool call; folding a
  later record into a row publishes a new version of it.
\<close>

record view_lib =
  vl_lib :: lib
  vl_words :: "string \<Rightarrow> string list option"

record tool_summary =
  ts_name :: string
  ts_shell :: string
  ts_command :: string
  ts_state :: string
  ts_files :: "file_activity list"
  ts_omitted :: nat
  ts_kind :: string
  ts_description :: string
  ts_server :: string

record row =
  rw_event :: event
  rw_summary :: "tool_summary option"

abbreviation row_seq :: "row \<Rightarrow> nat" where "row_seq v \<equiv> ev_seq (rw_event v)"
abbreviation row_kind :: "row \<Rightarrow> string" where "row_kind v \<equiv> ev_kind (rw_event v)"

definition plain_row :: "event \<Rightarrow> row" where
  "plain_row e = \<lparr>rw_event = e, rw_summary = None\<rparr>"

record projection =
  pj_versions :: "(nat \<times> nat \<times> row) list"
  pj_rows :: "(nat, row) gomap"
  pj_tools :: "(string, row) gomap"
  pj_approvals :: "(string, string) gomap"
  pj_questions :: "(string, row) gomap"
  pj_last :: "(string, row) gomap"
  pj_input :: "(string, int) gomap"
  pj_input_seq :: "(string, nat) gomap"

definition new_projection :: projection where
  "new_projection = \<lparr>pj_versions = [], pj_rows = [], pj_tools = [], pj_approvals = [], pj_questions = [], pj_last = [],
     pj_input = [], pj_input_seq = []\<rparr>"

section \<open>Payloads\<close>

text \<open>\<open>object\<close>, \<open>child\<close> and \<open>text\<close> over values of type any; the error of a number out of range is
  ignored and leaves null.\<close>

definition quiet_lib :: "lib \<Rightarrow> lib" where
  "quiet_lib lib = lib\<lparr>lb_float := (\<lambda>l. Some (case lb_float lib l of None \<Rightarrow> JNull | Some v \<Rightarrow> v))\<rparr>"

definition view_object :: "lib \<Rightarrow> json option \<Rightarrow> (string, json) gomap" where
  "view_object lib raw =
     (case raw of
        None \<Rightarrow> []
      | Some j \<Rightarrow> (case canon (quiet_lib lib) j of Some (JObj kvs) \<Rightarrow> kvs | _ \<Rightarrow> []))"

definition any_child :: "(string, json) gomap \<Rightarrow> string \<Rightarrow> (string, json) gomap" where
  "any_child p k = (case map_of p k of Some (JObj kvs) \<Rightarrow> kvs | _ \<Rightarrow> [])"

definition any_text :: "(string, json) gomap \<Rightarrow> string \<Rightarrow> string" where
  "any_text p k = (case map_of p k of Some (JStr s) \<Rightarrow> s | _ \<Rightarrow> [])"

definition any_number :: "(string, json) gomap \<Rightarrow> string \<Rightarrow> json option" where
  "any_number p k = (case map_of p k of Some (JInt i) \<Rightarrow> Some (JInt i) | Some (JReal l) \<Rightarrow> Some (JReal l) | _ \<Rightarrow> None)"

definition nonneg :: "json option \<Rightarrow> bool" where
  "nonneg v = (case v of Some (JInt i) \<Rightarrow> 0 \<le> i | Some (JReal l) \<Rightarrow> l \<noteq> [] \<and> hd l \<noteq> CHR ''-'' | _ \<Rightarrow> False)"

definition isQuestion :: "event \<Rightarrow> bool" where
  "isQuestion e \<longleftrightarrow> ev_kind e = ''approval'' \<and> ev_text e \<in> {''AskUserQuestion'', ''item/tool/requestUserInput'', CodexAsyncQuestion}"

definition identity :: "string \<Rightarrow> string \<Rightarrow> string" where
  "identity run rid = run @ CHR 0x00 # rid"

definition related :: "lib \<Rightarrow> event \<Rightarrow> string" where
  "related lib e =
     (let p = view_object lib (ev_payload e) in
      if isQuestion e then []
      else if any_text p ''tool_use_id'' \<noteq> [] then any_text p ''tool_use_id''
      else any_text (any_child p ''params'') ''itemId'')"

definition hidden :: "string set" where
  "hidden = {''raw'', ''state'', ''vendor'', ''intent'', ''receipt'', ''approval_resolved'', ''models'', ''models_status'', ''usage'',
     ''usage_status'', ''background'', ''history_checkpoint'', ''fork_boundary''}"

section \<open>The summary of a tool call\<close>

definition mcpServer :: "string \<Rightarrow> (string, json) gomap \<Rightarrow> string" where
  "mcpServer name data =
     (let item = any_child data ''item'' in
      if any_text item ''type'' = ''mcpToolCall'' then clip (any_text item ''server'') 160
      else
        let r = drop 5 name;
            server = takeWhile (\<lambda>n. \<not> prefix ''__'' (drop n r)) [0..<length r];
            n = length server;
            tool = drop (n + 2) r
        in if prefix ''mcp__'' name \<and> prefix ''__'' (drop n r) \<and> tool \<noteq> [] then clip (take n r) 160
           else case find (\<lambda>s. prefix (s @ ''_'') name \<or> prefix (s @ ''.'') name) [''cxz_memory'', ''cxz_tasks''] of
               None \<Rightarrow> [] | Some s \<Rightarrow> s)"

definition file_summary :: "file_activity \<Rightarrow> file_activity" where
  "file_summary f = f\<lparr>fa_path := clip (fa_path f) 1024, fa_move := clip (fa_move f) 1024, fa_added := fa_added f mod 2 ^ 32,
     fa_removed := fa_removed f mod 2 ^ 32, fa_lines := fa_lines f mod 2 ^ 32\<rparr>"

definition change_paths :: "(string, json) gomap \<Rightarrow> string list option" where
  "change_paths item =
     (case map_of item ''changes'' of
        Some (JArr xs) \<Rightarrow> Some (filter (\<lambda>s. s \<noteq> []) (map (\<lambda>x. case x of JObj kvs \<Rightarrow> any_text kvs ''path'' | _ \<Rightarrow> []) xs))
      | _ \<Rightarrow> None)"

definition tool_label :: "view_lib \<Rightarrow> event \<Rightarrow> tool_summary" where
  "tool_label w e =
     (let data = view_object (vl_lib w) (ev_payload e);
          item = any_child data ''item'';
          t = any_text item ''type'';
          name = (if t = ''commandExecution'' then ''Bash'' else if t = ''fileChange'' then ''Files''
                  else if t \<noteq> [] then t else ev_text e);
          input = (case map_of data ''input'' of Some (JObj kvs) \<Rightarrow> kvs | _ \<Rightarrow> data);
          command = (if any_text item ''command'' \<noteq> [] then any_text item ''command'' else any_text input ''command'');
          (shell, shown) = (if command \<noteq> [] then Unwrap (vl_words w) command
                            else ([], case change_paths item of Some fs \<Rightarrow> join '', '' fs | None \<Rightarrow> any_text input ''file_path''));
          name = (if name = [] then ''Tool'' else name);
          provider = (if t \<noteq> [] then ''codex'' else ''claude'');
          (kind, description, files) = (case ToolView (vl_words w) provider (ev_text e) (ev_payload e) of
              None \<Rightarrow> (''tool'', [], [])
            | Some a \<Rightarrow> (ta_kind a, clip (ta_description a) 1024, ta_files a))
      in \<lparr>ts_name = clip name 160, ts_shell = shell, ts_command = clip shown 1024,
          ts_state = (if any_text item ''status'' = ''inProgress'' then ''working'' else ''pending''),
          ts_files = map file_summary (take 256 files), ts_omitted = (length files - 256) mod 2 ^ 32,
          ts_kind = kind, ts_description = description, ts_server = mcpServer (ev_text e) data\<rparr>)"

definition row_summary :: "view_lib \<Rightarrow> event \<Rightarrow> row" where
  "row_summary w e =
     (let label = tool_label w e
      in \<lparr>rw_event = e\<lparr>ev_payload := None, ev_text := ts_name label\<rparr>, rw_summary = Some label\<rparr>)"

definition tool_failed :: "lib \<Rightarrow> event \<Rightarrow> bool" where
  "tool_failed lib e \<longleftrightarrow>
     (let p = view_object lib (ev_payload e); item = any_child p ''item'' in
      map_of p ''is_error'' = Some (JBool True) \<or>
      any_number item ''exitCode'' \<notin> {None, Some (JInt 0)} \<or>
      any_text item ''status'' \<in> {''failed'', ''denied'', ''declined'', ''canceled'', ''cancelled'', ''interrupted''})"

section \<open>Applying a record\<close>

definition put_row_version :: "row \<Rightarrow> nat \<Rightarrow> projection \<Rightarrow> projection" where
  "put_row_version v updated p = p\<lparr>pj_rows := AList.update (row_seq v) v (pj_rows p),
     pj_versions := pj_versions p @ [(row_seq v, updated, v)]\<rparr>"

definition state_of_row :: "row \<Rightarrow> string" where
  "state_of_row v = (case rw_summary v of None \<Rightarrow> [] | Some t \<Rightarrow> ts_state t)"

definition with_state :: "string \<Rightarrow> row \<Rightarrow> row" where
  "with_state st v = v\<lparr>rw_summary := map_option (\<lambda>t. t\<lparr>ts_state := st\<rparr>) (rw_summary v)\<rparr>"

definition finished :: "string \<Rightarrow> bool" where
  "finished st \<longleftrightarrow> st = ''completed'' \<or> st = ''failed''"

definition set_tool :: "string \<Rightarrow> row \<Rightarrow> nat \<Rightarrow> projection \<Rightarrow> projection" where
  "set_tool key v updated p = put_row_version v updated (p\<lparr>pj_tools := AList.update key v (pj_tools p)\<rparr>)"

text \<open>What a result adds to the row of its call: the files a change names only when it is done.\<close>

definition with_result :: "view_lib \<Rightarrow> event \<Rightarrow> row \<Rightarrow> row" where
  "with_result w e v =
     (let r = tool_label w e;
          item = any_child (view_object (vl_lib w) (ev_payload e)) ''item'';
          v = (if any_text item ''type'' = ''fileChange'' \<and> ts_files r \<noteq> []
               then v\<lparr>rw_summary := map_option (\<lambda>t. t\<lparr>ts_files := ts_files r, ts_omitted := ts_omitted r, ts_command := ts_command r\<rparr>)
                       (rw_summary v)\<rparr> else v)
      in with_state (if tool_failed (vl_lib w) e then ''failed'' else ''completed'') v)"

definition tool_key :: "event \<Rightarrow> string" where
  "tool_key e = identity (ev_run e) (ev_request e)"

text \<open>The row of the call a record belongs to; the record's own when there is none or it opens the call.\<close>

definition called_row :: "view_lib \<Rightarrow> (string \<Rightarrow> string \<Rightarrow> row option) \<Rightarrow> event \<Rightarrow> projection \<Rightarrow> row" where
  "called_row w resolve e p =
     (let known = map_of (pj_tools p) (tool_key e);
          found = (if known = None \<and> ev_kind e \<noteq> ''tool_call'' then resolve (ev_run e) (ev_request e) else known)
      in case found of None \<Rightarrow> row_summary w e | Some v \<Rightarrow> if ev_kind e = ''tool_call'' then row_summary w e else v)"

definition apply_tool :: "view_lib \<Rightarrow> (string \<Rightarrow> string \<Rightarrow> row option) \<Rightarrow> event \<Rightarrow> projection \<Rightarrow> projection" where
  "apply_tool w resolve e p =
     (let v = called_row w resolve e p
      in if ev_kind e = ''tool_result'' then set_tool (tool_key e) (with_result w e v) (ev_seq e) p
         else if ev_kind e = ''tool_output'' then
           (if finished (state_of_row v) \<or> (map_of (pj_tools p) (tool_key e) \<noteq> None \<and> state_of_row v = ''working'') then p
            else set_tool (tool_key e) (with_state ''working'' v) (ev_seq e) p)
         else set_tool (tool_key e) v (ev_seq e) p)"

text \<open>A record that is a row of its own, unless its kind is not shown.\<close>

definition diagnostic_payload :: "view_lib \<Rightarrow> event \<Rightarrow> (string, json) gomap" where
  "diagnostic_payload w e =
     (let data = view_object (vl_lib w) (ev_payload e);
          native = any_child data ''error'';
          auth = AuthenticationFailed e;
          messages = [any_text native ''message'', any_text data ''message'', any_text data ''error''] @
            (if auth \<and> length (any_text data ''result'') \<le> 1024 then [any_text data ''result''] else []);
          d = (if auth then [(''authentication_required'', JBool True)] else []);
          d = (case find (\<lambda>m. TrimSpace m \<noteq> []) messages of None \<Rightarrow> d | Some m \<Rightarrow> AList.update ''message'' (JStr m) d);
          code = any_text native ''codexErrorInfo'';
          d = (if code \<noteq> [] then AList.update ''error'' (JObj [(''codexErrorInfo'', JStr code)]) d else d)
      in case map_of data ''willRetry'' of Some (JBool b) \<Rightarrow> AList.update ''willRetry'' (JBool b) d | _ \<Rightarrow> d)"

definition without_body :: "event \<Rightarrow> event" where
  "without_body e = (if ev_kind e \<noteq> ''approval'' \<and> ev_kind e \<noteq> HistoryTrimmedKind then e\<lparr>ev_payload := None\<rparr> else e)"

definition with_diagnostic :: "view_lib \<Rightarrow> event \<Rightarrow> event \<Rightarrow> event" where
  "with_diagnostic w e v =
     (let d = (if ev_kind e \<in> {''diagnostic'', ''stderr'', ''error''} \<or> (ev_kind e = ''turn_end'' \<and> ev_text e = ''failed'')
               then diagnostic_payload w e else [])
      in if d \<noteq> [] then v\<lparr>ev_payload := Some (map_json (\<lambda>j. j) d)\<rparr> else v)"

definition with_phase :: "view_lib \<Rightarrow> event \<Rightarrow> event \<Rightarrow> event" where
  "with_phase w e v =
     (let phase = any_text (any_child (view_object (vl_lib w) (ev_payload e)) ''item'') ''phase''
      in if ev_kind e = ''assistant'' \<and> ev_response v = None \<and> phase \<noteq> []
         then v\<lparr>ev_response := Some (zero_metadata\<lparr>rm_phase := phase\<rparr>)\<rparr> else v)"

definition shown_event :: "view_lib \<Rightarrow> event \<Rightarrow> event" where
  "shown_event w e = with_phase w e (with_diagnostic w e (without_body e))"

definition apply_row :: "view_lib \<Rightarrow> event \<Rightarrow> projection \<Rightarrow> projection" where
  "apply_row w e p = (if ev_kind e \<in> hidden then p else put_row_version (plain_row (shown_event w e)) (ev_seq e) p)"

definition apply_approval :: "view_lib \<Rightarrow> event \<Rightarrow> projection \<Rightarrow> projection" where
  "apply_approval w e p =
     (let key = tool_key e;
          p = p\<lparr>pj_questions := AList.update key (plain_row e) (pj_questions p)\<rparr>;
          rid = related (vl_lib w) e
      in if rid = [] then apply_row w e p
         else
           let tool = identity (ev_run e) rid;
               p = p\<lparr>pj_approvals := AList.update key tool (pj_approvals p)\<rparr>
           in case map_of (pj_tools p) tool of
                None \<Rightarrow> apply_row w e p
              | Some v \<Rightarrow> if finished (state_of_row v) then p else set_tool tool (with_state ''pending'' v) (ev_seq e) p)"

text \<open>The answer folded into the row that asked, and the state of the tool call it was about.\<close>

definition resolved_row :: "view_lib \<Rightarrow> event \<Rightarrow> row \<Rightarrow> row" where
  "resolved_row w e v =
     (let data = view_object (vl_lib w) (ev_payload (rw_event v));
          resolution = AList.update ''state'' (JStr (ev_text e)) (view_object (vl_lib w) (ev_payload e))
      in v\<lparr>rw_event := (rw_event v)\<lparr>ev_payload := Some (map_json (\<lambda>j. j)
           (AList.update ''cxz_resolution'' (map_json (\<lambda>j. j) resolution) data))\<rparr>\<rparr>)"

definition fold_answer :: "view_lib \<Rightarrow> event \<Rightarrow> projection \<Rightarrow> projection" where
  "fold_answer w e p =
     (case map_of (pj_questions p) (tool_key e) of
        Some request \<Rightarrow>
          if has_key (pj_rows p) (row_seq request) then
            let v = resolved_row w e request
            in put_row_version v (ev_seq e) (p\<lparr>pj_questions := AList.update (tool_key e) v (pj_questions p)\<rparr>)
          else p
      | None \<Rightarrow> p)"

definition decide_tool :: "event \<Rightarrow> projection \<Rightarrow> projection" where
  "decide_tool e p =
     (let tool = get_or [] (pj_approvals p) (tool_key e)
      in case map_of (pj_tools p) tool of
           None \<Rightarrow> p
         | Some v \<Rightarrow>
             if finished (state_of_row v) then p
             else set_tool tool (with_state (if ev_text e = ''allowed'' then ''working'' else ''failed'') v) (ev_seq e) p)"

definition apply_resolved :: "view_lib \<Rightarrow> event \<Rightarrow> projection \<Rightarrow> projection" where
  "apply_resolved w e p = decide_tool e (fold_answer w e p)"

section \<open>The end of a turn\<close>

fun dec_quoted :: "nat dec" where
  "dec_quoted (JStr s) d =
     (if s = ''null'' then (d, True)
      else if s \<noteq> [] \<and> list_all is_digit s \<and> read_nat s < 2 ^ 64 then (read_nat s, True)
      else (d, False))"
| "dec_quoted JNull d = (d, True)"
| "dec_quoted _ d = (d, False)"

definition row_phase :: "row \<Rightarrow> string" where
  "row_phase v = (case ev_response (rw_event v) of None \<Rightarrow> [] | Some m \<Rightarrow> rm_phase m)"

definition completion_of :: "event \<Rightarrow> string" where
  "completion_of e = (case ev_response e of None \<Rightarrow> [] | Some m \<Rightarrow> rm_completion m)"

definition usage_metrics :: "(string, json) gomap \<Rightarrow> (string, json) gomap" where
  "usage_metrics payload =
     (let pick = (\<lambda>src m (native, common). case any_number src native of
          Some v \<Rightarrow> if nonneg (Some v) then AList.update common v m else m | None \<Rightarrow> m)
      in foldl (pick payload)
           (foldl (pick (any_child payload ''usage'')) []
             [(''input_tokens'', ''input_tokens''), (''output_tokens'', ''output_tokens''),
              (''cache_read_input_tokens'', ''cache_read_tokens''), (''cache_creation_input_tokens'', ''cache_write_tokens'')])
           [(''total_cost_usd'', ''cost_usd''), (''duration_api_ms'', ''api_duration_ms''), (''num_turns'', ''api_turns'')])"

definition turn_completion :: "view_lib \<Rightarrow> event \<Rightarrow> row \<Rightarrow> projection \<Rightarrow> string" where
  "turn_completion w e target p =
     (let payload = view_object (vl_lib w) (ev_payload e);
          duration = (case any_number payload ''duration_ms'' of
              Some v \<Rightarrow> Some v | None \<Rightarrow> any_number (any_child payload ''turn'') ''durationMs'');
          start = get_or 0 (pj_input p) (ev_run e);
          timed = (if nonneg duration then [(''duration_ms'', the duration), (''duration_source'', JStr ''provider'')]
                   else if 0 < start \<and> start \<le> ev_time e
                   then [(''duration_ms'', JInt (ev_time e - start)), (''duration_source'', JStr ''cxz'')]
                   else [])
      in print_json (map_json (\<lambda>j. j) (timed @ [(''metrics'', map_json (\<lambda>j. j) (usage_metrics payload)),
           (''response_seq'', JStr (show_nat (row_seq target))), (''token_scope'', JStr ''turn'')])))"

text \<open>The row a completed turn is folded into, and what is folded.\<close>

definition turn_target :: "view_lib \<Rightarrow> event \<Rightarrow> projection \<Rightarrow> (row \<times> string) option" where
  "turn_target w e p =
     (let given = completion_of e in
      if given \<noteq> [] then
        (case unmarshal (dec_struct (\<lambda>kvs v. dec_field ''response_seq'' dec_quoted kvs v)) given 0 of
           (n, ok) \<Rightarrow> if ok then map_option (\<lambda>v. (v, given)) (map_of (pj_rows p) n) else None)
      else
        case map_of (pj_last p) (ev_run e) of
          None \<Rightarrow> None
        | Some l \<Rightarrow> (case map_of (pj_rows p) (row_seq l) of
              None \<Rightarrow> None
            | Some v \<Rightarrow> if row_phase v \<noteq> [] \<and> row_phase v \<noteq> ''final_answer'' then None
                        else Some (v, turn_completion w e v p)))"

definition with_completion :: "string \<Rightarrow> row \<Rightarrow> row" where
  "with_completion c v =
     (let m = (case ev_response (rw_event v) of None \<Rightarrow> zero_metadata | Some m \<Rightarrow> m)
      in v\<lparr>rw_event := (rw_event v)\<lparr>ev_response := Some (m\<lparr>rm_completion := c\<rparr>)\<rparr>\<rparr>)"

definition forget_turn :: "string \<Rightarrow> projection \<Rightarrow> projection" where
  "forget_turn run p = p\<lparr>pj_last := AList.delete run (pj_last p), pj_input := AList.delete run (pj_input p)\<rparr>"

definition apply_turn_end :: "view_lib \<Rightarrow> event \<Rightarrow> projection \<Rightarrow> projection" where
  "apply_turn_end w e p =
     (case (if ev_text e = ''completed'' then turn_target w e p else None) of
        Some (v, c) \<Rightarrow>
          if row_kind v = ''assistant'' \<and> ev_run (rw_event v) = ev_run e \<and> row_seq v < ev_seq e \<and>
             row_phase v \<noteq> ''commentary'' \<and> row_phase v \<noteq> ''subagent''
          then forget_turn (ev_run e) (put_row_version (with_completion c v) (ev_seq e) p)
          else apply_row w e (forget_turn (ev_run e) p)
      | None \<Rightarrow> apply_row w e (forget_turn (ev_run e) p))"

definition Apply_record :: "view_lib \<Rightarrow> (string \<Rightarrow> string \<Rightarrow> row option) \<Rightarrow> event \<Rightarrow> projection \<Rightarrow> projection" where
  "Apply_record w resolve e p =
     (let k = ev_kind e in
      if k = ''input'' then
        apply_row w e (p\<lparr>pj_input := AList.update (ev_run e) (ev_time e) (pj_input p),
          pj_input_seq := AList.update (ev_run e) (ev_seq e) (pj_input_seq p), pj_last := AList.delete (ev_run e) (pj_last p)\<rparr>)
      else if k = ''assistant'' then
        apply_row w e (p\<lparr>pj_last := AList.update (ev_run e) (plain_row e) (pj_last p)\<rparr>)
      else if k \<in> {''tool_call'', ''tool_result'', ''tool_output''} \<and> ev_request e \<noteq> [] then apply_tool w resolve e p
      else if k = ''approval'' then apply_approval w e p
      else if k = ''approval_resolved'' then apply_resolved w e p
      else if k = ''turn_end'' then apply_turn_end w e p
      else apply_row w e p)"

end
