(* ===== verification/Transcript_Sync.thy ===== *)
theory Transcript_Sync
  imports Transcript
begin

text \<open>
  The tables of the reading history and what keeps them current: \<open>Sync\<close> decides whether the record
  table was appended to, rebuilds or restores the reduced state, and publishes the new row versions;
  \<open>Page\<close>, \<open>Tail\<close> and \<open>Details\<close> read them.  \<open>FromEvents\<close>, \<open>VersionsFromEvents\<close> and
  \<open>DetailsFromEvents\<close> answer the same from a list of records.
\<close>

section \<open>The tables\<close>

text \<open>A record's body is decoded by the caller; \<open>sl_kind\<close> is \<open>json_extract(data, '$.kind')\<close>.\<close>

record store_lib =
  sl_view :: view_lib
  sl_decode :: "string \<Rightarrow> event option"
  sl_kind :: "string \<Rightarrow> string"

record stored_event =
  er_rowid :: nat
  er_session :: string
  er_seq :: nat
  er_data :: string

record version_row =
  vr_session :: string
  vr_seq :: nat
  vr_updated :: nat
  vr_row :: row

record record_row =
  rr_session :: string
  rr_seq :: nat
  rr_run :: string
  rr_request :: string
  rr_kind :: string
  rr_related :: string

record index =
  ix_events :: "stored_event list"
  ix_rows :: "version_row list"
  ix_records :: "record_row list"
  ix_state :: "(string, nat \<times> nat) gomap"
  ix_format :: "(string, nat) gomap"
  ix_seen :: "(string, nat) gomap"

definition projectionFormat :: nat where "projectionFormat = 7"

definition max_or_zero :: "nat list \<Rightarrow> nat" where
  "max_or_zero xs = foldr max xs 0"

definition min_or_zero :: "nat list \<Rightarrow> nat" where
  "min_or_zero xs = (if xs = [] then 0 else min_list xs)"

definition events_of :: "index \<Rightarrow> string \<Rightarrow> stored_event list" where
  "events_of st sid = sort_key er_seq (filter (\<lambda>r. er_session r = sid) (ix_events st))"

definition rows_of :: "index \<Rightarrow> string \<Rightarrow> version_row list" where
  "rows_of st sid = filter (\<lambda>v. vr_session v = sid) (ix_rows st)"

definition records_of :: "index \<Rightarrow> string \<Rightarrow> record_row list" where
  "records_of st sid = sort_key rr_seq (filter (\<lambda>r. rr_session r = sid) (ix_records st))"

definition put_record :: "record_row \<Rightarrow> record_row list \<Rightarrow> record_row list" where
  "put_record r rs = filter (\<lambda>x. \<not> (rr_session x = rr_session r \<and> rr_seq x = rr_seq r)) rs @ [r]"

definition put_version :: "version_row \<Rightarrow> version_row list \<Rightarrow> version_row list" where
  "put_version v vs = filter (\<lambda>x. \<not> (vr_session x = vr_session v \<and> vr_seq x = vr_seq v \<and> vr_updated x = vr_updated v)) vs @ [v]"

definition indexed :: "lib \<Rightarrow> string \<Rightarrow> event \<Rightarrow> record_row" where
  "indexed lib sid e = \<lparr>rr_session = sid, rr_seq = ev_seq e, rr_run = ev_run e, rr_request = ev_request e, rr_kind = ev_kind e,
     rr_related = related lib e\<rparr>"

section \<open>The reduced state between syncs\<close>

definition last_by_run :: "string \<Rightarrow> record_row list \<Rightarrow> string \<Rightarrow> nat" where
  "last_by_run kind rs run = max_or_zero (map rr_seq (filter (\<lambda>r. rr_kind r = kind \<and> rr_run r = run) rs))"

definition openTurn :: "record_row list \<Rightarrow> nat" where
  "openTurn rs =
     (let inputs = filter (\<lambda>r. rr_kind r = ''input'') rs;
          open_runs = filter (\<lambda>run. last_by_run ''turn_end'' rs run < last_by_run ''input'' rs run) (map rr_run inputs)
      in if inputs = [] then 0
         else if open_runs = [] then max_or_zero (map rr_seq (filter (\<lambda>r. rr_kind r = ''turn_end'') rs))
         else min_list (map (last_by_run ''input'' rs) open_runs))"

definition prune :: "nat \<Rightarrow> projection \<Rightarrow> projection" where
  "prune floor p = p\<lparr>pj_rows := filter (\<lambda>(seq, v). floor \<le> seq) (pj_rows p),
     pj_tools := filter (\<lambda>(k, v). floor \<le> row_seq v) (pj_tools p),
     pj_questions := filter (\<lambda>(k, v). floor \<le> row_seq v) (pj_questions p)\<rparr>"

record cache =
  ca_projection :: "projection option"
  ca_first :: nat
  ca_last :: nat
  ca_format :: nat

text \<open>A caller without a cache passes nil: \<open>None\<close>.\<close>

definition Cache_use :: "cache option \<Rightarrow> nat \<Rightarrow> nat \<Rightarrow> nat \<Rightarrow> projection option" where
  "Cache_use c first l format =
     (case c of
        None \<Rightarrow> None
      | Some c \<Rightarrow>
          if ca_format c \<noteq> format \<or> ca_first c \<noteq> first \<or> ca_last c \<noteq> l then None
          else map_option (\<lambda>p. p\<lparr>pj_versions := []\<rparr>) (ca_projection c))"

definition Cache_keep :: "cache option \<Rightarrow> projection \<Rightarrow> nat \<Rightarrow> nat \<Rightarrow> nat \<Rightarrow> cache option" where
  "Cache_keep c p first l format =
     map_option (\<lambda>_. \<lparr>ca_projection = Some p, ca_first = first, ca_last = l, ca_format = format\<rparr>) c"

definition Cache_Drop :: "cache option \<Rightarrow> cache option" where
  "Cache_Drop c = map_option (\<lambda>c. c\<lparr>ca_projection := None\<rparr>) c"

text \<open>The version of each row published last, by \<open>seq\<close>.\<close>

definition newest_version :: "version_row list \<Rightarrow> version_row \<Rightarrow> bool" where
  "newest_version vs v \<longleftrightarrow> list_all (\<lambda>x. vr_seq x = vr_seq v \<longrightarrow> vr_updated x \<le> vr_updated v) vs"

definition restore_row :: "row \<Rightarrow> projection \<Rightarrow> projection" where
  "restore_row v p =
     (let e = rw_event v; key = identity (ev_run e) (ev_request e);
          p = p\<lparr>pj_rows := AList.update (row_seq v) v (pj_rows p)\<rparr>;
          p = (if isQuestion e then p\<lparr>pj_questions := AList.update key v (pj_questions p)\<rparr> else p);
          p = (if rw_summary v \<noteq> None then p\<lparr>pj_tools := AList.update key v (pj_tools p)\<rparr> else p);
          p = (if ev_kind e = ''assistant'' \<and> completion_of e = [] then p\<lparr>pj_last := AList.update (ev_run e) v (pj_last p)\<rparr> else p)
      in if ev_kind e = ''input''
         then p\<lparr>pj_last := AList.delete (ev_run e) (pj_last p), pj_input := AList.update (ev_run e) (ev_time e) (pj_input p),
                pj_input_seq := AList.update (ev_run e) (ev_seq e) (pj_input_seq p)\<rparr>
         else p)"

definition restore_end :: "record_row list \<Rightarrow> string \<Rightarrow> projection \<Rightarrow> projection" where
  "restore_end rs run p =
     (let seq = last_by_run ''turn_end'' rs run;
          p = (case map_of (pj_last p) run of
                 Some v \<Rightarrow> if row_seq v \<le> seq then p\<lparr>pj_last := AList.delete run (pj_last p)\<rparr> else p
               | None \<Rightarrow> p)
      in if get_or 0 (pj_input_seq p) run \<le> seq then p\<lparr>pj_input := AList.delete run (pj_input p)\<rparr> else p)"

definition restore_approval :: "record_row \<Rightarrow> projection \<Rightarrow> projection" where
  "restore_approval r p = p\<lparr>pj_approvals := AList.update (identity (rr_run r) (rr_request r)) (identity (rr_run r) (rr_related r))
     (pj_approvals p)\<rparr>"

definition restore :: "version_row list \<Rightarrow> record_row list \<Rightarrow> projection" where
  "restore vs rs =
     (let live = sort_key vr_seq (filter (\<lambda>v. openTurn rs \<le> vr_seq v \<and> newest_version vs v) vs);
          p = fold restore_row (map vr_row live) new_projection;
          p = fold (restore_end rs) (remdups (map rr_run (filter (\<lambda>r. rr_kind r = ''turn_end'') rs))) p
      in fold restore_approval (filter (\<lambda>r. rr_kind r = ''approval'' \<and> rr_related r \<noteq> []) rs) p)"

text \<open>The row a record belongs to when the reduced state does not carry it.\<close>

definition resolve_row :: "version_row list \<Rightarrow> record_row list \<Rightarrow> string \<Rightarrow> string \<Rightarrow> row option" where
  "resolve_row vs rs run request =
     (case map rr_seq (filter (\<lambda>r. rr_run r = run \<and> rr_request r = request) rs) of
        [] \<Rightarrow> None
      | ns \<Rightarrow> (case find (\<lambda>v. vr_seq v = min_list ns \<and> newest_version vs v) vs of
                None \<Rightarrow> None
              | Some v \<Rightarrow> if rw_summary (vr_row v) = None then None else Some (vr_row v)))"

section \<open>Sync\<close>

datatype sync_error = Undecodable

datatype plan = Nothing_new | Remember | Rebuild | Append

text \<open>What a look at the tables decides.\<close>

definition sync_plan :: "string \<Rightarrow> index \<Rightarrow> plan" where
  "sync_plan sid st =
     (let written = max_or_zero (map er_rowid (ix_events st));
          first = min_or_zero (map er_seq (events_of st sid));
          l = max_or_zero (map er_seq (events_of st sid));
          (oldFirst, oldLast) = get_or (0, 0) (ix_state st) sid;
          seen = get_or 0 (ix_seen st) sid;
          current = has_key (ix_state st) sid \<and> get_or 0 (ix_format st) sid = projectionFormat;
          behind = list_ex (\<lambda>r. seen < er_rowid r \<and> er_session r = sid \<and> er_seq r \<le> oldLast) (ix_events st)
      in if current \<and> seen = written \<and> oldFirst = first \<and> oldLast = l then Nothing_new
         else if \<not> current \<or> oldFirst \<noteq> first \<or> l < oldLast then Rebuild
         else if has_key (ix_seen st) sid then
           (if \<not> behind \<and> oldFirst = first \<and> oldLast = l then Remember else if behind then Rebuild else Append)
         else if oldFirst = first \<and> oldLast = l then Remember
         else Append)"

definition remember :: "string \<Rightarrow> index \<Rightarrow> index" where
  "remember sid st = st\<lparr>ix_seen := AList.update sid (max_or_zero (map er_rowid (ix_events st))) (ix_seen st)\<rparr>"

definition clear_session :: "string \<Rightarrow> index \<Rightarrow> index" where
  "clear_session sid st = st\<lparr>ix_rows := filter (\<lambda>v. vr_session v \<noteq> sid) (ix_rows st),
     ix_records := filter (\<lambda>r. rr_session r \<noteq> sid) (ix_records st)\<rparr>"

definition decode_all :: "store_lib \<Rightarrow> stored_event list \<Rightarrow> event list option" where
  "decode_all d rs = those (map (\<lambda>r. sl_decode d (er_data r)) rs)"

definition natives :: "store_lib \<Rightarrow> string \<Rightarrow> nat \<Rightarrow> index \<Rightarrow> event list option" where
  "natives d sid after st = decode_all d (filter (\<lambda>r. after < er_seq r \<and> sl_kind d (er_data r) \<noteq> ''raw'') (events_of st sid))"

definition apply_native :: "store_lib \<Rightarrow> string \<Rightarrow> event \<Rightarrow> index \<times> projection \<Rightarrow> index \<times> projection" where
  "apply_native d sid e = (\<lambda>(st, p).
     let st = st\<lparr>ix_records := put_record (indexed (vl_lib (sl_view d)) sid e) (ix_records st)\<rparr>
     in (st, Apply_record (sl_view d) (resolve_row (rows_of st sid) (records_of st sid)) e p))"

definition publish :: "string \<Rightarrow> projection \<Rightarrow> index \<Rightarrow> index" where
  "publish sid p st = st\<lparr>ix_rows := fold (\<lambda>(seq, updated, v). put_version \<lparr>vr_session = sid, vr_seq = seq, vr_updated = updated, vr_row = v\<rparr>)
     (pj_versions p) (ix_rows st)\<rparr>"

definition stamp_session :: "string \<Rightarrow> index \<Rightarrow> index" where
  "stamp_session sid st = (remember sid st)\<lparr>
     ix_state := AList.update sid (min_or_zero (map er_seq (events_of st sid)), max_or_zero (map er_seq (events_of st sid))) (ix_state st),
     ix_format := AList.update sid projectionFormat (ix_format st)\<rparr>"

text \<open>The reduced state a change starts from.\<close>

definition start_projection :: "string \<Rightarrow> index \<Rightarrow> cache option \<Rightarrow> projection" where
  "start_projection sid st c =
     (let (oldFirst, oldLast) = get_or (0, 0) (ix_state st) sid
      in if sync_plan sid st = Rebuild then new_projection
         else case Cache_use c oldFirst oldLast (get_or 0 (ix_format st) sid) of
             Some p \<Rightarrow> p
           | None \<Rightarrow> restore (rows_of st sid) (records_of st sid))"

definition sync_change :: "store_lib \<Rightarrow> string \<Rightarrow> index \<Rightarrow> cache option \<Rightarrow> (index \<times> projection) option" where
  "sync_change d sid st c =
     (let rebuild = (sync_plan sid st = Rebuild);
          after = (if rebuild then 0 else snd (get_or (0, 0) (ix_state st) sid));
          base = (if rebuild then clear_session sid st else st)
      in case natives d sid after base of
          None \<Rightarrow> None
        | Some es \<Rightarrow> Some (fold (apply_native d sid) es (base, start_projection sid st c)))"

text \<open>Publishing the versions and leaving the reduced state, as a restore would load it, to the cache.\<close>

definition commit_sync :: "string \<Rightarrow> cache option \<Rightarrow> index \<Rightarrow> projection \<Rightarrow> index \<times> cache option" where
  "commit_sync sid c st p =
     (let floor = openTurn (records_of st sid);
          p = (if c \<noteq> None \<and> 0 < floor then prune floor p else p);
          st' = stamp_session sid (publish sid p st);
          (first, l) = get_or (0, 0) (ix_state st') sid
      in (st', Cache_keep c p first l projectionFormat))"

text \<open>A sync that fails leaves the tables as they were and the cache empty.\<close>

definition SyncWith :: "store_lib \<Rightarrow> string \<Rightarrow> index \<Rightarrow> cache option \<Rightarrow> index \<times> cache option \<times> sync_error option" where
  "SyncWith d sid st c =
     (case sync_plan sid st of
        Nothing_new \<Rightarrow> (st, c, None)
      | Remember \<Rightarrow> (remember sid st, c, None)
      | _ \<Rightarrow>
          (case sync_change d sid st c of
             None \<Rightarrow> (st, Cache_Drop c, Some Undecodable)
           | Some (st', p) \<Rightarrow> (case commit_sync sid c st' p of (st'', c') \<Rightarrow> (st'', c', None))))"

definition Sync :: "store_lib \<Rightarrow> string \<Rightarrow> index \<Rightarrow> index \<times> sync_error option" where
  "Sync d sid st = (case SyncWith d sid st None of (st', _, e) \<Rightarrow> (st', e))"

section \<open>Reading\<close>

definition DefaultPage :: nat where "DefaultPage = 256"
definition MaxPage :: nat where "MaxPage = 1024"
definition metadataPerKind :: nat where "metadataPerKind = 32"

definition metadataKinds :: "string list" where
  "metadataKinds = [''models'', ''usage'', ''usage_status'', ''compact'', ''turn_end'']"

record page_request =
  pr_session :: string
  pr_before :: nat
  pr_after :: nat
  pr_snapshot :: nat
  pr_limit :: nat

record page_reply =
  pg_snapshot :: nat
  pg_events :: "row list"
  pg_metadata :: "event list"
  pg_older :: bool
  pg_newer :: bool
  pg_preceding :: "row option"

datatype page_error = Exclusive | Unreadable_record | No_longer_retained

definition pageLimit :: "nat \<Rightarrow> nat" where
  "pageLimit limit = (if limit = 0 then DefaultPage else min limit MaxPage)"

definition metadata :: "lib \<Rightarrow> event \<Rightarrow> event" where
  "metadata lib e =
     (if ev_kind e \<noteq> ''turn_end'' then e
      else
        let p = view_object lib (ev_payload e);
            data = [(''authentication_required'', JBool (AuthenticationFailed e))];
            data = (if any_child p ''modelUsage'' \<noteq> [] then data @ [(''modelUsage'', the (map_of p ''modelUsage''))] else data)
        in e\<lparr>ev_text := [], ev_payload := Some (map_json (\<lambda>j. j) data)\<rparr>)"

text \<open>The one version of each row a snapshot shows, in the order of the rows.\<close>

definition current_rows :: "index \<Rightarrow> string \<Rightarrow> nat \<Rightarrow> row list" where
  "current_rows st sid snap =
     (let vs = filter (\<lambda>v. vr_updated v \<le> snap) (rows_of st sid)
      in map vr_row (sort_key vr_seq (filter (\<lambda>v. row_kind (vr_row v) \<noteq> ''background'' \<and> newest_version vs v) vs)))"

definition last_n :: "nat \<Rightarrow> 'a list \<Rightarrow> 'a list" where
  "last_n n xs = drop (length xs - n) xs"

text \<open>The rows a request asks for, out of all the rows of its snapshot.\<close>

definition page_rows :: "page_request \<Rightarrow> row list \<Rightarrow> row list" where
  "page_rows r all =
     (let limit = pageLimit (pr_limit r) in
      if 0 < pr_after r then take limit (filter (\<lambda>v. pr_after r < row_seq v) all)
      else last_n limit (filter (\<lambda>v. pr_before r = 0 \<or> row_seq v < pr_before r) all))"

definition page_of :: "page_request \<Rightarrow> nat \<Rightarrow> row list \<Rightarrow> event list \<Rightarrow> page_reply" where
  "page_of r snap all meta =
     (let events = page_rows r all;
          first = row_seq (hd events);
          before = filter (\<lambda>v. row_seq v < first) all;
          inputs = filter (\<lambda>v. row_kind v = ''input'') before
      in \<lparr>pg_snapshot = snap, pg_events = events, pg_metadata = meta,
          pg_older = (events \<noteq> [] \<and> before \<noteq> []),
          pg_newer = (events \<noteq> [] \<and> list_ex (\<lambda>v. row_seq (last events) < row_seq v) all),
          pg_preceding = (if events = [] \<or> inputs = [] then None else Some (last inputs))\<rparr>)"

text \<open>The records of the metadata kinds a page carries, and their bodies.\<close>

definition metadata_seqs :: "record_row list \<Rightarrow> nat \<Rightarrow> nat list" where
  "metadata_seqs rs snap =
     sort (concat (map (\<lambda>k. last_n metadataPerKind (map rr_seq (filter (\<lambda>r. rr_kind r = k \<and> rr_seq r \<le> snap) rs))) metadataKinds))"

definition metadata_bodies :: "index \<Rightarrow> string \<Rightarrow> nat list \<Rightarrow> string list" where
  "metadata_bodies st sid seqs =
     concat (map (\<lambda>n. map er_data (filter (\<lambda>r. er_seq r = n) (events_of st sid))) seqs)"

definition page_snapshot :: "index \<Rightarrow> page_request \<Rightarrow> nat" where
  "page_snapshot st r = (if pr_snapshot r = 0 then max_or_zero (map er_seq (events_of st (pr_session r))) else pr_snapshot r)"

definition Page :: "store_lib \<Rightarrow> index \<Rightarrow> page_request \<Rightarrow> page_error + page_reply" where
  "Page d st r =
     (if 0 < pr_after r \<and> 0 < pr_before r then Inl Exclusive
      else
        let snap = page_snapshot st r in
        case those (map (sl_decode d) (metadata_bodies st (pr_session r) (metadata_seqs (records_of st (pr_session r)) snap))) of
          None \<Rightarrow> Inl Unreadable_record
        | Some es \<Rightarrow> Inr (page_of r snap (current_rows st (pr_session r) snap) (map (metadata (vl_lib (sl_view d))) es)))"

definition Tail :: "index \<Rightarrow> string \<Rightarrow> nat \<Rightarrow> nat \<Rightarrow> (row \<times> nat) list" where
  "Tail st sid after limit =
     map (\<lambda>v. (vr_row v, vr_updated v)) (take (if limit = 0 then 256 else limit)
       (sort_key vr_updated (sort_key vr_seq (filter (\<lambda>v. row_kind (vr_row v) \<noteq> ''background'' \<and> after < vr_updated v) (rows_of st sid)))))"

text \<open>The records a reader opens a row with.\<close>

definition is_tool_anchor :: "event \<Rightarrow> bool" where
  "is_tool_anchor e \<longleftrightarrow> prefix ''tool_'' (ev_kind e) \<and> ev_request e \<noteq> []"

definition Details :: "store_lib \<Rightarrow> index \<Rightarrow> string \<Rightarrow> nat \<Rightarrow> page_error + event list" where
  "Details d st sid seq =
     (case filter (\<lambda>r. er_seq r = seq) (events_of st sid) of
        [] \<Rightarrow> Inl No_longer_retained
      | r # _ \<Rightarrow>
          (case sl_decode d (er_data r) of
             None \<Rightarrow> Inl Unreadable_record
           | Some e \<Rightarrow>
               if \<not> is_tool_anchor e then Inr [e]
               else
                 let rs = filter (\<lambda>x. rr_run x = ev_run e) (records_of st sid);
                     asked = map rr_request (filter (\<lambda>x. rr_related x = ev_request e \<and> rr_kind x = ''approval'') rs);
                     hit = filter (\<lambda>x. rr_request x = ev_request e \<or> rr_related x = ev_request e \<or> rr_request x \<in> set asked) rs
                 in case those (map (sl_decode d) (metadata_bodies st sid (map rr_seq hit))) of
                      None \<Rightarrow> Inl Unreadable_record
                    | Some es \<Rightarrow> Inr es))"

section \<open>Without a database\<close>

definition no_resolve :: "string \<Rightarrow> string \<Rightarrow> row option" where
  "no_resolve run request = None"

definition Apply_all :: "view_lib \<Rightarrow> event list \<Rightarrow> projection" where
  "Apply_all w es = fold (Apply_record w no_resolve) es new_projection"

text \<open>\<open>keepPerKind\<close>: how many of each kind are still to be dropped is counted down.\<close>

fun keep_from :: "(string \<Rightarrow> nat) \<Rightarrow> event list \<Rightarrow> event list" where
  "keep_from over [] = []"
| "keep_from over (e # es) =
     (if 0 < over (ev_kind e) then keep_from (over(ev_kind e := over (ev_kind e) - 1)) es else e # keep_from over es)"

definition keepPerKind :: "event list \<Rightarrow> event list" where
  "keepPerKind all = keep_from (\<lambda>k. length (filter (\<lambda>e. ev_kind e = k) all) - metadataPerKind) all"

definition FromEvents :: "view_lib \<Rightarrow> event list \<Rightarrow> page_request \<Rightarrow> page_error + page_reply" where
  "FromEvents w events r =
     (if 0 < pr_after r \<and> 0 < pr_before r then Inl Exclusive
      else
        let snap = (if pr_snapshot r = 0 then max_or_zero (map ev_seq events) else pr_snapshot r);
            shown = filter (\<lambda>e. ev_seq e \<le> snap) events;
            meta = map (metadata (vl_lib w)) (filter (\<lambda>e. ev_kind e \<in> set metadataKinds) shown);
            all = sort_key row_seq (map snd (pj_rows (Apply_all w shown)))
        in Inr (page_of r snap all (keepPerKind meta)))"

definition DetailsFromEvents :: "lib \<Rightarrow> event list \<Rightarrow> nat \<Rightarrow> page_error + event list" where
  "DetailsFromEvents lib events seq =
     (case find (\<lambda>e. ev_seq e = seq) events of
        None \<Rightarrow> Inl No_longer_retained
      | Some anchor \<Rightarrow>
          if \<not> is_tool_anchor anchor then Inr [anchor]
          else
            let approvals = map ev_request (filter (\<lambda>e. ev_run e = ev_run anchor \<and> ev_kind e = ''approval'' \<and>
                  related lib e = ev_request anchor) events)
            in Inr (filter (\<lambda>e. ev_run e = ev_run anchor \<and> ev_kind e \<noteq> ''raw'' \<and>
                 (ev_request e = ev_request anchor \<or> related lib e = ev_request anchor \<or> ev_request e \<in> set approvals)) events))"

definition VersionsFromEvents :: "view_lib \<Rightarrow> event list \<Rightarrow> nat \<Rightarrow> (nat \<times> nat \<times> row) list" where
  "VersionsFromEvents w events after = filter (\<lambda>(seq, updated, v). after < updated) (pj_versions (Apply_all w events))"

end
