(* ===== verification/Transcript_Laws.thy ===== *)
theory Transcript_Laws
  imports Transcript_Sync
begin

text \<open>
  What applying one record does to the reduced state: the versions it publishes carry its sequence
  number, the rows are the latest versions, and no row is of a hidden kind.
\<close>

named_theorems grow "what publishes only versions of the record at hand"
named_theorems projects "what keeps the reduced state well formed"

section \<open>Publishing\<close>

definition rows_after :: "(nat \<times> nat \<times> row) list \<Rightarrow> (nat \<rightharpoonup> row) \<Rightarrow> (nat \<rightharpoonup> row)" where
  "rows_after vs m = foldl (\<lambda>m (n, u, v). m(n \<mapsto> v)) m vs"

lemma rows_after_simps [simp]:
  "rows_after [] m = m"
  "rows_after (vs @ ws) m = rows_after ws (rows_after vs m)"
  "rows_after [(n, u, v)] m = m(n \<mapsto> v)"
  by (simp_all add: rows_after_def)

definition grows :: "nat \<Rightarrow> projection \<Rightarrow> projection \<Rightarrow> bool" where
  "grows u p q \<longleftrightarrow> (\<exists>new. pj_versions q = pj_versions p @ new \<and> map_of (pj_rows q) = rows_after new (map_of (pj_rows p)) \<and>
     (\<forall>(n, t, v) \<in> set new. n = row_seq v \<and> t = u))"

lemma grows_same [grow]: "pj_versions q = pj_versions p \<Longrightarrow> pj_rows q = pj_rows p \<Longrightarrow> grows u p q"
  unfolding grows_def by (rule exI [of _ "[]"]) simp

lemma grows_trans: "grows u p q \<Longrightarrow> grows u q r \<Longrightarrow> grows u p r"
  unfolding grows_def
proof (elim exE conjE)
  fix a b
  assume "pj_versions q = pj_versions p @ a" "map_of (pj_rows q) = rows_after a (map_of (pj_rows p))"
    "\<forall>(n, t, v) \<in> set a. n = row_seq v \<and> t = u"
    "pj_versions r = pj_versions q @ b" "map_of (pj_rows r) = rows_after b (map_of (pj_rows q))"
    "\<forall>(n, t, v) \<in> set b. n = row_seq v \<and> t = u"
  then show "\<exists>new. pj_versions r = pj_versions p @ new \<and> map_of (pj_rows r) = rows_after new (map_of (pj_rows p)) \<and>
      (\<forall>(n, t, v) \<in> set new. n = row_seq v \<and> t = u)"
    by (intro exI [of _ "a @ b"]) auto
qed

lemma grows_put [grow]:
  assumes "pj_versions q = pj_versions p" "pj_rows q = pj_rows p"
  shows "grows u p (put_row_version v u q)"
  unfolding grows_def put_row_version_def by (rule exI [of _ "[(row_seq v, u, v)]"]) (simp add: assms)

lemma grows_set_tool: "grows u p (set_tool k v u p)"
  unfolding set_tool_def by (rule grows_put) simp_all

lemma grows_row: "grows (ev_seq e) p (apply_row w e p)"
  by (simp add: apply_row_def Let_def grow)

lemma grows_via: "grows u p q \<Longrightarrow> pj_versions p = pj_versions p' \<Longrightarrow> pj_rows p = pj_rows p' \<Longrightarrow> grows u p' q"
  by (simp add: grows_def)

lemma grows_tool: "grows (ev_seq e) p (apply_tool w R e p)"
  by (simp add: apply_tool_def Let_def grows_set_tool grow)

lemma grows_approval: "grows (ev_seq e) p (apply_approval w e p)"
  unfolding apply_approval_def Let_def set_tool_def
  by (auto split: option.splits simp: grow intro: grows_via [OF grows_row])

lemma grows_answer: "grows (ev_seq e) p (fold_answer w e p)"
  by (auto simp: fold_answer_def Let_def grow split: option.split)

lemma grows_decide: "grows (ev_seq e) p (decide_tool e p)"
  by (auto simp: decide_tool_def Let_def grow grows_set_tool split: option.split)

lemma grows_resolved: "grows (ev_seq e) p (apply_resolved w e p)"
  unfolding apply_resolved_def by (rule grows_trans [OF grows_answer grows_decide])

lemma grows_turn_end: "grows (ev_seq e) p (apply_turn_end w e p)"
proof -
  have "grows (ev_seq e) p (forget_turn (ev_run e) (put_row_version v (ev_seq e) p))" for v
    unfolding forget_turn_def grows_def put_row_version_def
    by (rule exI [of _ "[(row_seq v, ev_seq e, v)]"]) simp
  moreover have "grows (ev_seq e) p (apply_row w e (forget_turn (ev_run e) p))"
    by (rule grows_via [OF grows_row]) (simp_all add: forget_turn_def)
  ultimately show ?thesis by (simp add: apply_turn_end_def split: option.split)
qed

theorem grows_record: "grows (ev_seq e) p (Apply_record w R e p)"
  by (simp add: Apply_record_def Let_def grows_tool grows_approval grows_resolved grows_turn_end grows_row
      grows_via [OF grows_row])

section \<open>Well formed rows\<close>

text \<open>Every row the reduced state holds is of a visible kind, under its own sequence number.\<close>

definition visible :: "row \<Rightarrow> bool" where
  "visible v \<longleftrightarrow> row_kind v \<notin> hidden"

definition tool_row :: "row \<Rightarrow> bool" where
  "tool_row v \<longleftrightarrow> visible v \<and> rw_summary v \<noteq> None"

definition well_shown :: "projection \<Rightarrow> bool" where
  "well_shown p \<longleftrightarrow> wf_map (pj_rows p) \<and> (\<forall>n v. map_of (pj_rows p) n = Some v \<longrightarrow> row_seq v = n \<and> visible v) \<and>
     (\<forall>(n, u, v) \<in> set (pj_versions p). visible v) \<and>
     (\<forall>k v. map_of (pj_tools p) k = Some v \<longrightarrow> tool_row v) \<and>
     (\<forall>k v. map_of (pj_questions p) k = Some v \<longrightarrow> visible v)"

lemma well_shown_new [simp]: "well_shown new_projection"
  by (simp add: well_shown_def new_projection_def)

lemma well_shown_put: "well_shown p \<Longrightarrow> visible v \<Longrightarrow> well_shown (put_row_version v u p)"
  by (auto simp: well_shown_def put_row_version_def)

lemma well_shown_set_tool: "well_shown p \<Longrightarrow> tool_row v \<Longrightarrow> well_shown (set_tool k v u p)"
  unfolding set_tool_def by (rule well_shown_put) (auto simp: well_shown_def tool_row_def)

lemma visible_with_state [simp]: "visible (with_state s v) = visible v" "rw_summary (with_state s v) = None \<longleftrightarrow> rw_summary v = None"
  by (simp_all add: visible_def with_state_def)

lemma row_seq_with_state [simp]: "row_seq (with_state s v) = row_seq v" "row_kind (with_state s v) = row_kind v"
  by (simp_all add: with_state_def)

lemma visible_with_result [simp]: "visible (with_result w e v) = visible v" "rw_summary (with_result w e v) = None \<longleftrightarrow> rw_summary v = None"
  by (simp_all add: visible_def with_result_def Let_def)

lemma tool_row_changes [simp]: "tool_row (with_state s v) = tool_row v" "tool_row (with_result w e v) = tool_row v"
  by (simp_all only: tool_row_def visible_with_state visible_with_result)

lemma tool_row_summary: "ev_kind e \<notin> hidden \<Longrightarrow> tool_row (row_summary w e)"
  by (simp add: tool_row_def visible_def row_summary_def Let_def)

lemma visible_plain [simp]: "visible (plain_row e) \<longleftrightarrow> ev_kind e \<notin> hidden"
  by (simp add: visible_def plain_row_def)

lemma visible_resolved [simp]: "visible (resolved_row w e v) = visible v"
  by (simp add: visible_def resolved_row_def Let_def)

lemma visible_completion [simp]: "visible (with_completion c v) = visible v"
  by (simp add: visible_def with_completion_def Let_def)

lemma row_seq_resolved [simp]: "row_seq (resolved_row w e v) = row_seq v"
  by (simp add: resolved_row_def Let_def)

lemma shown_event_kind [simp]: "ev_kind (shown_event w e) = ev_kind e"
  by (simp add: shown_event_def with_phase_def with_diagnostic_def without_body_def Let_def)

lemma well_shown_row: "well_shown p \<Longrightarrow> well_shown (apply_row w e p)"
  by (simp add: apply_row_def well_shown_put)

lemma well_shown_fields:
  "well_shown p \<Longrightarrow> well_shown (p\<lparr>pj_last := a\<rparr>)" "well_shown p \<Longrightarrow> well_shown (p\<lparr>pj_input := b\<rparr>)"
  "well_shown p \<Longrightarrow> well_shown (p\<lparr>pj_input_seq := c\<rparr>)" "well_shown p \<Longrightarrow> well_shown (p\<lparr>pj_approvals := d\<rparr>)"
  by (simp_all add: well_shown_def)

lemma well_shown_question: "well_shown p \<Longrightarrow> visible v \<Longrightarrow> well_shown (p\<lparr>pj_questions := AList.update k v (pj_questions p)\<rparr>)"
  by (auto simp: well_shown_def)

lemma well_shown_tools: "well_shown p \<Longrightarrow> map_of (pj_tools p) k = Some v \<Longrightarrow> tool_row v"
  by (auto simp: well_shown_def)

lemma well_shown_questions: "well_shown p \<Longrightarrow> map_of (pj_questions p) k = Some v \<Longrightarrow> visible v"
  by (auto simp: well_shown_def)

lemma tool_kinds_visible: "k \<in> {''tool_call'', ''tool_result'', ''tool_output''} \<Longrightarrow> k \<notin> hidden"
  by (auto simp: hidden_def)

lemma well_shown_tool:
  assumes "well_shown p" and k: "ev_kind e \<in> {''tool_call'', ''tool_result'', ''tool_output''}"
    and R: "\<And>v. R (ev_run e) (ev_request e) = Some v \<Longrightarrow> tool_row v"
  shows "well_shown (apply_tool w R e p)"
proof -
  have "tool_row (called_row w R e p)"
    using R well_shown_tools [OF assms(1)] tool_row_summary [OF tool_kinds_visible [OF k]]
    by (auto simp: called_row_def Let_def split: option.split)
  then show ?thesis
    unfolding apply_tool_def Let_def using assms(1) by (simp add: well_shown_set_tool)
qed

lemma well_shown_approval:
  assumes "well_shown p" "ev_kind e = ''approval''"
  shows "well_shown (apply_approval w e p)"
proof -
  have "visible (plain_row e)" using assms(2) by (simp add: hidden_def)
  with assms(1) show ?thesis
    unfolding apply_approval_def Let_def
    by (auto split: option.split
        intro!: well_shown_row well_shown_fields well_shown_question well_shown_set_tool dest: well_shown_tools)
qed

lemma well_shown_answer: "well_shown p \<Longrightarrow> well_shown (fold_answer w e p)"
  by (auto simp: fold_answer_def Let_def well_shown_questions split: option.split intro!: well_shown_put well_shown_question)

lemma well_shown_decide: "well_shown p \<Longrightarrow> well_shown (decide_tool e p)"
  by (auto simp: decide_tool_def Let_def well_shown_tools split: option.split intro!: well_shown_set_tool)

lemma well_shown_resolved: "well_shown p \<Longrightarrow> well_shown (apply_resolved w e p)"
  unfolding apply_resolved_def by (intro well_shown_decide well_shown_answer)

lemma turn_target_row: "turn_target w e p = Some (v, c) \<Longrightarrow> \<exists>n. map_of (pj_rows p) n = Some v"
  by (auto simp: turn_target_def Let_def split: if_splits option.splits prod.splits)

lemma well_shown_turn_end:
  assumes "well_shown p"
  shows "well_shown (apply_turn_end w e p)"
proof -
  have "well_shown (apply_row w e (forget_turn (ev_run e) p))"
    unfolding forget_turn_def using assms by (intro well_shown_row well_shown_fields)
  moreover have "well_shown (forget_turn (ev_run e) (put_row_version (with_completion c v) (ev_seq e) p))"
    if "turn_target w e p = Some (v, c)" for v c
  proof -
    have "visible v" using turn_target_row [OF that] assms by (auto simp: well_shown_def)
    then show ?thesis unfolding forget_turn_def using assms by (intro well_shown_fields well_shown_put) simp_all
  qed
  ultimately show ?thesis by (auto simp: apply_turn_end_def split: option.split)
qed

theorem well_shown_record:
  assumes "well_shown p" and R: "\<And>r q v. R r q = Some v \<Longrightarrow> tool_row v"
  shows "well_shown (Apply_record w R e p)"
  unfolding Apply_record_def Let_def using assms(1)
  by (auto intro!: well_shown_row well_shown_fields well_shown_tool well_shown_approval well_shown_resolved well_shown_turn_end
      dest: R)

end
