(* ===== verification/Transcript_Memory.thy ===== *)
theory Transcript_Memory
  imports Transcript_Laws
begin

text \<open>
  The database answers what the records answer: after a rebuild a page, the record details and the
  metadata are those of \<open>FromEvents\<close> and \<open>DetailsFromEvents\<close> on the decoded records.
\<close>

section \<open>The table of versions\<close>

definition version_of :: "string \<Rightarrow> nat \<times> nat \<times> row \<Rightarrow> version_row" where
  "version_of sid = (\<lambda>(n, u, v). \<lparr>vr_session = sid, vr_seq = n, vr_updated = u, vr_row = v\<rparr>)"

definition table :: "string \<Rightarrow> (nat \<times> nat \<times> row) list \<Rightarrow> version_row list" where
  "table sid vs = fold (\<lambda>v. put_version (version_of sid v)) vs []"

lemma table_Nil [simp]: "table sid [] = []"
  by (simp add: table_def)

lemma table_snoc [simp]: "table sid (vs @ [v]) = put_version (version_of sid v) (table sid vs)"
  by (simp add: table_def)

lemma version_of_simps [simp]:
  "vr_session (version_of sid (n, u, v)) = sid" "vr_seq (version_of sid (n, u, v)) = n"
  "vr_updated (version_of sid (n, u, v)) = u" "vr_row (version_of sid (n, u, v)) = v"
  by (simp_all add: version_of_def)

lemma set_put_version:
  "set (put_version y T) = insert y {x \<in> set T. \<not> (vr_session x = vr_session y \<and> vr_seq x = vr_seq y \<and> vr_updated x = vr_updated y)}"
  by (auto simp: put_version_def)

lemma table_members: "x \<in> set (table sid vs) \<Longrightarrow> \<exists>v \<in> set vs. x = version_of sid v"
proof (induction vs rule: rev_induct)
  case (snoc v vs)
  then show ?case by (auto simp: set_put_version)
qed simp

lemma table_session: "x \<in> set (table sid vs) \<Longrightarrow> vr_session x = sid"
  by (auto dest: table_members simp: version_of_def)

abbreviation version_key :: "version_row \<Rightarrow> nat \<times> nat" where
  "version_key x \<equiv> (vr_seq x, vr_updated x)"

lemma table_keys: "distinct (map version_key (table sid vs))"
proof (induction vs rule: rev_induct)
  case (snoc v vs)
  moreover obtain n u r where v: "v = (n, u, r)" by (cases v)
  ultimately show ?case
    using table_session [of _ sid vs]
    by (auto simp: put_version_def distinct_map inj_on_def)
qed simp

definition latest_at :: "version_row list \<Rightarrow> nat \<Rightarrow> nat \<Rightarrow> row \<Rightarrow> bool" where
  "latest_at T snap n v \<longleftrightarrow> (\<exists>x \<in> set T. vr_updated x \<le> snap \<and> vr_seq x = n \<and> vr_row x = v \<and>
     (\<forall>y \<in> set T. vr_updated y \<le> snap \<and> vr_seq y = n \<longrightarrow> vr_updated y \<le> vr_updated x))"

lemma latest_at_put:
  assumes "\<And>x. x \<in> set T \<Longrightarrow> vr_session x = sid \<and> vr_updated x \<le> t"
  shows "latest_at (put_version (version_of sid (m, t, r)) T) snap n v \<longleftrightarrow>
     (if t \<le> snap \<and> n = m then v = r else latest_at T snap n v)"
proof (cases "t \<le> snap")
  case True
  show ?thesis
  proof (cases "n = m")
    case True
    have "v = r" if l: "latest_at (put_version (version_of sid (m, t, r)) T) snap n v"
    proof -
      obtain x where x: "x \<in> set (put_version (version_of sid (m, t, r)) T)" "vr_seq x = n" "vr_row x = v"
        and newest: "\<forall>y \<in> set (put_version (version_of sid (m, t, r)) T). vr_updated y \<le> snap \<and> vr_seq y = n \<longrightarrow> vr_updated y \<le> vr_updated x"
        using l unfolding latest_at_def by blast
      have "t \<le> vr_updated x"
        using bspec [OF newest, of "version_of sid (m, t, r)"] True \<open>t \<le> snap\<close> by (simp add: set_put_version)
      with x True have "x = version_of sid (m, t, r) \<or> x \<in> set T \<and> \<not> (vr_session x = sid \<and> vr_updated x = t)"
        "vr_row x = v" "t \<le> vr_updated x"
        by (auto simp: set_put_version)
      then show ?thesis using assms [of x] by (auto simp: version_of_def)
    qed
    moreover have "latest_at (put_version (version_of sid (m, t, r)) T) snap n r"
      unfolding latest_at_def set_put_version using True \<open>t \<le> snap\<close> assms
      by (intro bexI [of _ "version_of sid (m, t, r)"]) auto
    ultimately show ?thesis using True \<open>t \<le> snap\<close> by auto
  next
    case False
    then show ?thesis
      unfolding latest_at_def set_put_version by auto
  qed
next
  case False
  then show ?thesis unfolding latest_at_def set_put_version by auto
qed

lemma table_latest:
  assumes "sorted (map (\<lambda>(n, u, v). u) vs)"
  shows "latest_at (table sid vs) snap n v \<longleftrightarrow> rows_after (filter (\<lambda>(n, u, v). u \<le> snap) vs) Map.empty n = Some v"
  using assms
proof (induction vs rule: rev_induct)
  case Nil
  then show ?case by (simp add: latest_at_def)
next
  case (snoc w vs)
  obtain m t r where w: "w = (m, t, r)" by (cases w)
  have before: "u \<le> t" if "(k, u, q) \<in> set vs" for k u q
    using snoc.prems that by (force simp: w sorted_append)
  have "vr_session x = sid \<and> vr_updated x \<le> t" if "x \<in> set (table sid vs)" for x
    using table_members [OF that] before by (auto simp: version_of_def)
  note put = latest_at_put [OF this]
  have "sorted (map (\<lambda>(n, u, v). u) vs)" using snoc.prems by (simp add: sorted_append)
  then show ?case by (auto simp: w put snoc.IH)
qed

section \<open>The rows of a snapshot\<close>

lemma current_rows_distinct:
  assumes "distinct (map version_key (rows_of st sid))"
  shows "distinct (map vr_seq (sort_key vr_seq (filter (\<lambda>v. row_kind (vr_row v) \<noteq> ''background'' \<and>
    newest_version (filter (\<lambda>v. vr_updated v \<le> snap) (rows_of st sid)) v) (filter (\<lambda>v. vr_updated v \<le> snap) (rows_of st sid)))))"
proof -
  let ?T = "filter (\<lambda>v. vr_updated v \<le> snap) (rows_of st sid)"
  let ?F = "filter (\<lambda>v. row_kind (vr_row v) \<noteq> ''background'' \<and> newest_version ?T v) ?T"
  have inj: "inj_on version_key (set (rows_of st sid))" and d: "distinct (rows_of st sid)"
    using assms by (simp_all add: distinct_map)
  have "inj_on vr_seq (set ?F)"
  proof (rule inj_onI)
    fix x y
    assume xy: "x \<in> set ?F" "y \<in> set ?F" "vr_seq x = vr_seq y"
    then have "vr_updated x \<le> vr_updated y" "vr_updated y \<le> vr_updated x"
      by (simp_all add: newest_version_def list_all_iff)
    then have "version_key x = version_key y" using xy(3) by simp
    moreover have "x \<in> set (rows_of st sid)" "y \<in> set (rows_of st sid)" using xy(1,2) by simp_all
    ultimately show "x = y" using inj by (meson inj_onD)
  qed
  then show ?thesis using d by (simp add: distinct_map)
qed

text \<open>A table whose rows stand under their own sequence numbers shows them in order, each once.\<close>

lemma current_rows_order:
  assumes "distinct (map version_key (rows_of st sid))" "\<And>x. x \<in> set (rows_of st sid) \<Longrightarrow> row_seq (vr_row x) = vr_seq x"
  shows "sorted (map row_seq (current_rows st sid snap)) \<and> distinct (map row_seq (current_rows st sid snap))"
proof -
  let ?T = "filter (\<lambda>v. vr_updated v \<le> snap) (rows_of st sid)"
  let ?S = "sort_key vr_seq (filter (\<lambda>v. row_kind (vr_row v) \<noteq> ''background'' \<and> newest_version ?T v) ?T)"
  have "map row_seq (current_rows st sid snap) = map (row_seq \<circ> vr_row) ?S"
    by (simp add: current_rows_def Let_def)
  also have "\<dots> = map vr_seq ?S"
    using assms(2) by (intro map_cong refl) simp
  finally show ?thesis using current_rows_distinct [OF assms(1), of snap] by simp
qed

lemma current_rows_set:
  "set (current_rows st sid snap) = {v. row_kind v \<noteq> ''background'' \<and> (\<exists>n. latest_at (rows_of st sid) snap n v)}"
  by (fastforce simp: current_rows_def Let_def latest_at_def newest_version_def list_all_iff)

lemma strictly_sorted_unique:
  assumes "sorted (map f xs) \<and> distinct (map f xs)" "sorted (map f ys) \<and> distinct (map f ys)" "set xs = set ys"
  shows "xs = ys"
proof (rule map_sorted_distinct_set_unique [where f = f])
  show "inj_on f (set xs \<union> set ys)" using assms by (simp add: distinct_map)
qed (use assms in simp_all)

definition memory_rows :: "projection \<Rightarrow> row list" where
  "memory_rows p = sort_key row_seq (map snd (pj_rows p))"

lemma memory_rows_order:
  assumes "well_shown p"
  shows "sorted (map row_seq (memory_rows p)) \<and> distinct (map row_seq (memory_rows p))"
    and "set (memory_rows p) = {v. \<exists>n. map_of (pj_rows p) n = Some v}"
proof -
  have d: "distinct (map fst (pj_rows p))" and k: "\<And>n v. map_of (pj_rows p) n = Some v \<Longrightarrow> row_seq v = n"
    using assms by (auto simp: well_shown_def wf_map_def)
  have "map row_seq (map snd (pj_rows p)) = map fst (pj_rows p)"
    using d k by (auto simp: list_eq_iff_nth_eq)
  then have "inj_on row_seq (set (map snd (pj_rows p)))" "distinct (map snd (pj_rows p))"
    using d by (metis distinct_map)+
  then show "sorted (map row_seq (memory_rows p)) \<and> distinct (map row_seq (memory_rows p))"
    by (simp add: memory_rows_def distinct_map)
  show "set (memory_rows p) = {v. \<exists>n. map_of (pj_rows p) n = Some v}"
    using d by (force simp: memory_rows_def dest: map_of_SomeD)
qed

section \<open>Folding the records\<close>

lemma fold_well_shown:
  assumes "well_shown p"
  shows "well_shown (fold (Apply_record w no_resolve) es p)"
  using assms
proof (induction es arbitrary: p)
  case (Cons e es)
  have "well_shown (Apply_record w no_resolve e p)"
    by (rule well_shown_record [OF Cons.prems]) (simp add: no_resolve_def)
  then show ?case by (simp add: Cons.IH)
qed simp

lemma fold_grows:
  assumes "sorted (map ev_seq es)" "\<forall>(n, u, v) \<in> set (pj_versions p). \<forall>e \<in> set es. u \<le> ev_seq e" "sorted (map (\<lambda>(n, u, v). u) (pj_versions p))"
  shows "\<exists>new. pj_versions (fold (Apply_record w R) es p) = pj_versions p @ new \<and>
     map_of (pj_rows (fold (Apply_record w R) es p)) = rows_after new (map_of (pj_rows p)) \<and>
     (\<forall>(n, u, v) \<in> set new. n = row_seq v \<and> u \<in> ev_seq ` set es) \<and>
     sorted (map (\<lambda>(n, u, v). u) (pj_versions (fold (Apply_record w R) es p)))"
  using assms
proof (induction es arbitrary: p)
  case Nil
  then show ?case by (intro exI [of _ "[]"]) simp
next
  case (Cons e es)
  let ?q = "Apply_record w R e p"
  obtain a where a: "pj_versions ?q = pj_versions p @ a" "map_of (pj_rows ?q) = rows_after a (map_of (pj_rows p))"
    "\<forall>(n, t, v) \<in> set a. n = row_seq v \<and> t = ev_seq e"
    using grows_record [of e p w R] by (auto simp: grows_def)
  have "map (\<lambda>(n, u, v). u) a = replicate (length a) (ev_seq e)"
    using a(3) by (induction a) auto
  then have s: "sorted (map (\<lambda>(n, u, v). u) (pj_versions ?q))"
    using Cons.prems(2,3) by (auto simp: a(1) sorted_append)
  have "\<forall>(n, u, v) \<in> set (pj_versions ?q). \<forall>e \<in> set es. u \<le> ev_seq e"
    using Cons.prems(1,2) a(1,3) by fastforce
  from Cons.IH [OF _ this s] Cons.prems(1) obtain b where b:
    "pj_versions (fold (Apply_record w R) es ?q) = pj_versions ?q @ b"
    "map_of (pj_rows (fold (Apply_record w R) es ?q)) = rows_after b (map_of (pj_rows ?q))"
    "\<forall>(n, u, v) \<in> set b. n = row_seq v \<and> u \<in> ev_seq ` set es"
    "sorted (map (\<lambda>(n, u, v). u) (pj_versions (fold (Apply_record w R) es ?q)))" by auto
  show ?case
    using a b by (intro exI [of _ "a @ b"]) auto
qed

lemma sorted_filter_append:
  fixes f :: "'a \<Rightarrow> nat"
  assumes "sorted (map f xs)"
  shows "filter (\<lambda>x. f x \<le> n) xs @ filter (\<lambda>x. n < f x) xs = xs"
  using assms
proof (induction xs)
  case (Cons x xs)
  show ?case
  proof (cases "f x \<le> n")
    case False
    then have "\<forall>y \<in> set xs. n < f y" using Cons.prems by auto
    then show ?thesis using False by (simp add: filter_empty_conv filter_id_conv not_le)
  qed (use Cons in simp)
qed simp

lemma Apply_all_versions:
  assumes "sorted (map ev_seq es)"
  shows "map_of (pj_rows (Apply_all w es)) = rows_after (pj_versions (Apply_all w es)) Map.empty"
    and "\<forall>(n, u, v) \<in> set (pj_versions (Apply_all w es)). n = row_seq v \<and> u \<in> ev_seq ` set es"
    and "sorted (map (\<lambda>(n, u, v). u) (pj_versions (Apply_all w es)))"
proof -
  have z: "pj_versions new_projection = []" "map_of (pj_rows new_projection) = Map.empty"
    by (simp_all add: new_projection_def)
  obtain new where new: "pj_versions (Apply_all w es) = new" "map_of (pj_rows (Apply_all w es)) = rows_after new Map.empty"
    "\<forall>(n, u, v) \<in> set new. n = row_seq v \<and> u \<in> ev_seq ` set es"
    "sorted (map (\<lambda>(n, u, v). u) (pj_versions (Apply_all w es)))"
    using fold_grows [OF assms, of new_projection w no_resolve] by (auto simp: z Apply_all_def)
  show "map_of (pj_rows (Apply_all w es)) = rows_after (pj_versions (Apply_all w es)) Map.empty"
    "\<forall>(n, u, v) \<in> set (pj_versions (Apply_all w es)). n = row_seq v \<and> u \<in> ev_seq ` set es"
    "sorted (map (\<lambda>(n, u, v). u) (pj_versions (Apply_all w es)))"
    using new by simp_all
qed

lemma Apply_all_well_shown: "well_shown (Apply_all w es)"
  by (simp add: Apply_all_def fold_well_shown)

text \<open>The versions up to a snapshot are those of the records up to it.\<close>

lemma Apply_all_snapshot:
  assumes "sorted (map ev_seq es)"
  shows "filter (\<lambda>(n, u, v). u \<le> snap) (pj_versions (Apply_all w es)) = pj_versions (Apply_all w (filter (\<lambda>e. ev_seq e \<le> snap) es))"
proof -
  let ?pre = "filter (\<lambda>e. ev_seq e \<le> snap) es" and ?post = "filter (\<lambda>e. snap < ev_seq e) es"
  let ?p = "Apply_all w ?pre"
  have es: "?pre @ ?post = es" using assms by (rule sorted_filter_append)
  have s: "sorted (map ev_seq ?pre)" "sorted (map ev_seq ?post)" using assms by (simp_all add: sorted_filter)
  have low: "\<forall>(n, u, v) \<in> set (pj_versions ?p). u \<le> snap"
    using Apply_all_versions(2) [OF s(1), of w] by fastforce
  then have "\<forall>(n, u, v) \<in> set (pj_versions ?p). \<forall>e \<in> set ?post. u \<le> ev_seq e" by fastforce
  from fold_grows [OF s(2) this Apply_all_versions(3) [OF s(1)], of w no_resolve]
  obtain new where new: "pj_versions (fold (Apply_record w no_resolve) ?post ?p) = pj_versions ?p @ new"
    "\<forall>(n, u, v) \<in> set new. n = row_seq v \<and> u \<in> ev_seq ` set ?post" by blast
  have "Apply_all w es = fold (Apply_record w no_resolve) ?post ?p"
    unfolding Apply_all_def by (subst es [symmetric]) simp
  moreover have "filter (\<lambda>(n, u, v). u \<le> snap) new = []"
    using new(2) by (fastforce simp: filter_empty_conv)
  moreover have "filter (\<lambda>(n, u, v). u \<le> snap) (pj_versions ?p) = pj_versions ?p"
    using low by (simp add: filter_id_conv)
  ultimately show ?thesis by (simp add: new(1))
qed

text \<open>A table that holds the versions of the records shows, as of a snapshot, the rows of the records up to it.\<close>

lemma current_rows_memory:
  assumes "sorted (map ev_seq es)" "rows_of st sid = table sid (pj_versions (Apply_all w es))"
  shows "current_rows st sid snap = memory_rows (Apply_all w (filter (\<lambda>e. ev_seq e \<le> snap) es))"
proof (rule strictly_sorted_unique)
  let ?p = "Apply_all w (filter (\<lambda>e. ev_seq e \<le> snap) es)"
  have s: "sorted (map ev_seq (filter (\<lambda>e. ev_seq e \<le> snap) es))" using assms(1) by (simp add: sorted_filter)
  show "sorted (map row_seq (current_rows st sid snap)) \<and> distinct (map row_seq (current_rows st sid snap))"
  proof (rule current_rows_order)
    show "distinct (map version_key (rows_of st sid))" by (simp add: assms(2) table_keys)
    show "row_seq (vr_row x) = vr_seq x" if "x \<in> set (rows_of st sid)" for x
      using that table_members [of x sid] Apply_all_versions(2) [OF assms(1), of w]
      by (fastforce simp: assms(2) version_of_def)
  qed
  show "sorted (map row_seq (memory_rows ?p)) \<and> distinct (map row_seq (memory_rows ?p))"
    by (rule memory_rows_order(1) [OF Apply_all_well_shown])
  have "latest_at (rows_of st sid) snap n v \<longleftrightarrow> map_of (pj_rows ?p) n = Some v" for n v
    by (simp add: assms(2) table_latest [OF Apply_all_versions(3) [OF assms(1)]] Apply_all_snapshot [OF assms(1)]
        Apply_all_versions(1) [OF s])
  moreover have "row_kind v \<noteq> ''background''" if "map_of (pj_rows ?p) n = Some v" for n v
    using that Apply_all_well_shown [of w "filter (\<lambda>e. ev_seq e \<le> snap) es"]
    by (auto simp: well_shown_def visible_def hidden_def)
  ultimately show "set (current_rows st sid snap) = set (memory_rows ?p)"
    by (auto simp: current_rows_set memory_rows_order(2) [OF Apply_all_well_shown])
qed

section \<open>A rebuild\<close>

abbreviation body_of :: "store_lib \<Rightarrow> stored_event \<Rightarrow> event \<Rightarrow> bool" where
  "body_of d r e \<equiv> sl_decode d (er_data r) = Some e \<and> sl_kind d (er_data r) = ev_kind e \<and> er_seq r = ev_seq e \<and> 0 < er_seq r"

text \<open>The records \<open>es\<close> are what the record table holds of a session.\<close>

definition decoded :: "store_lib \<Rightarrow> string \<Rightarrow> index \<Rightarrow> event list \<Rightarrow> bool" where
  "decoded d sid st es \<longleftrightarrow>
     list_all2 (body_of d)
       (events_of st sid) es \<and> distinct (map ev_seq es)"

lemma decoded_seqs: "decoded d sid st es \<Longrightarrow> map er_seq (events_of st sid) = map ev_seq es"
  by (auto simp: decoded_def list_all2_conv_all_nth list_eq_iff_nth_eq)

lemma decoded_sorted: "decoded d sid st es \<Longrightarrow> sorted (map ev_seq es)"
  by (drule decoded_seqs) (metis events_of_def sorted_sort_key)

lemma decoded_natives:
  assumes "decoded d sid st es"
  shows "natives d sid 0 st = Some (filter (\<lambda>e. ev_kind e \<noteq> ''raw'') es)"
proof -
  have "list_all2 (body_of d) rs es \<Longrightarrow>
    decode_all d (filter (\<lambda>r. 0 < er_seq r \<and> sl_kind d (er_data r) \<noteq> ''raw'') rs) = Some (filter (\<lambda>e. ev_kind e \<noteq> ''raw'') es)" for rs
    by (induction rs es rule: list_all2_induct) (auto simp: decode_all_def)
  then show ?thesis using assms by (simp add: natives_def decoded_def)
qed

lemma decoded_bodies:
  assumes "decoded d sid st es"
  shows "those (map (sl_decode d) (metadata_bodies st sid ns)) = Some (concat (map (\<lambda>n. filter (\<lambda>e. ev_seq e = n) es) ns))"
proof -
  have one: "list_all2 (body_of d) rs es \<Longrightarrow>
    map (sl_decode d) (map er_data (filter (\<lambda>r. er_seq r = n) rs)) = map Some (filter (\<lambda>e. ev_seq e = n) es)" for rs n
    by (induction rs es rule: list_all2_induct) auto
  have some: "those (map Some xs) = Some xs" for xs :: "event list" by (induction xs) simp_all
  have "map (sl_decode d) (metadata_bodies st sid ns) = map Some (concat (map (\<lambda>n. filter (\<lambda>e. ev_seq e = n) es) ns))"
    using one [OF conjunct1 [OF assms [unfolded decoded_def]]]
    by (induction ns) (simp_all add: metadata_bodies_def)
  then show ?thesis by (simp add: some)
qed

lemma pick_by_seq:
  assumes "distinct (map ev_seq es)" "set xs \<subseteq> set es"
  shows "concat (map (\<lambda>n. filter (\<lambda>e. ev_seq e = n) es) (map ev_seq xs)) = xs"
proof -
  have "filter (\<lambda>e. ev_seq e = ev_seq x) es = [x]" if "x \<in> set es" for x
    using that assms(1)
  proof (induction es)
    case (Cons e es)
    then show ?case by (cases "x = e") (auto simp: filter_empty_conv image_iff)
  qed simp
  with assms(2) show ?thesis by (induction xs) auto
qed

lemma fold_put_record:
  assumes "distinct (map rr_seq rs)" "\<forall>r \<in> set rs. rr_session r = sid" "\<forall>x \<in> set R. rr_session x \<noteq> sid \<or> rr_seq x \<notin> rr_seq ` set rs"
  shows "fold put_record rs R = R @ rs"
  using assms
proof (induction rs arbitrary: R)
  case (Cons r rs)
  have "put_record r R = R @ [r]"
    using Cons.prems by (auto simp: put_record_def filter_id_conv)
  then show ?case using Cons.IH [of "R @ [r]"] Cons.prems by auto
qed simp

lemma rows_of_put: "rows_of (st\<lparr>ix_rows := put_version v T\<rparr>) sid =
    (if vr_session v = sid then put_version v (rows_of (st\<lparr>ix_rows := T\<rparr>) sid) else rows_of (st\<lparr>ix_rows := T\<rparr>) sid)"
  by (auto simp: rows_of_def put_version_def intro: filter_cong)

lemma rows_of_publish:
  assumes "rows_of st sid = []"
  shows "rows_of (publish sid p st) sid = table sid (pj_versions p)"
proof -
  have "rows_of (st\<lparr>ix_rows := fold (\<lambda>v. put_version (version_of sid v)) vs (ix_rows st)\<rparr>) sid = table sid vs" for vs
    using assms by (induction vs rule: rev_induct) (simp_all add: rows_of_put version_of_def split: prod.split)
  moreover have "publish sid p st = st\<lparr>ix_rows := fold (\<lambda>v. put_version (version_of sid v)) (pj_versions p) (ix_rows st)\<rparr>"
    by (simp add: publish_def version_of_def split_beta' case_prod_beta')
  ultimately show ?thesis by simp
qed

lemma no_rows_resolve: "resolve_row [] rs = no_resolve"
  by (intro ext) (simp add: resolve_row_def no_resolve_def split: list.split)

lemma fold_apply_native:
  assumes "rows_of st sid = []"
  shows "fold (apply_native d sid) es (st, p) =
     (st\<lparr>ix_records := fold put_record (map (indexed (vl_lib (sl_view d)) sid) es) (ix_records st)\<rparr>,
      fold (Apply_record (sl_view d) no_resolve) es p)"
  using assms
proof (induction es arbitrary: st p)
  case (Cons e es)
  let ?st = "st\<lparr>ix_records := put_record (indexed (vl_lib (sl_view d)) sid e) (ix_records st)\<rparr>"
  have "rows_of ?st sid = []" using Cons.prems by (simp add: rows_of_def)
  then show ?case using Cons.IH [of ?st] by (simp add: apply_native_def Let_def no_rows_resolve)
qed simp

lemma Apply_raw: "ev_kind e = ''raw'' \<Longrightarrow> Apply_record w R e p = p"
  by (simp add: Apply_record_def apply_row_def hidden_def Let_def)

lemma Apply_all_native: "Apply_all w (filter (\<lambda>e. ev_kind e \<noteq> ''raw'') es) = Apply_all w es"
proof -
  have "fold (Apply_record w no_resolve) (filter (\<lambda>e. ev_kind e \<noteq> ''raw'') es) p = fold (Apply_record w no_resolve) es p" for p
    by (induction es arbitrary: p) (simp_all add: Apply_raw)
  then show ?thesis by (simp add: Apply_all_def)
qed

definition holds_memory :: "store_lib \<Rightarrow> string \<Rightarrow> index \<Rightarrow> event list \<Rightarrow> bool" where
  "holds_memory d sid st es \<longleftrightarrow> decoded d sid st es \<and> rows_of st sid = table sid (pj_versions (Apply_all (sl_view d) es)) \<and>
     records_of st sid = map (indexed (vl_lib (sl_view d)) sid) (filter (\<lambda>e. ev_kind e \<noteq> ''raw'') es)"

lemma rebuild_holds_memory:
  assumes "decoded d sid st es" "sync_plan sid st = Rebuild" "SyncWith d sid st c = (st', c', x)"
  shows "x = None \<and> holds_memory d sid st' es"
proof -
  let ?lib = "vl_lib (sl_view d)" and ?es = "filter (\<lambda>e. ev_kind e \<noteq> ''raw'') es" and ?base = "clear_session sid st"
  let ?rs = "map (indexed ?lib sid) ?es" and ?p = "Apply_all (sl_view d) es"
  have ev: "events_of ?base sid = events_of st sid" by (simp add: events_of_def clear_session_def)
  have base: "rows_of ?base sid = []" "\<forall>x \<in> set (ix_records ?base). rr_session x \<noteq> sid"
    by (simp_all add: rows_of_def clear_session_def filter_empty_conv)
  have "decoded d sid ?base es" using assms(1) by (simp add: decoded_def ev)
  then have n: "natives d sid 0 ?base = Some ?es" by (rule decoded_natives)
  have seqs: "map rr_seq ?rs = map ev_seq ?es" by (simp add: indexed_def)
  have d: "distinct (map ev_seq es)" using assms(1) by (simp add: decoded_def)
  then have dr: "distinct (map rr_seq ?rs)" unfolding seqs by (rule distinct_map_filter)
  have put: "fold put_record ?rs (ix_records ?base) = ix_records ?base @ ?rs"
    by (rule fold_put_record [OF dr, of sid]) (use base(2) in \<open>auto simp: indexed_def\<close>)
  define st1 where "st1 = ?base\<lparr>ix_records := ix_records ?base @ ?rs\<rparr>"
  have "sync_change d sid st c = Some (st1, ?p)"
    using n by (simp add: sync_change_def assms(2) start_projection_def Let_def fold_apply_native [OF base(1)] put st1_def
        split_beta Apply_all_def [symmetric] Apply_all_native)
  then obtain q where st': "st' = stamp_session sid (publish sid q st1)" and q: "pj_versions q = pj_versions ?p" and x: "x = None"
    using assms(2,3) by (auto simp: SyncWith_def commit_sync_def Let_def prune_def split: if_splits prod.splits)
  have "rows_of st1 sid = []" using base(1) by (simp add: st1_def rows_of_def)
  then have "rows_of st' sid = table sid (pj_versions ?p)"
    using rows_of_publish [of st1 sid q] q by (simp add: st' stamp_session_def remember_def rows_of_def)
  moreover have "records_of st' sid = ?rs"
  proof -
    have "filter (\<lambda>r. rr_session r = sid) (ix_records ?base @ ?rs) = ?rs"
      using base(2) by (simp add: filter_empty_conv filter_id_conv indexed_def)
    moreover have "sorted (map rr_seq ?rs)"
      unfolding seqs using decoded_sorted [OF assms(1)] by (simp add: sorted_filter)
    ultimately show ?thesis
      by (simp add: records_of_def st' stamp_session_def remember_def publish_def st1_def sort_key_id_if_sorted)
  qed
  moreover have "events_of st' sid = events_of st sid"
    by (simp add: events_of_def st' stamp_session_def remember_def publish_def st1_def clear_session_def)
  ultimately show ?thesis using assms(1) x by (simp add: holds_memory_def decoded_def)
qed

end
