(* ===== verification/Transcript_Pages.thy ===== *)
theory Transcript_Pages
  imports Transcript_Memory
begin

text \<open>
  What readers get: the metadata of a page, a page and the details of a row are the same from the
  database as from the records; pages walk the rows without gap or overlap.
\<close>

section \<open>The newest records of each kind\<close>

lemma last_n_map [simp]: "last_n n (map f xs) = map f (last_n n xs)"
  by (simp add: last_n_def drop_map)

lemma keep_from_kind: "filter (\<lambda>e. ev_kind e = k) (keep_from over xs) = drop (over k) (filter (\<lambda>e. ev_kind e = k) xs)"
proof (induction xs arbitrary: over)
  case (Cons e es)
  then show ?case by (cases "over (ev_kind e)") auto
qed simp

lemma keep_from_set: "set (keep_from over xs) \<subseteq> set xs"
proof (induction xs arbitrary: over)
  case (Cons e es)
  then show ?case by (cases "over (ev_kind e)") (auto simp: subset_iff)
qed simp

lemma keepPerKind_set: "set (keepPerKind xs) \<subseteq> set xs"
  by (simp add: keepPerKind_def keep_from_set)

lemma keep_from_sorted:
  fixes f :: "event \<Rightarrow> nat"
  shows "sorted (map f xs) \<Longrightarrow> sorted (map f (keep_from over xs))"
proof (induction xs arbitrary: over)
  case (Cons e es)
  then show ?case using keep_from_set [of over es] by (cases "over (ev_kind e)") auto
qed simp

lemma keepPerKind_kind: "filter (\<lambda>e. ev_kind e = k) (keepPerKind xs) = last_n metadataPerKind (filter (\<lambda>e. ev_kind e = k) xs)"
  by (simp add: keepPerKind_def keep_from_kind last_n_def)

lemma keep_from_map: "(\<And>e. ev_kind (f e) = ev_kind e) \<Longrightarrow> keep_from over (map f xs) = map f (keep_from over xs)"
  by (induction xs arbitrary: over) auto

lemma keepPerKind_map: "(\<And>e. ev_kind (f e) = ev_kind e) \<Longrightarrow> keepPerKind (map f xs) = map f (keepPerKind xs)"
  by (simp add: keepPerKind_def filter_map comp_def keep_from_map)

lemma mset_by_kind:
  assumes "distinct ks" "\<forall>x \<in> set xs. f x \<in> set ks"
  shows "mset xs = (\<Sum>k \<leftarrow> ks. mset (filter (\<lambda>x. f x = k) xs))"
  using assms
proof (induction ks arbitrary: xs)
  case (Cons k ks)
  let ?r = "filter (\<lambda>x. f x \<noteq> k) xs"
  have "mset ?r = (\<Sum>k' \<leftarrow> ks. mset (filter (\<lambda>x. f x = k') ?r))"
    using Cons.prems by (intro Cons.IH) auto
  also have "map (\<lambda>k'. mset (filter (\<lambda>x. f x = k') ?r)) ks = map (\<lambda>k'. mset (filter (\<lambda>x. f x = k') xs)) ks"
  proof (rule map_cong [OF refl])
    fix k'
    assume "k' \<in> set ks"
    then have "k' \<noteq> k" using Cons.prems(1) by auto
    then have "filter (\<lambda>x. f x = k') ?r = filter (\<lambda>x. f x = k') xs" by (auto intro: filter_cong)
    then show "mset (filter (\<lambda>x. f x = k') ?r) = mset (filter (\<lambda>x. f x = k') xs)" by simp
  qed
  finally show ?case by (simp add: mset_filter) (metis multiset_partition)
qed simp

lemma metadata_kind [simp]: "ev_kind (metadata lib e) = ev_kind e"
  by (simp add: metadata_def Let_def)

text \<open>The indexed walk over each kind picks the records that counting down over the list keeps.\<close>

lemma metadata_seqs_memory:
  assumes "sorted (map ev_seq es)"
  shows "metadata_seqs (map (indexed lib sid) (filter (\<lambda>e. ev_kind e \<noteq> ''raw'') es)) snap =
    map ev_seq (keepPerKind (filter (\<lambda>e. ev_kind e \<in> set metadataKinds) (filter (\<lambda>e. ev_seq e \<le> snap) es)))"
    (is "_ = map ev_seq (keepPerKind ?M)")
proof -
  let ?rs = "map (indexed lib sid) (filter (\<lambda>e. ev_kind e \<noteq> ''raw'') es)"
  have kind: "map rr_seq (filter (\<lambda>r. rr_kind r = k \<and> rr_seq r \<le> snap) ?rs) = map ev_seq (filter (\<lambda>e. ev_kind e = k) ?M)"
    if "k \<in> set metadataKinds" for k
  proof -
    have "k \<noteq> ''raw''" using that by (auto simp: metadataKinds_def)
    then have "filter (\<lambda>x. ev_kind x \<noteq> ''raw'' \<and> ev_kind x = k \<and> ev_seq x \<le> snap) es =
      filter (\<lambda>x. ev_seq x \<le> snap \<and> ev_kind x \<in> set metadataKinds \<and> ev_kind x = k) es"
      using that by (intro filter_cong) auto
    then show ?thesis by (simp add: filter_map comp_def indexed_def)
  qed
  define K where "K = keepPerKind ?M"
  have K: "last_n metadataPerKind (map ev_seq (filter (\<lambda>e. ev_kind e = k) ?M)) = map ev_seq (filter (\<lambda>e. ev_kind e = k) K)" for k
    by (simp only: K_def keepPerKind_kind last_n_map)
  have "\<forall>e \<in> set K. ev_kind e \<in> set metadataKinds"
    using keepPerKind_set [of ?M] by (auto simp: K_def)
  moreover have "distinct metadataKinds" by (simp add: metadataKinds_def)
  ultimately have split: "mset K = (\<Sum>k \<leftarrow> metadataKinds. mset (filter (\<lambda>e. ev_kind e = k) K))"
    by (intro mset_by_kind)
  let ?tails = "map (\<lambda>k. last_n metadataPerKind (map rr_seq (filter (\<lambda>r. rr_kind r = k \<and> rr_seq r \<le> snap) ?rs))) metadataKinds"
  have "?tails = map (\<lambda>k. map ev_seq (filter (\<lambda>e. ev_kind e = k) K)) metadataKinds"
    by (intro map_cong refl) (simp only: kind K)
  then have "mset (concat ?tails) = image_mset ev_seq (\<Sum>k \<leftarrow> metadataKinds. mset (filter (\<lambda>e. ev_kind e = k) K))"
    by (simp only: mset_concat) (simp add: metadataKinds_def)
  then have "mset (concat ?tails) = mset (map ev_seq K)" unfolding split [symmetric] by simp
  moreover have "sorted (map ev_seq K)"
    unfolding K_def keepPerKind_def using assms by (intro keep_from_sorted) (simp add: sorted_filter)
  ultimately have "sort (concat ?tails) = map ev_seq K" by (rule properties_for_sort [OF sym])
  then show ?thesis by (simp only: metadata_seqs_def K_def)
qed

section \<open>The database and the records\<close>

lemma page_memory:
  assumes "holds_memory d sid st es" "pr_session r = sid"
  shows "Page d st r = FromEvents (sl_view d) es r"
proof (cases "0 < pr_after r \<and> 0 < pr_before r")
  case False
  let ?snap = "if pr_snapshot r = 0 then max_or_zero (map ev_seq es) else pr_snapshot r"
  let ?M = "filter (\<lambda>e. ev_kind e \<in> set metadataKinds) (filter (\<lambda>e. ev_seq e \<le> ?snap) es)"
  have h: "decoded d sid st es" "rows_of st sid = table sid (pj_versions (Apply_all (sl_view d) es))"
    "records_of st sid = map (indexed (vl_lib (sl_view d)) sid) (filter (\<lambda>e. ev_kind e \<noteq> ''raw'') es)"
    using assms(1) by (simp_all add: holds_memory_def)
  have snap: "page_snapshot st r = ?snap" by (simp add: page_snapshot_def assms(2) decoded_seqs [OF h(1)])
  have "set (keepPerKind ?M) \<subseteq> set es" using keepPerKind_set [of ?M] by auto
  then have "concat (map (\<lambda>n. filter (\<lambda>e. ev_seq e = n) es) (map ev_seq (keepPerKind ?M))) = keepPerKind ?M"
    using h(1) by (intro pick_by_seq) (simp_all add: decoded_def)
  then have bodies: "those (map (sl_decode d) (metadata_bodies st sid (metadata_seqs (records_of st sid) ?snap))) = Some (keepPerKind ?M)"
    by (simp add: decoded_bodies [OF h(1)] h(3) metadata_seqs_memory [OF decoded_sorted [OF h(1)]])
  have "Page d st r = Inr (page_of r ?snap (memory_rows (Apply_all (sl_view d) (filter (\<lambda>e. ev_seq e \<le> ?snap) es)))
      (map (metadata (vl_lib (sl_view d))) (keepPerKind ?M)))"
    using False bodies current_rows_memory [OF decoded_sorted [OF h(1)] h(2), of ?snap]
    unfolding Page_def Let_def snap assms(2) by simp
  also have "\<dots> = FromEvents (sl_view d) es r"
    using False keepPerKind_map [of "metadata (vl_lib (sl_view d))" ?M]
    unfolding FromEvents_def Let_def memory_rows_def by simp
  finally show ?thesis .
qed (simp add: Page_def FromEvents_def)

lemma details_memory:
  assumes "holds_memory d sid st es"
  shows "Details d st sid n = DetailsFromEvents (vl_lib (sl_view d)) es n"
proof -
  let ?lib = "vl_lib (sl_view d)"
  have h: "decoded d sid st es" "records_of st sid = map (indexed ?lib sid) (filter (\<lambda>e. ev_kind e \<noteq> ''raw'') es)"
    using assms by (simp_all add: holds_memory_def)
  have look: "list_all2 (body_of d) rs es \<Longrightarrow>
    (case filter (\<lambda>r. er_seq r = n) rs of [] \<Rightarrow> find (\<lambda>e. ev_seq e = n) es = None
     | r # _ \<Rightarrow> find (\<lambda>e. ev_seq e = n) es = sl_decode d (er_data r) \<and> sl_decode d (er_data r) \<noteq> None)" for rs
    by (induction rs es rule: list_all2_induct) (auto split: list.split)
  have anchor: "case filter (\<lambda>r. er_seq r = n) (events_of st sid) of [] \<Rightarrow> find (\<lambda>e. ev_seq e = n) es = None
     | r # _ \<Rightarrow> find (\<lambda>e. ev_seq e = n) es = sl_decode d (er_data r) \<and> sl_decode d (er_data r) \<noteq> None"
    by (rule look) (use h(1) in \<open>simp add: decoded_def\<close>)
  show ?thesis
  proof (cases "filter (\<lambda>r. er_seq r = n) (events_of st sid)")
    case Nil
    then show ?thesis using anchor by (simp add: Details_def DetailsFromEvents_def)
  next
    case (Cons r rest)
    then obtain a where a: "find (\<lambda>e. ev_seq e = n) es = Some a" "sl_decode d (er_data r) = Some a"
      using anchor by auto
    let ?asked = "map rr_request (filter (\<lambda>x. rr_related x = ev_request a \<and> rr_kind x = ''approval'')
        (filter (\<lambda>x. rr_run x = ev_run a) (records_of st sid)))"
    let ?approvals = "map ev_request (filter (\<lambda>e. ev_run e = ev_run a \<and> ev_kind e = ''approval'' \<and> related ?lib e = ev_request a) es)"
    let ?hit = "filter (\<lambda>x. rr_request x = ev_request a \<or> rr_related x = ev_request a \<or> rr_request x \<in> set ?asked)
        (filter (\<lambda>x. rr_run x = ev_run a) (records_of st sid))"
    let ?out = "filter (\<lambda>e. ev_run e = ev_run a \<and> ev_kind e \<noteq> ''raw'' \<and>
        (ev_request e = ev_request a \<or> related ?lib e = ev_request a \<or> ev_request e \<in> set ?approvals)) es"
    have "filter (\<lambda>e. ev_kind e \<noteq> ''raw'' \<and> ev_run e = ev_run a \<and> related ?lib e = ev_request a \<and> ev_kind e = ''approval'') es =
        filter (\<lambda>e. ev_run e = ev_run a \<and> ev_kind e = ''approval'' \<and> related ?lib e = ev_request a) es"
      by (intro filter_cong) auto
    then have asked: "?asked = ?approvals" by (simp add: h(2) filter_map comp_def indexed_def)
    have "filter (\<lambda>e. ev_kind e \<noteq> ''raw'' \<and> ev_run e = ev_run a \<and>
        (ev_request e = ev_request a \<or> related ?lib e = ev_request a \<or> ev_request e \<in> set ?approvals)) es = ?out"
      by (intro filter_cong) auto
    then have "map rr_seq ?hit = map ev_seq ?out"
      unfolding asked by (simp add: h(2) filter_map comp_def indexed_def)
    then have "those (map (sl_decode d) (metadata_bodies st sid (map rr_seq ?hit))) = Some ?out"
      using pick_by_seq [of es ?out] h(1) by (simp add: decoded_bodies [OF h(1)] decoded_def)
    then show ?thesis
      using Cons a unfolding Details_def DetailsFromEvents_def Let_def by (simp only: list.case option.case if_distrib)  simp
  qed
qed

end
