(* ===== verification/Transcript_Walk.thy ===== *)
theory Transcript_Walk
  imports Transcript_Pages
begin

text \<open>
  What a reader of pages and versions relies on, as a locale: the rows of a snapshot stand in order
  and a page is a window on them.  It is interpreted on the records and on the database, whose
  tables every sync keeps in order.
\<close>

section \<open>Walking back through pages\<close>

text \<open>A reader that asks for the page before the first row it has, as long as there is an older one.\<close>

fun read_back :: "nat \<Rightarrow> (page_request \<Rightarrow> page_error + page_reply) \<Rightarrow> page_request \<Rightarrow> row list" where
  "read_back 0 ask r = []"
| "read_back (Suc n) ask r =
     (case ask r of
        Inl _ \<Rightarrow> []
      | Inr p \<Rightarrow>
          (if pg_older p
           then read_back n ask (r\<lparr>pr_before := row_seq (hd (pg_events p)), pr_snapshot := pg_snapshot p\<rparr>) else []) @ pg_events p)"

definition below :: "nat \<Rightarrow> row list \<Rightarrow> row list" where
  "below b xs = filter (\<lambda>v. b = 0 \<or> row_seq v < b) xs"

lemma pageLimit_pos: "0 < pageLimit n" "pageLimit n \<le> MaxPage"
  by (simp_all add: pageLimit_def DefaultPage_def MaxPage_def)

lemma last_n_split: "\<exists>ys. xs = ys @ last_n n xs"
  by (metis append_take_drop_id last_n_def)

lemma last_n_Nil: "0 < n \<Longrightarrow> last_n n xs = [] \<longleftrightarrow> xs = []"
  by (cases xs) (auto simp: last_n_def)

lemma before_first:
  assumes "sorted (map row_seq all)" "distinct (map row_seq all)" "all = ys @ x # zs"
  shows "filter (\<lambda>v. row_seq v < row_seq x) all = ys"
proof -
  have "sorted_wrt (<) (map row_seq (ys @ x # zs))"
    using assms by (simp add: strict_sorted_iff)
  then have "\<forall>v \<in> set ys. row_seq v < row_seq x" "\<forall>v \<in> set zs. \<not> row_seq v < row_seq x"
    by (auto simp: sorted_wrt_append dest: less_imp_not_less)
  then show ?thesis by (simp add: assms(3) filter_id_conv filter_empty_conv)
qed

lemma below_split:
  fixes b :: nat
  assumes "sorted (map row_seq all)"
  shows "\<exists>rest. all = below b all @ rest"
proof (cases b)
  case 0
  then show ?thesis by (simp add: below_def)
next
  case (Suc k)
  have "below b all = filter (\<lambda>v. row_seq v \<le> k) all" by (simp add: below_def Suc less_Suc_eq_le)
  then show ?thesis using sorted_filter_append [OF assms, of k] by metis
qed

locale row_source =
  fixes rows :: "'s \<Rightarrow> nat \<Rightarrow> row list"
    and top :: "'s \<Rightarrow> nat"
    and ask :: "'s \<Rightarrow> page_request \<Rightarrow> page_error + page_reply"
    and ok :: "'s \<Rightarrow> bool"
  assumes order: "ok s \<Longrightarrow> sorted (map row_seq (rows s n)) \<and> distinct (map row_seq (rows s n))"
    and page: "ok s \<Longrightarrow> pr_after r = 0 \<or> pr_before r = 0 \<Longrightarrow> snap = (if pr_snapshot r = 0 then top s else pr_snapshot r) \<Longrightarrow>
      \<exists>meta. ask s r = Inr (page_of r snap (rows s snap) meta)"
begin

lemma read_back_rows:
  assumes "ok s" "pr_after r = 0" "length (below (pr_before r) (rows s (if pr_snapshot r = 0 then top s else pr_snapshot r))) \<le> n"
  shows "read_back n (ask s) r = below (pr_before r) (rows s (if pr_snapshot r = 0 then top s else pr_snapshot r))"
  using assms(2,3)
proof (induction n arbitrary: r)
  case (Suc n)
  define snap where "snap = (if pr_snapshot r = 0 then top s else pr_snapshot r)"
  define all where "all = rows s snap"
  define win where "win = last_n (pageLimit (pr_limit r)) (below (pr_before r) all)"
  obtain meta where ask: "ask s r = Inr (page_of r snap all meta)"
    using page [OF assms(1) disjI1 [OF Suc.prems(1)] snap_def] by (auto simp: all_def)
  have ord: "sorted (map row_seq all)" "distinct (map row_seq all)" using order [OF assms(1)] by (simp_all add: all_def)
  have win: "pg_events (page_of r snap all meta) = win"
    using Suc.prems(1) by (simp add: page_of_def page_rows_def Let_def win_def below_def)
  show ?case
  proof (cases win)
    case Nil
    then have "below (pr_before r) all = []" using pageLimit_pos(1) last_n_Nil by (metis win_def)
    moreover have "\<not> pg_older (page_of r snap all meta)" using win Nil by (simp add: page_of_def Let_def)
    ultimately show ?thesis by (simp add: ask win Nil snap_def [symmetric] all_def [symmetric])
  next
    case (Cons x xs)
    obtain ys where ys: "below (pr_before r) all = ys @ win" using last_n_split by (metis win_def)
    obtain rest where rest: "all = below (pr_before r) all @ rest" using below_split [OF ord(1)] by blast
    have "all = ys @ x # xs @ rest" using rest unfolding ys Cons by simp
    then have first: "filter (\<lambda>v. row_seq v < row_seq x) all = ys" using before_first [OF ord] by blast
    have older: "pg_older (page_of r snap all meta) \<longleftrightarrow> ys \<noteq> []"
      using win Cons first by (simp add: page_of_def Let_def)
    show ?thesis
    proof (cases "ys = []")
      case True
      then show ?thesis using older ys by (simp add: ask win snap_def [symmetric] all_def [symmetric])
    next
      case False
      then have "0 < row_seq x" using first by (metis filter_False not_less_zero neq0_conv)
      let ?r = "r\<lparr>pr_before := row_seq x, pr_snapshot := snap\<rparr>"
      have same: "(if pr_snapshot ?r = 0 then top s else pr_snapshot ?r) = snap" by (simp add: snap_def)
      have "below (pr_before ?r) all = ys" using first \<open>0 < row_seq x\<close> by (simp add: below_def)
      moreover have "length ys \<le> n"
        using Suc.prems(2) ys Cons by (simp add: snap_def [symmetric] all_def [symmetric])
      ultimately have "read_back n (ask s) ?r = ys"
        using Suc.IH [of ?r] Suc.prems(1) unfolding same by (simp add: all_def)
      moreover have "pg_snapshot (page_of r snap all meta) = snap" by (simp add: page_of_def Let_def)
      ultimately show ?thesis using older False ys
        by (simp add: ask win Cons snap_def [symmetric] all_def [symmetric])
    qed
  qed
qed simp

lemma page_window:
  assumes "ok s" "pr_after r = 0 \<or> pr_before r = 0" "ask s r = Inr p"
  shows "length (pg_events p) \<le> MaxPage"
    and "\<exists>ys zs. rows s (pg_snapshot p) = ys @ pg_events p @ zs \<and> (pg_events p \<noteq> [] \<longrightarrow> (pg_older p \<longleftrightarrow> ys \<noteq> []) \<and> (pg_newer p \<longleftrightarrow> zs \<noteq> []))"
proof -
  define snap where "snap = (if pr_snapshot r = 0 then top s else pr_snapshot r)"
  define all where "all = rows s snap"
  obtain meta where p: "p = page_of r snap all meta"
    using page [OF assms(1,2) snap_def] assms(3) by (auto simp: all_def)
  have ord: "sorted (map row_seq all)" "distinct (map row_seq all)" using order [OF assms(1)] by (simp_all add: all_def)
  have events: "pg_events p = page_rows r all" by (simp add: p page_of_def Let_def)
  show "length (pg_events p) \<le> MaxPage"
    using pageLimit_pos(2) [of "pr_limit r"] by (auto simp: events page_rows_def Let_def last_n_def)
  have "\<exists>ys zs. all = ys @ page_rows r all @ zs"
  proof (cases "0 < pr_after r")
    case True
    let ?hi = "filter (\<lambda>v. pr_after r < row_seq v) all"
    have "all = filter (\<lambda>v. row_seq v \<le> pr_after r) all @ take (pageLimit (pr_limit r)) ?hi @ drop (pageLimit (pr_limit r)) ?hi"
      by (simp add: sorted_filter_append [OF ord(1)])
    moreover have "page_rows r all = take (pageLimit (pr_limit r)) ?hi" using True by (simp add: page_rows_def Let_def)
    ultimately show ?thesis by metis
  next
    case False
    then show ?thesis
      using below_split [OF ord(1), of "pr_before r"] last_n_split [of "below (pr_before r) all" "pageLimit (pr_limit r)"]
      by (auto simp: page_rows_def Let_def below_def) (metis append.assoc)
  qed
  then obtain ys zs where all: "all = ys @ pg_events p @ zs" by (auto simp: events)
  have "(pg_older p \<longleftrightarrow> ys \<noteq> []) \<and> (pg_newer p \<longleftrightarrow> zs \<noteq> [])" if ne: "pg_events p \<noteq> []"
  proof -
    obtain x xs where x: "pg_events p = x # xs" using ne by (cases "pg_events p") auto
    obtain us l where l: "pg_events p = us @ [l]" using ne by (metis append_butlast_last_id)
    have "filter (\<lambda>v. row_seq v < row_seq x) all = ys" using before_first [OF ord, of ys x "xs @ zs"] all x by simp
    moreover have "list_ex (\<lambda>v. row_seq l < row_seq v) all \<longleftrightarrow> zs \<noteq> []"
    proof -
      have "sorted_wrt (<) (map row_seq (ys @ (us @ [l]) @ zs))" using ord all l by (simp add: strict_sorted_iff)
      then have "\<forall>v \<in> set (ys @ us @ [l]). \<not> row_seq l < row_seq v" "\<forall>v \<in> set zs. row_seq l < row_seq v"
        by (auto simp: sorted_wrt_append dest: less_imp_not_less)
      then show ?thesis by (cases zs) (auto simp: all l list_ex_iff)
    qed
    moreover have "page_rows r all \<noteq> []" "hd (page_rows r all) = x" "last (page_rows r all) = l"
      using events x l by (metis list.distinct(1), metis list.sel(1), metis last_snoc)
    ultimately show ?thesis by (simp add: p page_of_def Let_def)
  qed
  moreover have "pg_snapshot p = snap" by (simp add: p page_of_def Let_def)
  ultimately show "\<exists>ys zs. rows s (pg_snapshot p) = ys @ pg_events p @ zs \<and> (pg_events p \<noteq> [] \<longrightarrow> (pg_older p \<longleftrightarrow> ys \<noteq> []) \<and> (pg_newer p \<longleftrightarrow> zs \<noteq> []))"
    using all by (auto simp: all_def)
qed

end

interpretation memory: row_source "\<lambda>(w, es) n. memory_rows (Apply_all w (filter (\<lambda>e. ev_seq e \<le> n) es))"
    "\<lambda>(w, es). max_or_zero (map ev_seq es)" "\<lambda>(w, es). FromEvents w es" "\<lambda>_. True"
proof unfold_locales
  fix s :: "view_lib \<times> event list" and n :: nat
  show "sorted (map row_seq ((\<lambda>(w, es) n. memory_rows (Apply_all w (filter (\<lambda>e. ev_seq e \<le> n) es))) s n)) \<and>
      distinct (map row_seq ((\<lambda>(w, es) n. memory_rows (Apply_all w (filter (\<lambda>e. ev_seq e \<le> n) es))) s n))"
    using memory_rows_order(1) [OF Apply_all_well_shown] by (cases s) simp
next
  fix s :: "view_lib \<times> event list" and r :: page_request and snap :: nat
  assume "pr_after r = 0 \<or> pr_before r = 0" "snap = (if pr_snapshot r = 0 then (\<lambda>(w, es). max_or_zero (map ev_seq es)) s else pr_snapshot r)"
  then show "\<exists>meta. (\<lambda>(w, es). FromEvents w es) s r =
      Inr (page_of r snap ((\<lambda>(w, es) n. memory_rows (Apply_all w (filter (\<lambda>e. ev_seq e \<le> n) es))) s snap) meta)"
    by (cases s) (auto simp: FromEvents_def Let_def memory_rows_def)
qed

section \<open>Tables in order\<close>

definition in_order :: "string \<Rightarrow> index \<Rightarrow> bool" where
  "in_order sid st \<longleftrightarrow> distinct (map version_key (rows_of st sid)) \<and> (\<forall>x \<in> set (rows_of st sid). row_seq (vr_row x) = vr_seq x)"

definition readable :: "store_lib \<Rightarrow> string \<Rightarrow> index \<Rightarrow> bool" where
  "readable d sid st \<longleftrightarrow> (\<forall>r \<in> set (events_of st sid). sl_decode d (er_data r) \<noteq> None)"

lemma readable_bodies:
  assumes "readable d sid st"
  shows "\<exists>es. those (map (sl_decode d) (metadata_bodies st sid ns)) = Some es"
proof -
  have "those xs \<noteq> None" if "None \<notin> set xs" for xs :: "event option list"
    using that
  proof (induction xs)
    case (Cons x xs)
    then show ?case by (cases x) auto
  qed simp
  moreover have "None \<notin> set (map (sl_decode d) (metadata_bodies st sid ns))"
    using assms by (auto simp: readable_def metadata_bodies_def dest!: sym [of None])
  ultimately show ?thesis by (metis not_None_eq)
qed

lemma Page_rows:
  assumes "readable d sid st" "pr_after r = 0 \<or> pr_before r = 0"
  shows "\<exists>meta. Page d st (r\<lparr>pr_session := sid\<rparr>) =
    Inr (page_of r (if pr_snapshot r = 0 then max_or_zero (map er_seq (events_of st sid)) else pr_snapshot r)
      (current_rows st sid (if pr_snapshot r = 0 then max_or_zero (map er_seq (events_of st sid)) else pr_snapshot r)) meta)"
proof -
  let ?r = "r\<lparr>pr_session := sid\<rparr>"
  have snap: "page_snapshot st ?r = (if pr_snapshot r = 0 then max_or_zero (map er_seq (events_of st sid)) else pr_snapshot r)"
    by (simp add: page_snapshot_def)
  have same: "page_of ?r n all meta = page_of r n all meta" for n all meta
    by (simp add: page_of_def page_rows_def Let_def cong: if_cong)
  obtain es where "those (map (sl_decode d) (metadata_bodies st sid (metadata_seqs (records_of st sid) (page_snapshot st ?r)))) = Some es"
    using readable_bodies [OF assms(1)] by blast
  then have "Page d st ?r = Inr (page_of ?r (page_snapshot st ?r) (current_rows st sid (page_snapshot st ?r))
      (map (metadata (vl_lib (sl_view d))) es))"
    using assms(2) by (auto simp: Page_def Let_def)
  then show ?thesis unfolding same snap by blast
qed

interpretation database: row_source "\<lambda>(d, st, sid) n. current_rows st sid n"
    "\<lambda>(d, st, sid). max_or_zero (map er_seq (events_of st sid))" "\<lambda>(d, st, sid) r. Page d st (r\<lparr>pr_session := sid\<rparr>)"
    "\<lambda>(d, st, sid). in_order sid st \<and> readable d sid st"
proof unfold_locales
  fix s :: "store_lib \<times> index \<times> string" and n :: nat
  assume "(\<lambda>(d, st, sid). in_order sid st \<and> readable d sid st) s"
  then show "sorted (map row_seq ((\<lambda>(d, st, sid) n. current_rows st sid n) s n)) \<and>
      distinct (map row_seq ((\<lambda>(d, st, sid) n. current_rows st sid n) s n))"
    using current_rows_order by (cases s) (simp add: in_order_def)
next
  fix s :: "store_lib \<times> index \<times> string" and r :: page_request and snap :: nat
  assume a: "(\<lambda>(d, st, sid). in_order sid st \<and> readable d sid st) s" "pr_after r = 0 \<or> pr_before r = 0"
    "snap = (if pr_snapshot r = 0 then (\<lambda>(d, st, sid). max_or_zero (map er_seq (events_of st sid))) s else pr_snapshot r)"
  obtain d st sid where s: "s = (d, st, sid)" by (cases s)
  have "readable d sid st" using a(1) by (simp add: s)
  from Page_rows [OF this a(2)] show "\<exists>meta. (\<lambda>(d, st, sid) r. Page d st (r\<lparr>pr_session := sid\<rparr>)) s r =
      Inr (page_of r snap ((\<lambda>(d, st, sid) n. current_rows st sid n) s snap) meta)"
    unfolding a(3) s prod.case .
qed

end
