(* ===== verification/Reading.thy ===== *)
theory Reading
  imports Transcript_Walk
begin

text \<open>
  What a sync promises its readers, and where it does not: the tables stay in order and other
  sessions untouched, a second look finds nothing to do, pages of a snapshot already taken do not
  change, and an answer that arrives after its question was pruned is lost.
\<close>

section \<open>What a sync writes\<close>

lemma restore_row_versions [simp]: "pj_versions (restore_row v p) = pj_versions p"
  by (simp add: restore_row_def Let_def)

lemma restore_end_versions [simp]: "pj_versions (restore_end rs run p) = pj_versions p"
  by (simp add: restore_end_def Let_def split: option.split)

lemma restore_approval_versions [simp]: "pj_versions (restore_approval r p) = pj_versions p"
  by (simp add: restore_approval_def)

lemma fold_same:
  assumes "\<And>x q. g (f x q) = g q"
  shows "g (fold f xs p) = g p"
  using assms by (induction xs arbitrary: p) simp_all

lemma restore_versions: "pj_versions (restore vs rs) = []"
  by (simp add: restore_def Let_def fold_same [of pj_versions] new_projection_def)

lemma start_versions: "pj_versions (start_projection sid st c) = []"
  by (auto simp: start_projection_def Let_def restore_versions new_projection_def Cache_use_def split: prod.split option.split)

lemma fold_native_versions:
  "\<exists>new. pj_versions (snd (fold (apply_native d sid) es (st, p))) = pj_versions p @ new \<and>
     (\<forall>(n, u, v) \<in> set new. n = row_seq v \<and> u \<in> ev_seq ` set es)"
proof (induction es arbitrary: st p)
  case (Cons e es)
  obtain st1 p1 where s: "apply_native d sid e (st, p) = (st1, p1)" by (cases "apply_native d sid e (st, p)")
  have "grows (ev_seq e) p p1"
    using s by (auto simp: apply_native_def Let_def grows_record)
  then obtain a where a: "pj_versions p1 = pj_versions p @ a" "\<forall>(n, u, v) \<in> set a. n = row_seq v \<and> u = ev_seq e"
    by (auto simp: grows_def)
  obtain b where "pj_versions (snd (fold (apply_native d sid) es (st1, p1))) = pj_versions p1 @ b"
    "\<forall>(n, u, v) \<in> set b. n = row_seq v \<and> u \<in> ev_seq ` set es"
    using Cons.IH [of st1 p1] by blast
  with a show ?case by (intro exI [of _ "a @ b"]) (auto simp: s)
qed simp

lemma fold_native_store:
  "\<exists>rs. fst (fold (apply_native d sid) es (st, p)) = st\<lparr>ix_records := rs\<rparr> \<and>
     (\<forall>other. other \<noteq> sid \<longrightarrow> filter (\<lambda>r. rr_session r = other) rs = filter (\<lambda>r. rr_session r = other) (ix_records st))"
proof (induction es arbitrary: st p)
  case (Cons e es)
  let ?st = "st\<lparr>ix_records := put_record (indexed (vl_lib (sl_view d)) sid e) (ix_records st)\<rparr>"
  obtain p1 where one: "apply_native d sid e (st, p) = (?st, p1)" by (simp add: apply_native_def Let_def)
  obtain rs where rs: "fst (fold (apply_native d sid) es (?st, p1)) = ?st\<lparr>ix_records := rs\<rparr>"
    "\<And>other. other \<noteq> sid \<Longrightarrow> filter (\<lambda>r. rr_session r = other) rs = filter (\<lambda>r. rr_session r = other) (ix_records ?st)"
    using Cons.IH [of ?st p1] by blast
  have "filter (\<lambda>r. rr_session r = other) (ix_records ?st) = filter (\<lambda>r. rr_session r = other) (ix_records st)"
    if "other \<noteq> sid" for other
    using that by (auto simp: put_record_def indexed_def intro: filter_cong)
  with rs show ?case by (intro exI [of _ rs]) (simp add: one)
next
  case Nil
  show ?case by (intro exI [of _ "ix_records st"]) simp
qed

text \<open>The four ways a sync ends.\<close>

lemma SyncWith_change:
  assumes "sync_plan sid st \<in> {Rebuild, Append}"
  shows "SyncWith d sid st c =
     (case sync_change d sid st c of
        None \<Rightarrow> (st, Cache_Drop c, Some Undecodable)
      | Some (st', p) \<Rightarrow> (fst (commit_sync sid c st' p), snd (commit_sync sid c st' p), None))"
  using assms by (auto simp: SyncWith_def split: option.split prod.split)

lemma sync_cases:
  assumes "SyncWith d sid st c = (st', c', x)"
  obtains (idle) "sync_plan sid st = Nothing_new" "st' = st" "c' = c" "x = None"
  | (remembered) "sync_plan sid st = Remember" "st' = remember sid st" "c' = c" "x = None"
  | (failed) "sync_plan sid st \<in> {Rebuild, Append}" "st' = st" "c' = Cache_Drop c" "x = Some Undecodable"
  | (changed) st1 p where "sync_plan sid st \<in> {Rebuild, Append}" "sync_change d sid st c = Some (st1, p)"
      "st' = fst (commit_sync sid c st1 p)" "c' = snd (commit_sync sid c st1 p)" "x = None"
proof -
  have split_change: thesis
    if plan: "sync_plan sid st \<in> {Rebuild, Append}" and r: "(case sync_change d sid st c of
        None \<Rightarrow> (st, Cache_Drop c, Some Undecodable)
      | Some (st', p) \<Rightarrow> (fst (commit_sync sid c st' p), snd (commit_sync sid c st' p), None)) = (st', c', x)"
  proof (cases "sync_change d sid st c")
    case None
    then have "st' = st" "c' = Cache_Drop c" "x = Some Undecodable" using r by simp_all
    then show ?thesis by (rule failed [OF plan])
  next
    case (Some a)
    obtain st1 p where a: "a = (st1, p)" by (cases a)
    have "st' = fst (commit_sync sid c st1 p)" "c' = snd (commit_sync sid c st1 p)" "x = None" using r by (simp_all add: Some a)
    then show ?thesis by (rule changed [OF plan Some [unfolded a]])
  qed
  show thesis
proof (cases "sync_plan sid st")
  case Nothing_new
  then have "st' = st" "c' = c" "x = None" using assms by (simp_all add: SyncWith_def)
  then show ?thesis by (rule idle [OF Nothing_new])
next
  case Remember
  then have "st' = remember sid st" "c' = c" "x = None" using assms by (simp_all add: SyncWith_def)
  then show ?thesis by (rule remembered [OF Remember])
next
  case Rebuild
  then have change: "sync_plan sid st \<in> {Rebuild, Append}" by simp
  show ?thesis using change assms [unfolded SyncWith_change [OF change]] by (rule split_change)
next
  case Append
  then have change: "sync_plan sid st \<in> {Rebuild, Append}" by simp
  show ?thesis using change assms [unfolded SyncWith_change [OF change]] by (rule split_change)
  qed
qed

text \<open>What a change applies, and to which tables.\<close>

definition change_after :: "string \<Rightarrow> index \<Rightarrow> nat" where
  "change_after sid st = (if sync_plan sid st = Rebuild then 0 else snd (get_or (0, 0) (ix_state st) sid))"

definition change_base :: "string \<Rightarrow> index \<Rightarrow> index" where
  "change_base sid st = (if sync_plan sid st = Rebuild then clear_session sid st else st)"

lemma sync_change_Some:
  assumes "sync_change d sid st c = Some (st1, p)"
  obtains es where "natives d sid (change_after sid st) (change_base sid st) = Some es"
    "fold (apply_native d sid) es (change_base sid st, start_projection sid st c) = (st1, p)"
  using assms by (auto simp: sync_change_def change_after_def change_base_def Let_def split: option.splits)

lemma prune_versions [simp]: "pj_versions (prune floor p) = pj_versions p"
  by (simp add: prune_def)

text \<open>The tables after a change: the versions of the new records, over what there was.\<close>

definition put_versions :: "string \<Rightarrow> (nat \<times> nat \<times> row) list \<Rightarrow> version_row list \<Rightarrow> version_row list" where
  "put_versions sid vs T = fold (\<lambda>v. put_version (version_of sid v)) vs T"

lemma put_versions_snoc: "put_versions sid (vs @ [v]) T = put_version (version_of sid v) (put_versions sid vs T)"
  by (simp add: put_versions_def)

lemma ix_rows_publish: "ix_rows (publish sid p st) = put_versions sid (pj_versions p) (ix_rows st)"
  by (simp add: publish_def put_versions_def version_of_def case_prod_beta')

lemma put_version_session:
  "filter (\<lambda>x. vr_session x = other) (put_version (version_of sid v) T) =
     (if other = sid then put_version (version_of sid v) (filter (\<lambda>x. vr_session x = sid) T) else filter (\<lambda>x. vr_session x = other) T)"
  by (auto simp: put_version_def version_of_def split: prod.split intro!: filter_cong)

lemma rows_of_changed:
  "rows_of (publish sid p st) other = (if other = sid then put_versions sid (pj_versions p) (rows_of st sid) else rows_of st other)"
proof -
  have "filter (\<lambda>v. vr_session v = other) (put_versions sid vs T) =
      (if other = sid then put_versions sid vs (filter (\<lambda>v. vr_session v = sid) T) else filter (\<lambda>v. vr_session v = other) T)" for vs T
  proof (induction vs rule: rev_induct)
    case (snoc v vs)
    then show ?case by (simp add: put_versions_snoc put_version_session split: if_splits)
  qed (simp add: put_versions_def)
  then show ?thesis by (simp add: rows_of_def ix_rows_publish)
qed

lemma put_versions_session:
  assumes "\<forall>x \<in> set T. vr_session x = sid"
  shows "\<forall>x \<in> set (put_versions sid vs T). vr_session x = sid"
  using assms by (induction vs rule: rev_induct) (auto simp: put_versions_snoc set_put_version put_versions_def version_of_def split: prod.split)

lemma put_versions_order:
  assumes "\<forall>x \<in> set T. vr_session x = sid \<and> row_seq (vr_row x) = vr_seq x" "distinct (map version_key T)" "\<forall>(n, u, v) \<in> set vs. n = row_seq v"
  shows "distinct (map version_key (put_versions sid vs T)) \<and> (\<forall>x \<in> set (put_versions sid vs T). row_seq (vr_row x) = vr_seq x)"
  using assms(3)
proof (induction vs rule: rev_induct)
  case Nil
  then show ?case using assms(1,2) by (simp add: put_versions_def)
next
  case (snoc w vs)
  obtain n u v where w: "w = (n, u, v)" by (cases w)
  have "\<forall>x \<in> set (put_versions sid vs T). vr_session x = sid" using put_versions_session assms(1) by blast
  then show ?case using snoc by (auto simp: w put_versions_snoc put_version_def distinct_map inj_on_def)
qed

lemma put_versions_old:
  assumes "\<forall>(n, u, v) \<in> set vs. l < u"
  shows "filter (\<lambda>x. vr_updated x \<le> l) (put_versions sid vs T) = filter (\<lambda>x. vr_updated x \<le> l) T"
  using assms
proof (induction vs rule: rev_induct)
  case (snoc w vs)
  obtain n u v where w: "w = (n, u, v)" by (cases w)
  have "l < u" using snoc.prems by (simp add: w)
  then have "filter (\<lambda>x. vr_updated x \<le> l) (put_version (version_of sid w) S) = filter (\<lambda>x. vr_updated x \<le> l) S" for S
    by (auto simp: put_version_def w intro: filter_cong)
  then show ?case using snoc by (simp add: put_versions_snoc)
qed (simp add: put_versions_def)

section \<open>What a sync keeps\<close>

lemma commit_rows:
  "rows_of (fst (commit_sync sid c st p)) other = (if other = sid then put_versions sid (pj_versions p) (rows_of st sid) else rows_of st other)"
proof -
  define q where "q = (if c \<noteq> None \<and> 0 < openTurn (records_of st sid) then prune (openTurn (records_of st sid)) p else p)"
  have "fst (commit_sync sid c st p) = stamp_session sid (publish sid q st)" "pj_versions q = pj_versions p"
    by (simp_all add: commit_sync_def Let_def q_def split_beta)
  moreover have "rows_of (stamp_session sid s) other = rows_of s other" for s
    by (simp add: rows_of_def stamp_session_def remember_def)
  ultimately show ?thesis by (simp add: rows_of_changed)
qed

lemma commit_index:
  "ix_records (fst (commit_sync sid c st p)) = ix_records st" "ix_events (fst (commit_sync sid c st p)) = ix_events st"
  "ix_state (fst (commit_sync sid c st p)) = AList.update sid (min_or_zero (map er_seq (events_of st sid)), max_or_zero (map er_seq (events_of st sid))) (ix_state st)"
  "ix_format (fst (commit_sync sid c st p)) = AList.update sid projectionFormat (ix_format st)"
  "ix_seen (fst (commit_sync sid c st p)) = AList.update sid (max_or_zero (map er_rowid (ix_events st))) (ix_seen st)"
  by (simp_all add: commit_sync_def Let_def stamp_session_def remember_def publish_def events_of_def split: prod.split)

lemma change_base_store:
  "ix_events (change_base sid st) = ix_events st" "ix_state (change_base sid st) = ix_state st"
  "ix_format (change_base sid st) = ix_format st" "ix_seen (change_base sid st) = ix_seen st"
  "rows_of (change_base sid st) other = (if other = sid \<and> sync_plan sid st = Rebuild then [] else rows_of st other)"
  "other \<noteq> sid \<Longrightarrow> filter (\<lambda>r. rr_session r = other) (ix_records (change_base sid st)) = filter (\<lambda>r. rr_session r = other) (ix_records st)"
  by (auto simp: change_base_def clear_session_def rows_of_def filter_empty_conv intro: filter_cong)

text \<open>What a change leaves before it is committed.\<close>

lemma sync_change_store:
  assumes "sync_change d sid st c = Some (st1, p)"
  shows "ix_events st1 = ix_events st" "ix_state st1 = ix_state st" "ix_format st1 = ix_format st" "ix_seen st1 = ix_seen st"
    and "rows_of st1 other = (if other = sid \<and> sync_plan sid st = Rebuild then [] else rows_of st other)"
    and "other \<noteq> sid \<Longrightarrow> filter (\<lambda>r. rr_session r = other) (ix_records st1) = filter (\<lambda>r. rr_session r = other) (ix_records st)"
    and "\<exists>es. natives d sid (change_after sid st) (change_base sid st) = Some es \<and>
      (\<forall>(n, u, v) \<in> set (pj_versions p). n = row_seq v \<and> u \<in> ev_seq ` set es)"
proof -
  obtain es where es: "natives d sid (change_after sid st) (change_base sid st) = Some es"
    and f: "fold (apply_native d sid) es (change_base sid st, start_projection sid st c) = (st1, p)"
    by (rule sync_change_Some [OF assms])
  obtain rs where rs: "st1 = change_base sid st\<lparr>ix_records := rs\<rparr>"
    "\<And>other. other \<noteq> sid \<Longrightarrow> filter (\<lambda>r. rr_session r = other) rs = filter (\<lambda>r. rr_session r = other) (ix_records (change_base sid st))"
    using fold_native_store [of d sid es "change_base sid st" "start_projection sid st c"] by (auto simp: f)
  show "ix_events st1 = ix_events st" "ix_state st1 = ix_state st" "ix_format st1 = ix_format st" "ix_seen st1 = ix_seen st"
    by (simp_all add: rs(1) change_base_store)
  have "rows_of st1 other = rows_of (change_base sid st) other" by (simp add: rs(1) rows_of_def)
  then show "rows_of st1 other = (if other = sid \<and> sync_plan sid st = Rebuild then [] else rows_of st other)"
    by (simp add: change_base_store)
  show "filter (\<lambda>r. rr_session r = other) (ix_records st1) = filter (\<lambda>r. rr_session r = other) (ix_records st)" if "other \<noteq> sid"
    using rs(2) [OF that] change_base_store(6) [OF that, of st] by (simp add: rs(1))
  show "\<exists>es. natives d sid (change_after sid st) (change_base sid st) = Some es \<and>
      (\<forall>(n, u, v) \<in> set (pj_versions p). n = row_seq v \<and> u \<in> ev_seq ` set es)"
    using es fold_native_versions [of d sid es "change_base sid st" "start_projection sid st c"] by (auto simp: f start_versions)
qed

lemma remember_store:
  "rows_of (remember sid st) other = rows_of st other" "records_of (remember sid st) other = records_of st other"
  "ix_events (remember sid st) = ix_events st" "ix_state (remember sid st) = ix_state st" "ix_format (remember sid st) = ix_format st"
  by (simp_all add: remember_def rows_of_def records_of_def)

lemma sync_in_order:
  assumes "in_order sid st" "SyncWith d sid st c = (st', c', x)"
  shows "in_order sid st'"
  using assms(2)
proof (cases rule: sync_cases)
  case (changed st1 p)
  have "\<forall>(n, u, v) \<in> set (pj_versions p). n = row_seq v"
    using sync_change_store(7) [OF changed(2)] by fastforce
  moreover have "in_order sid st1"
    using assms(1) by (simp add: in_order_def sync_change_store(5) [OF changed(2)])
  moreover have "\<forall>x \<in> set (rows_of st1 sid). vr_session x = sid" by (simp add: rows_of_def)
  ultimately show ?thesis
    using put_versions_order [of "rows_of st1 sid" sid "pj_versions p"] by (auto simp: in_order_def changed(3) commit_rows)
qed (use assms(1) in \<open>simp_all add: in_order_def remember_store\<close>)

lemma sync_other_sessions:
  assumes "SyncWith d sid st c = (st', c', x)" "other \<noteq> sid"
  shows "rows_of st' other = rows_of st other \<and> records_of st' other = records_of st other \<and>
    map_of (ix_state st') other = map_of (ix_state st) other \<and> map_of (ix_seen st') other = map_of (ix_seen st) other \<and>
    ix_events st' = ix_events st"
  using assms(1)
proof (cases rule: sync_cases)
  case (changed st1 p)
  then show ?thesis
    using assms(2) sync_change_store [OF changed(2)]
    by (simp add: commit_rows commit_index records_of_def)
qed (use assms(2) in \<open>simp_all add: remember_store, simp_all add: remember_def\<close>)

text \<open>Every record's body carries the number it is filed under.\<close>

definition filed :: "store_lib \<Rightarrow> string \<Rightarrow> index \<Rightarrow> bool" where
  "filed d sid st \<longleftrightarrow> (\<forall>r \<in> set (events_of st sid). case sl_decode d (er_data r) of None \<Rightarrow> True | Some e \<Rightarrow> ev_seq e = er_seq r)"

lemma those_members: "those xs = Some ys \<Longrightarrow> y \<in> set ys \<Longrightarrow> Some y \<in> set xs"
proof (induction xs arbitrary: ys)
  case (Cons x xs)
  then show ?case by (cases x) auto
qed simp

lemma natives_after:
  assumes "natives d sid after st = Some es" "filed d sid st" "e \<in> set es"
  shows "after < ev_seq e"
proof -
  obtain r where "r \<in> set (events_of st sid)" "after < er_seq r" "sl_decode d (er_data r) = Some e"
    using those_members [OF assms(1) [unfolded natives_def decode_all_def] assms(3)] by auto
  then show ?thesis using assms(2) by (auto simp: filed_def)
qed

lemma append_old_rows:
  assumes "filed d sid st" "sync_plan sid st = Append" "SyncWith d sid st c = (st', c', x)"
    and l: "l = snd (get_or (0, 0) (ix_state st) sid)"
  shows "filter (\<lambda>v. vr_updated v \<le> l) (rows_of st' sid) = filter (\<lambda>v. vr_updated v \<le> l) (rows_of st sid)"
  using assms(3)
proof (cases rule: sync_cases)
  case (changed st1 p)
  have base: "change_base sid st = st" "change_after sid st = l"
    by (simp_all add: change_base_def change_after_def assms(2) l)
  obtain es where es: "natives d sid l st = Some es" "\<forall>(n, u, v) \<in> set (pj_versions p). n = row_seq v \<and> u \<in> ev_seq ` set es"
    using sync_change_store(7) [OF changed(2)] by (auto simp: base)
  have "\<forall>(n, u, v) \<in> set (pj_versions p). l < u"
    using es(2) natives_after [OF es(1) assms(1)] by fastforce
  then show ?thesis
    by (simp add: changed(3) commit_rows put_versions_old sync_change_store(5) [OF changed(2)] assms(2))
qed (use assms(2) in simp_all)

lemma current_rows_upto:
  assumes "filter (\<lambda>v. vr_updated v \<le> l) (rows_of st' sid) = filter (\<lambda>v. vr_updated v \<le> l) (rows_of st sid)" "snap \<le> l"
  shows "current_rows st' sid snap = current_rows st sid snap"
proof -
  have "filter (\<lambda>v. vr_updated v \<le> snap) (filter (\<lambda>v. vr_updated v \<le> l) xs) = filter (\<lambda>v. vr_updated v \<le> snap) xs" for xs
    using assms(2) by (auto intro: filter_cong)
  then have "filter (\<lambda>v. vr_updated v \<le> snap) (rows_of st' sid) = filter (\<lambda>v. vr_updated v \<le> snap) (rows_of st sid)"
    using assms(1) by metis
  then show ?thesis by (simp add: current_rows_def)
qed

lemma settled_plan:
  assumes "map_of (ix_state st) sid = Some (min_or_zero (map er_seq (events_of st sid)), max_or_zero (map er_seq (events_of st sid)))"
    "get_or 0 (ix_format st) sid = projectionFormat" "get_or 0 (ix_seen st) sid = max_or_zero (map er_rowid (ix_events st))"
  shows "sync_plan sid st = Nothing_new"
  using assms by (simp add: sync_plan_def get_or_def Let_def)

lemma remember_plan:
  assumes "sync_plan sid st = Remember"
  shows "map_of (ix_state st) sid = Some (min_or_zero (map er_seq (events_of st sid)), max_or_zero (map er_seq (events_of st sid)))"
    and "get_or 0 (ix_format st) sid = projectionFormat"
  using assms by (auto simp: sync_plan_def Let_def get_or_def split: if_splits prod.splits option.splits)

lemma sync_settles:
  assumes "SyncWith d sid st c = (st', c', None)"
  shows "sync_plan sid st' = Nothing_new"
  using assms
proof (cases rule: sync_cases)
  case remembered
  show ?thesis
    by (rule settled_plan)
      (use remember_plan [OF remembered(1)] in \<open>simp_all add: remembered(2) remember_def events_of_def get_or_def\<close>)
next
  case (changed st1 p)
  have "events_of st1 sid = events_of st sid" "ix_events st1 = ix_events st"
    using sync_change_store(1) [OF changed(2)] by (simp_all add: events_of_def)
  then show ?thesis
    by (intro settled_plan) (simp_all add: changed(3) commit_index events_of_def get_or_def)
qed simp_all

section \<open>A tool call that ended\<close>

definition tool_state :: "projection \<Rightarrow> string \<Rightarrow> string" where
  "tool_state p k = (case map_of (pj_tools p) k of None \<Rightarrow> [] | Some v \<Rightarrow> state_of_row v)"

lemma not_finished_Nil [simp]: "\<not> finished []"
  by (simp add: finished_def)

lemma tools_put [simp]: "pj_tools (put_row_version v u p) = pj_tools p"
  by (simp add: put_row_version_def)

lemma tools_set_tool: "pj_tools (set_tool k v u p) = AList.update k v (pj_tools p)"
  by (simp add: set_tool_def)

lemma tools_row [simp]: "pj_tools (apply_row w e p) = pj_tools p"
  by (simp add: apply_row_def Let_def)

lemma tools_answer [simp]: "pj_tools (fold_answer w e p) = pj_tools p"
  by (simp add: fold_answer_def Let_def split: option.split)

lemma tools_turn_end [simp]: "pj_tools (apply_turn_end w e p) = pj_tools p"
  by (simp add: apply_turn_end_def forget_turn_def split: option.split)

lemma finished_with_result:
  assumes "finished (state_of_row v)"
  shows "finished (state_of_row (with_result w e v))"
proof (cases "rw_summary v")
  case None
  then show ?thesis using assms by (simp add: state_of_row_def)
qed (simp add: with_result_def Let_def with_state_def state_of_row_def finished_def)

lemma finished_tool:
  assumes "finished (tool_state p k)" "\<not> (ev_kind e = ''tool_call'' \<and> tool_key e = k)"
    "ev_kind e \<in> {''tool_call'', ''tool_result'', ''tool_output''}"
  shows "finished (tool_state (apply_tool w R e p) k)"
proof (cases "tool_key e = k")
  case True
  then have kind: "ev_kind e \<noteq> ''tool_call''" using assms(2) by simp
  obtain v where v: "map_of (pj_tools p) k = Some v" "finished (state_of_row v)"
    using assms(1) by (auto simp: tool_state_def split: option.splits)
  then have "called_row w R e p = v" using True kind by (simp add: called_row_def)
  then show ?thesis
    using v True kind assms(3) finished_with_result [OF v(2)] by (auto simp: apply_tool_def Let_def tool_state_def tools_set_tool)
next
  case False
  then show ?thesis using assms(1) by (simp add: apply_tool_def Let_def tool_state_def tools_set_tool)
qed

lemma finished_decide:
  assumes "finished (tool_state p k)"
  shows "finished (tool_state (decide_tool e p) k)"
  using assms by (auto simp: decide_tool_def Let_def tool_state_def tools_set_tool split: option.splits)

lemma finished_approval:
  assumes "finished (tool_state p k)"
  shows "finished (tool_state (apply_approval w e p) k)"
  using assms by (auto simp: apply_approval_def Let_def tool_state_def tools_set_tool split: option.splits)

lemma finished_step:
  assumes "finished (tool_state p k)" "\<not> (ev_kind e = ''tool_call'' \<and> tool_key e = k)"
  shows "finished (tool_state (Apply_record w R e p) k)"
proof -
  have same: "finished (tool_state q k)" if "pj_tools q = pj_tools p" for q
    using that assms(1) by (simp add: tool_state_def)
  have "finished (tool_state (apply_resolved w e p) k)"
    unfolding apply_resolved_def by (intro finished_decide same) simp
  then show ?thesis
    using finished_tool [OF assms] finished_approval [OF assms(1)] by (simp add: Apply_record_def Let_def same)
qed

text \<open>C11. Once a tool call is shown completed or failed it stays so: whatever records follow, output,
  approvals, decisions and further results included, only a new call under the same run and request
  opens it again.\<close>

theorem tool_stays_finished:
  assumes "finished (tool_state p k)" "\<forall>e \<in> set es. \<not> (ev_kind e = ''tool_call'' \<and> tool_key e = k)"
  shows "finished (tool_state (fold (Apply_record w R) es p) k)"
  using assms by (induction es arbitrary: p) (simp_all add: finished_step)

section \<open>Sample records\<close>

definition sample_view :: view_lib where
  "sample_view = \<lparr>vl_lib = sample_lib, vl_words = (\<lambda>_. None)\<rparr>"

definition filed_as :: "event list \<Rightarrow> string \<Rightarrow> event option" where
  "filed_as es b = find (\<lambda>e. show_nat (ev_seq e) = b) es"

definition sample_history_lib :: "event list \<Rightarrow> store_lib" where
  "sample_history_lib es = \<lparr>sl_view = sample_view, sl_decode = filed_as es,
     sl_kind = (\<lambda>b. case filed_as es b of None \<Rightarrow> [] | Some e \<Rightarrow> ev_kind e)\<rparr>"

lemma sample_store_view [simp]: "sl_view (sample_history_lib es) = sample_view"
  by (simp add: sample_history_lib_def)

definition sample_bodies :: "event list \<Rightarrow> stored_event list" where
  "sample_bodies es = map (\<lambda>e. \<lparr>er_rowid = ev_seq e, er_session = ''s'', er_seq = ev_seq e, er_data = show_nat (ev_seq e)\<rparr>) es"

definition sample_history :: "event list \<Rightarrow> index" where
  "sample_history es = \<lparr>ix_events = sample_bodies es, ix_rows = [], ix_records = [], ix_state = [], ix_format = [], ix_seen = []\<rparr>"

definition rec_event :: "nat \<Rightarrow> string \<Rightarrow> string \<Rightarrow> string \<Rightarrow> event" where
  "rec_event n kind txt rid = zero_event\<lparr>ev_session := ''s'', ev_run := ''r'', ev_seq := n, ev_kind := kind, ev_text := txt, ev_request := rid\<rparr>"

definition tool_turn :: "event list" where
  "tool_turn = [rec_event 1 ''input'' ''hello'' [], rec_event 2 ''tool_call'' ''Read'' ''t'', rec_event 3 ''raw'' [] [],
     rec_event 4 ''tool_result'' [] ''t'', rec_event 5 ''tool_output'' [] ''t'']"

lemma tool_stays_finished_witness:
  defines "v \<equiv> (row_summary sample_view (rec_event 2 ''tool_call'' ''Read'' ''t''))"
  shows "finished (tool_state (fold (Apply_record sample_view no_resolve)
     [rec_event 5 ''tool_output'' [] ''t'', rec_event 6 ''approval_resolved'' ''denied'' ''q'']
     (new_projection\<lparr>pj_tools := [(identity ''r'' ''t'', with_state ''completed'' v)], pj_approvals := [(identity ''r'' ''q'', identity ''r'' ''t'')]\<rparr>))
     (identity ''r'' ''t''))"
proof (rule tool_stays_finished)
  have "rw_summary v \<noteq> None" by (simp add: v_def row_summary_def Let_def)
  then show "finished (tool_state (new_projection\<lparr>pj_tools := [(identity ''r'' ''t'', with_state ''completed'' v)],
      pj_approvals := [(identity ''r'' ''q'', identity ''r'' ''t'')]\<rparr>) (identity ''r'' ''t''))"
    by (auto simp: tool_state_def state_of_row_def with_state_def finished_def)
qed (simp add: rec_event_def)

section \<open>Reading the database\<close>

text \<open>C8. A database rebuilt from the records answers what the records answer: every page, at every
  snapshot, in either direction, with its metadata and its neighbours, and the details of every row
  are those that \<open>FromEvents\<close> and \<open>DetailsFromEvents\<close> compute from the decoded records.\<close>

theorem reads_are_memory:
  assumes "decoded d sid st es" "sync_plan sid st = Rebuild" "SyncWith d sid st c = (st', c', x)" "pr_session r = sid"
  shows "x = None \<and> Page d st' r = FromEvents (sl_view d) es r \<and>
    Details d st' sid n = DetailsFromEvents (vl_lib (sl_view d)) es n"
  using rebuild_holds_memory [OF assms(1-3)] page_memory [OF _ assms(4)] details_memory by auto

lemma reads_are_memory_witness:
  "Page (sample_history_lib tool_turn) (fst (SyncWith (sample_history_lib tool_turn) ''s'' (sample_history tool_turn) None))
      \<lparr>pr_session = ''s'', pr_before = 3, pr_after = 0, pr_snapshot = 4, pr_limit = 1\<rparr> =
    FromEvents sample_view tool_turn \<lparr>pr_session = ''s'', pr_before = 3, pr_after = 0, pr_snapshot = 4, pr_limit = 1\<rparr>"
proof -
  let ?r = "SyncWith (sample_history_lib tool_turn) ''s'' (sample_history tool_turn) None"
  have "decoded (sample_history_lib tool_turn) ''s'' (sample_history tool_turn) tool_turn" by code_simp
  moreover have "sync_plan ''s'' (sample_history tool_turn) = Rebuild" by code_simp
  moreover obtain st' c' x where r: "?r = (st', c', x)" by (cases ?r)
  ultimately have "Page (sample_history_lib tool_turn) st' q = FromEvents (sl_view (sample_history_lib tool_turn)) tool_turn q" if "pr_session q = ''s''" for q
    using reads_are_memory that by blast
  then show ?thesis by (simp add: r)
qed

text \<open>C10. Reading back page by page, each page asked for before the first row of the last and at the
  snapshot of the first, ends after at most as many pages as there are rows and yields every row of
  the conversation once and in order, whatever the size of a page.\<close>

theorem read_back_complete:
  assumes "in_order sid st" "readable d sid st" "length (current_rows st sid (max_or_zero (map er_seq (events_of st sid)))) \<le> n"
  shows "read_back n (\<lambda>r. Page d st (r\<lparr>pr_session := sid\<rparr>))
     \<lparr>pr_session = sid, pr_before = 0, pr_after = 0, pr_snapshot = 0, pr_limit = limit\<rparr> =
     current_rows st sid (max_or_zero (map er_seq (events_of st sid)))"
proof -
  have "below 0 xs = xs" for xs by (simp add: below_def)
  then show ?thesis
    using database.read_back_rows [of "(d, st, sid)" "\<lparr>pr_session = sid, pr_before = 0, pr_after = 0, pr_snapshot = 0, pr_limit = limit\<rparr>" n]
      assms by simp
qed

definition sample_rows :: index where
  "sample_rows = (sample_history [rec_event 1 ''input'' ''hello'' [], rec_event 2 ''assistant'' ''hi'' []])\<lparr>
     ix_rows := [\<lparr>vr_session = ''s'', vr_seq = 1, vr_updated = 1, vr_row = plain_row (rec_event 1 ''input'' ''hello'' [])\<rparr>,
       \<lparr>vr_session = ''s'', vr_seq = 2, vr_updated = 2, vr_row = plain_row (rec_event 2 ''assistant'' ''hi'' [])\<rparr>],
     ix_state := [(''s'', 1, 2)], ix_format := [(''s'', 7)], ix_seen := [(''s'', 2)]\<rparr>"

definition sample_two :: store_lib where
  "sample_two = sample_history_lib [rec_event 1 ''input'' ''hello'' [], rec_event 2 ''assistant'' ''hi'' []]"

lemma sample_rows_in_order: "in_order ''s'' sample_rows" "readable sample_two ''s'' sample_rows"
  by code_simp+

lemma read_back_complete_witness:
  "read_back 2 (\<lambda>r. Page sample_two sample_rows (r\<lparr>pr_session := ''s''\<rparr>))
     \<lparr>pr_session = ''s'', pr_before = 0, pr_after = 0, pr_snapshot = 0, pr_limit = 1\<rparr> =
   [plain_row (rec_event 1 ''input'' ''hello'' []), plain_row (rec_event 2 ''assistant'' ''hi'' [])]"
proof -
  have top: "max_or_zero (map er_seq (events_of sample_rows ''s'')) = 2" by code_simp
  have rows: "current_rows sample_rows ''s'' 2 = [plain_row (rec_event 1 ''input'' ''hello'' []), plain_row (rec_event 2 ''assistant'' ''hi'' [])]"
    by code_simp
  show ?thesis
    using read_back_complete [OF sample_rows_in_order, of 2 1] unfolding top rows by simp
qed

text \<open>A page holds at most the limit of rows, is a window without gaps on the rows of its
  snapshot, and says truly whether there are older and newer ones.\<close>

theorem page_is_window:
  assumes "in_order sid st" "readable d sid st" "Page d st r = Inr p" "pr_session r = sid"
  shows "length (pg_events p) \<le> MaxPage \<and> (\<exists>ys zs. current_rows st sid (pg_snapshot p) = ys @ pg_events p @ zs \<and>
    (pg_events p \<noteq> [] \<longrightarrow> (pg_older p \<longleftrightarrow> ys \<noteq> []) \<and> (pg_newer p \<longleftrightarrow> zs \<noteq> [])))"
proof -
  have r: "r\<lparr>pr_session := sid\<rparr> = r" using assms(4) by auto
  have "pr_after r = 0 \<or> pr_before r = 0"
    using assms(3) by (auto simp: Page_def split: if_splits)
  then show ?thesis
    using database.page_window [of "(d, st, sid)" r p] assms(1-3) by (simp add: r)
qed

lemma page_is_window_witness:
  "\<exists>ys zs. current_rows sample_rows ''s'' 2 = ys @ [plain_row (rec_event 2 ''assistant'' ''hi'' [])] @ zs \<and> ys \<noteq> [] \<and> zs = []"
proof -
  let ?r = "\<lparr>pr_session = ''s'', pr_before = 0, pr_after = 0, pr_snapshot = 2, pr_limit = 1\<rparr>"
  have p: "Page sample_two sample_rows ?r = Inr \<lparr>pg_snapshot = 2, pg_events = [plain_row (rec_event 2 ''assistant'' ''hi'' [])],
      pg_metadata = [], pg_older = True, pg_newer = False, pg_preceding = Some (plain_row (rec_event 1 ''input'' ''hello'' []))\<rparr>"
    by code_simp
  show ?thesis using page_is_window [OF sample_rows_in_order p] by auto
qed

text \<open>C9. Records that arrive do not disturb a reader of an earlier snapshot, and a reader of versions
  that has those up to the last sync misses none: an append leaves every version published up to the
  last synced record as it was and adds only later ones.\<close>

theorem append_keeps_snapshots:
  assumes "filed d sid st" "sync_plan sid st = Append" "SyncWith d sid st c = (st', c', x)"
    and "snap \<le> snd (get_or (0, 0) (ix_state st) sid)"
  shows "current_rows st' sid snap = current_rows st sid snap \<and>
    filter (\<lambda>v. vr_updated v \<le> snap) (rows_of st' sid) = filter (\<lambda>v. vr_updated v \<le> snap) (rows_of st sid)"
proof -
  have old: "filter (\<lambda>v. vr_updated v \<le> l) (rows_of st' sid) = filter (\<lambda>v. vr_updated v \<le> l) (rows_of st sid)"
    if "l = snd (get_or (0, 0) (ix_state st) sid)" for l
    by (rule append_old_rows [OF assms(1-3) that])
  have "filter (\<lambda>v. vr_updated v \<le> snap) xs = filter (\<lambda>v. vr_updated v \<le> snap) (filter (\<lambda>v. vr_updated v \<le> snd (get_or (0, 0) (ix_state st) sid)) xs)" for xs
    using assms(4) by (auto intro: filter_cong)
  then show ?thesis using current_rows_upto [OF old [OF refl] assms(4)] old [OF refl] by metis
qed

definition grown :: "event list" where
  "grown = [rec_event 1 ''input'' ''hello'' [], rec_event 2 ''assistant'' ''hi'' [], rec_event 3 ''turn_end'' ''completed'' []]"

lemma append_keeps_snapshots_witness:
  "current_rows (fst (SyncWith (sample_history_lib grown) ''s'' (sample_rows\<lparr>ix_events := sample_bodies grown\<rparr>) None)) ''s'' 2 =
   current_rows (sample_rows\<lparr>ix_events := sample_bodies grown\<rparr>) ''s'' 2"
proof -
  let ?st = "sample_rows\<lparr>ix_events := sample_bodies grown\<rparr>"
  let ?r = "SyncWith (sample_history_lib grown) ''s'' ?st None"
  obtain st' c' x where r: "?r = (st', c', x)" by (cases ?r)
  have "filed (sample_history_lib grown) ''s'' ?st" "sync_plan ''s'' ?st = Append" "2 \<le> snd (get_or (0, 0) (ix_state ?st) ''s'')"
    by code_simp+
  then show ?thesis using append_keeps_snapshots [OF _ _ r] by (simp only: r fst_conv)
qed

text \<open>C13. A sync keeps the tables in order, rows under their own numbers and no version twice, and
  touches no other session and no record.\<close>

theorem sync_keeps_order:
  assumes "in_order sid st" "SyncWith d sid st c = (st', c', x)"
  shows "in_order sid st' \<and> ix_events st' = ix_events st \<and>
    (\<forall>other. other \<noteq> sid \<longrightarrow> rows_of st' other = rows_of st other \<and> records_of st' other = records_of st other \<and>
      map_of (ix_state st') other = map_of (ix_state st) other)"
proof -
  have "ix_events st' = ix_events st"
    using assms(2)
    by (cases rule: sync_cases) (simp_all add: remember_store commit_index sync_change_store(1))
  then show ?thesis using sync_in_order [OF assms] sync_other_sessions [OF assms(2)] by simp
qed

lemma sync_keeps_order_witness:
  "in_order ''s'' (fst (SyncWith (sample_history_lib grown) ''s'' (sample_rows\<lparr>ix_events := sample_bodies grown\<rparr>) None))"
proof -
  let ?st = "sample_rows\<lparr>ix_events := sample_bodies grown\<rparr>"
  let ?r = "SyncWith (sample_history_lib grown) ''s'' ?st None"
  obtain st' c' x where r: "?r = (st', c', x)" by (cases ?r)
  have "in_order ''s'' ?st" by code_simp
  then show ?thesis using sync_keeps_order [OF _ r] by (simp only: r fst_conv)
qed

text \<open>C12. A sync that succeeds settles the session: the next one finds nothing to do and leaves tables
  and cache as they are.  One that fails changes no table and empties the cache.\<close>

theorem sync_settles_or_fails:
  assumes "SyncWith d sid st c = (st', c', x)"
  shows "case x of None \<Rightarrow> SyncWith d sid st' c' = (st', c', None)
    | Some _ \<Rightarrow> st' = st \<and> (\<forall>k. c' = Some k \<longrightarrow> ca_projection k = None)"
proof (cases x)
  case None
  then have "sync_plan sid st' = Nothing_new" using sync_settles assms by blast
  then show ?thesis using None by (simp add: SyncWith_def)
next
  case (Some e)
  show ?thesis using assms
    by (cases rule: sync_cases) (auto simp: Some Cache_Drop_def)
qed


lemma sync_settles_or_fails_witness:
  "\<exists>st' c'. SyncWith (sample_history_lib grown) ''s'' sample_rows None = (st', c', None) \<and>
     SyncWith (sample_history_lib grown) ''s'' st' c' = (st', c', None)"
proof -
  have "SyncWith (sample_history_lib grown) ''s'' sample_rows None = (sample_rows, None, None)" by code_simp
  then show ?thesis using sync_settles_or_fails by fastforce
qed

section \<open>What a sync can lose\<close>

text \<open>Whether a row shows the answer folded into it.\<close>

definition answer_shown :: "row list \<Rightarrow> nat \<Rightarrow> bool" where
  "answer_shown rows n \<longleftrightarrow> list_ex (\<lambda>v. row_seq v = n \<and> has_key (view_object sample_lib (ev_payload (rw_event v))) ''cxz_resolution'') rows"

text \<open>The rows after a sync of the first records and another once the rest has arrived.\<close>

definition synced_twice :: "cache option \<Rightarrow> event list \<Rightarrow> event list \<Rightarrow> row list" where
  "synced_twice c before after =
     (let d = sample_history_lib (before @ after);
          (st, c, _) = SyncWith d ''s'' (sample_history before) c;
          (st, _, _) = SyncWith d ''s'' (st\<lparr>ix_events := sample_bodies (before @ after)\<rparr>) c
      in current_rows st ''s'' (max_or_zero (map ev_seq (before @ after))))"

definition empty_cache :: cache where
  "empty_cache = \<lparr>ca_projection = None, ca_first = 0, ca_last = 0, ca_format = 0\<rparr>"

text \<open>A question is asked, and an input that steers the turn arrives before the answer.\<close>

definition asked_then_steered :: "event list" where
  "asked_then_steered = [rec_event 1 ''input'' ''go'' [], rec_event 2 ''approval'' ''AskUserQuestion'' ''q'', rec_event 3 ''input'' ''also'' []]"

definition the_answer :: "event list" where
  "the_answer = [rec_event 4 ''approval_resolved'' ''allowed'' ''q'']"

text \<open>An incremental sync does not always publish what a rebuild would: a question followed by an
  input of its own turn lies before the floor of the reduced state, so its answer, arriving after a
  sync, is folded into no row, whether the state was kept or restored.\<close>

theorem steered_answer_lost:
  "answer_shown (memory_rows (Apply_all sample_view (asked_then_steered @ the_answer))) 2 \<and>
   \<not> answer_shown (synced_twice (Some empty_cache) asked_then_steered the_answer) 2 \<and>
   \<not> answer_shown (synced_twice None asked_then_steered the_answer) 2"
  by code_simp

definition asked_permission :: "event list" where
  "asked_permission = [rec_event 1 ''input'' ''go'' [], rec_event 2 ''approval'' ''Bash'' ''q'']"

definition the_decision :: "event list" where
  "the_decision = [rec_event 3 ''approval_resolved'' ''denied'' ''q'']"

text \<open>A restore brings back questions but not other approvals: a decision about a tool that has no
  row is folded into the request's row when the state was kept, and lost when it was restored.\<close>

theorem restored_decision_lost:
  "answer_shown (memory_rows (Apply_all sample_view (asked_permission @ the_decision))) 2 \<and>
   answer_shown (synced_twice (Some empty_cache) asked_permission the_decision) 2 \<and>
   \<not> answer_shown (synced_twice None asked_permission the_decision) 2"
  by code_simp

end
