(* ===== verification/Transcript_Agree.thy ===== *)
theory Transcript_Agree
  imports Reading
begin

text \<open>
  When keeping the reduced state is as good as rebuilding it: a pruned state agrees with the whole one
  from its floor on, and a record that reaches only what lies from there on does the same to both.
\<close>

section \<open>Agreement from a floor on\<close>

definition part_of :: "('k \<rightharpoonup> row) \<Rightarrow> ('k \<rightharpoonup> row) \<Rightarrow> nat \<Rightarrow> bool" where
  "part_of m n f \<longleftrightarrow> (\<forall>k. m k = None \<or> m k = n k) \<and> (\<forall>k v. n k = Some v \<longrightarrow> f \<le> row_seq v \<longrightarrow> m k = Some v)"

definition agree :: "nat \<Rightarrow> projection \<Rightarrow> projection \<Rightarrow> bool" where
  "agree f p q \<longleftrightarrow> part_of (map_of (pj_rows p)) (map_of (pj_rows q)) f \<and> part_of (map_of (pj_tools p)) (map_of (pj_tools q)) f \<and>
     part_of (map_of (pj_questions p)) (map_of (pj_questions q)) f \<and> map_of (pj_approvals p) = map_of (pj_approvals q) \<and>
     map_of (pj_last p) = map_of (pj_last q) \<and> map_of (pj_input p) = map_of (pj_input q)"

definition near :: "nat \<Rightarrow> row option \<Rightarrow> bool" where
  "near f v = (case v of None \<Rightarrow> True | Some v \<Rightarrow> f \<le> row_seq v)"

text \<open>What a record reaches of the whole state lies from the floor on.\<close>

definition inside :: "view_lib \<Rightarrow> nat \<Rightarrow> event \<Rightarrow> projection \<Rightarrow> bool" where
  "inside w f e q \<longleftrightarrow>
     (ev_kind e \<in> {''tool_result'', ''tool_output''} \<longrightarrow> near f (map_of (pj_tools q) (tool_key e))) \<and>
     (ev_kind e = ''approval'' \<longrightarrow> near f (map_of (pj_tools q) (identity (ev_run e) (related (vl_lib w) e)))) \<and>
     (ev_kind e = ''approval_resolved'' \<longrightarrow> near f (map_of (pj_questions q) (tool_key e)) \<and>
        near f (map_of (pj_tools q) (get_or [] (pj_approvals q) (tool_key e)))) \<and>
     (ev_kind e = ''turn_end'' \<longrightarrow> ev_text e = ''completed'' \<longrightarrow>
        (case turn_target w e q of None \<Rightarrow> True | Some (v, c) \<Rightarrow> f \<le> row_seq v))"

fun all_inside :: "view_lib \<Rightarrow> nat \<Rightarrow> event list \<Rightarrow> projection \<Rightarrow> bool" where
  "all_inside w f [] q = True"
| "all_inside w f (e # es) q \<longleftrightarrow> inside w f e q \<and> all_inside w f es (Apply_record w no_resolve e q)"

lemma part_of_near: "part_of m n f \<Longrightarrow> near f (n k) \<Longrightarrow> m k = n k"
  by (cases "n k") (auto simp: part_of_def near_def)

lemma part_of_upd: "part_of m n f \<Longrightarrow> part_of (m(k \<mapsto> v)) (n(k \<mapsto> v)) f"
  by (simp add: part_of_def)

lemma agree_refl: "agree f (p\<lparr>pj_versions := vs\<rparr>) p"
  by (simp add: agree_def part_of_def)

text \<open>Two states that agree, after the same new versions.\<close>

definition alike :: "nat \<Rightarrow> projection \<Rightarrow> projection \<Rightarrow> projection \<Rightarrow> projection \<Rightarrow> bool" where
  "alike f p q p' q' \<longleftrightarrow> agree f p' q' \<and> (\<exists>new. pj_versions p' = pj_versions p @ new \<and> pj_versions q' = pj_versions q @ new)"

lemma alike_trans: "alike f p q p' q' \<Longrightarrow> alike f p' q' p'' q'' \<Longrightarrow> alike f p q p'' q''"
  by (auto simp: alike_def)

lemma alike_same: "agree f p' q' \<Longrightarrow> pj_versions p' = pj_versions p \<Longrightarrow> pj_versions q' = pj_versions q \<Longrightarrow> alike f p q p' q'"
  by (simp add: alike_def)

lemma alike_put: "agree f p q \<Longrightarrow> alike f p q (put_row_version v u p) (put_row_version v u q)"
  by (auto simp: alike_def agree_def put_row_version_def part_of_upd)

lemma alike_set_tool: "agree f p q \<Longrightarrow> alike f p q (set_tool k v u p) (set_tool k v u q)"
  by (auto simp: alike_def agree_def set_tool_def put_row_version_def part_of_upd)

lemma alike_row: "agree f p q \<Longrightarrow> alike f p q (apply_row w e p) (apply_row w e q)"
  by (simp add: apply_row_def alike_same alike_put)

lemma alike_row_after:
  assumes "agree f p' q'" "pj_versions p' = pj_versions p" "pj_versions q' = pj_versions q"
  shows "alike f p q (apply_row w e p') (apply_row w e q')"
  using alike_trans [OF alike_same [OF assms] alike_row [OF assms(1)]] .

lemma alike_set_tool_after:
  assumes "agree f p' q'" "pj_versions p' = pj_versions p" "pj_versions q' = pj_versions q"
  shows "alike f p q (set_tool k v u p') (set_tool k v u q')"
  using alike_trans [OF alike_same [OF assms] alike_set_tool [OF assms(1)]] .

section \<open>One record\<close>

lemma alike_if: "alike f p q x x' \<Longrightarrow> alike f p q y y' \<Longrightarrow> alike f p q (if b then y else x) (if b then y' else x')"
  by simp

lemma alike_tool:
  assumes a: "agree f p q" and i: "inside w f e q" and k: "ev_kind e \<in> {''tool_call'', ''tool_result'', ''tool_output''}"
    and R: "map_of (pj_tools q) (tool_key e) = None \<Longrightarrow> R (ev_run e) (ev_request e) = None"
  shows "alike f p q (apply_tool w R e p) (apply_tool w no_resolve e q)"
proof (cases "ev_kind e = ''tool_call''")
  case True
  then have "called_row w R e p = row_summary w e" "called_row w no_resolve e q = row_summary w e"
    by (simp_all add: called_row_def split: option.split)
  then show ?thesis using True a by (simp add: apply_tool_def alike_set_tool)
next
  case False
  then have "near f (map_of (pj_tools q) (tool_key e))" using i k by (auto simp: inside_def)
  then have same: "map_of (pj_tools p) (tool_key e) = map_of (pj_tools q) (tool_key e)"
    using a by (auto simp: agree_def intro: part_of_near)
  have row: "called_row w R e p = called_row w no_resolve e q"
    using R by (cases "map_of (pj_tools q) (tool_key e)") (simp_all add: called_row_def same no_resolve_def)
  have keep: "alike f p q p q" by (rule alike_same [OF a]) simp_all
  show ?thesis
    unfolding apply_tool_def Let_def row same by (intro alike_if keep alike_set_tool [OF a])
qed

lemma alike_approval:
  assumes a: "agree f p q" and i: "inside w f e q" and k: "ev_kind e = ''approval''"
  shows "alike f p q (apply_approval w e p) (apply_approval w e q)"
proof -
  let ?t = "identity (ev_run e) (related (vl_lib w) e)"
  have same: "map_of (pj_tools p) ?t = map_of (pj_tools q) ?t"
    using a i k by (auto simp: agree_def inside_def intro: part_of_near)
  let ?p = "p\<lparr>pj_questions := AList.update (tool_key e) (plain_row e) (pj_questions p)\<rparr>"
  let ?q = "q\<lparr>pj_questions := AList.update (tool_key e) (plain_row e) (pj_questions q)\<rparr>"
  let ?p' = "?p\<lparr>pj_approvals := AList.update (tool_key e) ?t (pj_approvals p)\<rparr>"
  let ?q' = "?q\<lparr>pj_approvals := AList.update (tool_key e) ?t (pj_approvals q)\<rparr>"
  have b: "agree f ?p ?q" using a by (simp add: agree_def part_of_upd)
  have c: "agree f ?p' ?q'" using a by (simp add: agree_def part_of_upd)
  show ?thesis
  proof (cases "related (vl_lib w) e = []")
    case True
    then show ?thesis using alike_row_after [OF b] by (simp add: apply_approval_def Let_def)
  next
    case False
    have r: "alike f p q (apply_row w e ?p') (apply_row w e ?q')" by (rule alike_row_after [OF c]) simp_all
    have s: "alike f p q ?p' ?q'" by (rule alike_same [OF c]) simp_all
    have t: "alike f p q (set_tool k v u ?p') (set_tool k v u ?q')" for k v u by (rule alike_set_tool_after [OF c]) simp_all
    show ?thesis
      using False same r s t by (cases "map_of (pj_tools q) ?t") (simp_all add: apply_approval_def Let_def)
  qed
qed

text \<open>Rows stand under their own numbers, so those from the floor on are looked up alike.\<close>

lemma agree_rows:
  assumes "agree f p q" "well_shown q" "f \<le> n"
  shows "map_of (pj_rows p) n = map_of (pj_rows q) n"
proof -
  have "near f (map_of (pj_rows q) n)" using assms(2,3) by (auto simp: near_def well_shown_def split: option.split)
  then show ?thesis using assms(1) by (auto simp: agree_def intro: part_of_near)
qed

lemma alike_answer:
  assumes a: "agree f p q" "well_shown q" and n: "near f (map_of (pj_questions q) (tool_key e))"
  shows "alike f p q (fold_answer w e p) (fold_answer w e q)"
proof -
  have same: "map_of (pj_questions p) (tool_key e) = map_of (pj_questions q) (tool_key e)"
    using a n by (auto simp: agree_def intro: part_of_near)
  show ?thesis
  proof (cases "map_of (pj_questions q) (tool_key e)")
    case None
    then show ?thesis using a same by (simp add: fold_answer_def alike_same)
  next
    case (Some r)
    then have "f \<le> row_seq r" using n by (simp add: near_def)
    then have rows: "map_of (pj_rows p) (row_seq r) = map_of (pj_rows q) (row_seq r)" by (rule agree_rows [OF a])
    let ?v = "resolved_row w e r"
    let ?p = "p\<lparr>pj_questions := AList.update (tool_key e) ?v (pj_questions p)\<rparr>"
    let ?q = "q\<lparr>pj_questions := AList.update (tool_key e) ?v (pj_questions q)\<rparr>"
    have b: "agree f ?p ?q" using a(1) by (simp add: agree_def part_of_upd)
    have "alike f p q ?p ?q" by (rule alike_same [OF b]) simp_all
    from alike_trans [OF this alike_put [OF b, of ?v "ev_seq e"]]
    show ?thesis using a(1) same Some rows by (simp add: fold_answer_def Let_def alike_same)
  qed
qed

lemma alike_decide:
  assumes a: "agree f p q" and n: "near f (map_of (pj_tools q) (get_or [] (pj_approvals q) (tool_key e)))"
  shows "alike f p q (decide_tool e p) (decide_tool e q)"
proof -
  have tool: "get_or [] (pj_approvals p) (tool_key e) = get_or [] (pj_approvals q) (tool_key e)"
    using a by (simp add: agree_def get_or_def)
  have "map_of (pj_tools p) (get_or [] (pj_approvals q) (tool_key e)) = map_of (pj_tools q) (get_or [] (pj_approvals q) (tool_key e))"
    using a n by (auto simp: agree_def intro: part_of_near)
  then show ?thesis
    using a by (cases "map_of (pj_tools q) (get_or [] (pj_approvals q) (tool_key e))")
      (simp_all add: decide_tool_def Let_def tool alike_same alike_set_tool)
qed

lemma approvals_answer [simp]: "pj_approvals (fold_answer w e p) = pj_approvals p"
  by (simp add: fold_answer_def Let_def put_row_version_def split: option.split)

lemma alike_resolved:
  assumes a: "agree f p q" "well_shown q" and i: "inside w f e q" and k: "ev_kind e = ''approval_resolved''"
  shows "alike f p q (apply_resolved w e p) (apply_resolved w e q)"
proof -
  have n: "near f (map_of (pj_questions q) (tool_key e))" "near f (map_of (pj_tools q) (get_or [] (pj_approvals q) (tool_key e)))"
    using i k by (simp_all add: inside_def)
  have ans: "alike f p q (fold_answer w e p) (fold_answer w e q)" by (rule alike_answer [OF a n(1)])
  then have "agree f (fold_answer w e p) (fold_answer w e q)" by (simp add: alike_def)
  from alike_trans [OF ans alike_decide [OF this]] show ?thesis using n(2) by (simp add: apply_resolved_def)
qed

lemma alike_forget: "agree f p q \<Longrightarrow> alike f p q (forget_turn run p) (forget_turn run q)"
  by (rule alike_same) (simp_all add: agree_def forget_turn_def)

lemma turn_completion_agree: "agree f p q \<Longrightarrow> turn_completion w e v p = turn_completion w e v q"
  by (simp add: turn_completion_def agree_def get_or_def)

lemma rows_part: "agree f p q \<Longrightarrow> map_of (pj_rows p) n = None \<or> map_of (pj_rows p) n = map_of (pj_rows q) n"
  by (simp add: agree_def part_of_def)

lemma turn_target_agree:
  assumes a: "agree f p q" "well_shown q"
    and i: "case turn_target w e q of None \<Rightarrow> True | Some (v, c) \<Rightarrow> f \<le> row_seq v"
  shows "turn_target w e p = turn_target w e q"
proof -
  have key: "row_seq v = n" if "map_of (pj_rows q) n = Some v" for n v
    using that a(2) by (auto simp: well_shown_def)
  show ?thesis
  proof (cases "completion_of e = []")
    case False
    obtain n ok where u: "unmarshal (dec_struct (\<lambda>kvs v. dec_field ''response_seq'' dec_quoted kvs v)) (completion_of e) 0 = (n, ok)"
      by (metis surj_pair)
    show ?thesis
    proof (cases "ok \<and> map_of (pj_rows q) n \<noteq> None")
      case True
      then obtain v where v: "map_of (pj_rows q) n = Some v" by auto
      then have "f \<le> n" using i False u True key [OF v] by (simp add: turn_target_def Let_def)
      then show ?thesis using False u agree_rows [OF a] by (simp add: turn_target_def Let_def)
    next
      case False
      then show ?thesis using \<open>completion_of e \<noteq> []\<close> u rows_part [OF a(1), of n] by (auto simp: turn_target_def Let_def)
    qed
  next
    case True
    have l: "map_of (pj_last p) = map_of (pj_last q)" using a(1) by (simp add: agree_def)
    show ?thesis
    proof (cases "map_of (pj_last q) (ev_run e)")
      case None
      then show ?thesis using True l by (simp add: turn_target_def)
    next
      case (Some l')
      show ?thesis
      proof (cases "map_of (pj_rows q) (row_seq l')")
        case None
        then show ?thesis using True l Some rows_part [OF a(1), of "row_seq l'"] by (auto simp: turn_target_def)
      next
        case (Some v)
        show ?thesis
        proof (cases "row_phase v \<noteq> [] \<and> row_phase v \<noteq> ''final_answer''")
          case True
          then show ?thesis
            using \<open>completion_of e = []\<close> l Some \<open>map_of (pj_last q) (ev_run e) = Some l'\<close> rows_part [OF a(1), of "row_seq l'"]
            by (auto simp: turn_target_def)
        next
          case False
          then have "f \<le> row_seq l'"
            using i True Some \<open>map_of (pj_last q) (ev_run e) = Some l'\<close> key [OF Some] by (auto simp: turn_target_def)
          then show ?thesis
            using True l Some \<open>map_of (pj_last q) (ev_run e) = Some l'\<close> agree_rows [OF a] turn_completion_agree [OF a(1)]
            by (simp add: turn_target_def)
        qed
      qed
    qed
  qed
qed

lemma alike_turn_end:
  assumes a: "agree f p q" "well_shown q" and i: "inside w f e q" and k: "ev_kind e = ''turn_end''"
  shows "alike f p q (apply_turn_end w e p) (apply_turn_end w e q)"
proof -
  have t: "(if ev_text e = ''completed'' then turn_target w e p else None) = (if ev_text e = ''completed'' then turn_target w e q else None)"
    using turn_target_agree [OF a] i k by (simp add: inside_def)
  have f: "alike f p q (apply_row w e (forget_turn (ev_run e) p)) (apply_row w e (forget_turn (ev_run e) q))"
    using alike_forget [OF a(1), of "ev_run e"] by (intro alike_trans [OF _ alike_row]) (simp_all add: alike_def)
  have c: "alike f p q (forget_turn (ev_run e) (put_row_version v u p)) (forget_turn (ev_run e) (put_row_version v u q))" for v u
    using alike_put [OF a(1), of v u] by (intro alike_trans [OF _ alike_forget]) (simp_all add: alike_def)
  show ?thesis
  proof (cases "if ev_text e = ''completed'' then turn_target w e q else None")
    case None
    then show ?thesis unfolding apply_turn_end_def t None using f by simp
  next
    case (Some vc)
    obtain v x where vc: "vc = (v, x)" by (cases vc)
    show ?thesis unfolding apply_turn_end_def t Some vc option.case prod.case using f c [of "with_completion x v" "ev_seq e"] by (rule alike_if)
  qed
qed

theorem alike_record:
  assumes a: "agree f p q" "well_shown q" and i: "inside w f e q"
    and R: "map_of (pj_tools q) (tool_key e) = None \<Longrightarrow> R (ev_run e) (ev_request e) = None"
  shows "alike f p q (Apply_record w R e p) (Apply_record w no_resolve e q)"
proof -
  have inp: "alike f p q
      (apply_row w e (p\<lparr>pj_input := AList.update (ev_run e) (ev_time e) (pj_input p),
        pj_input_seq := AList.update (ev_run e) (ev_seq e) (pj_input_seq p), pj_last := AList.delete (ev_run e) (pj_last p)\<rparr>))
      (apply_row w e (q\<lparr>pj_input := AList.update (ev_run e) (ev_time e) (pj_input q),
        pj_input_seq := AList.update (ev_run e) (ev_seq e) (pj_input_seq q), pj_last := AList.delete (ev_run e) (pj_last q)\<rparr>))"
    by (rule alike_row_after) (use a(1) in \<open>simp_all add: agree_def\<close>)
  have tool: "ev_kind e \<in> {''tool_call'', ''tool_result'', ''tool_output''} \<Longrightarrow> alike f p q (apply_tool w R e p) (apply_tool w no_resolve e q)"
    by (rule alike_tool [OF a(1) i]) (use R in simp_all)
  have ass: "alike f p q (apply_row w e (p\<lparr>pj_last := AList.update (ev_run e) (plain_row e) (pj_last p)\<rparr>))
      (apply_row w e (q\<lparr>pj_last := AList.update (ev_run e) (plain_row e) (pj_last q)\<rparr>))"
    by (rule alike_row_after) (use a(1) in \<open>simp_all add: agree_def\<close>)
  show ?thesis
    using inp ass tool alike_approval [OF a(1) i] alike_resolved [OF a i] alike_turn_end [OF a i] alike_row [OF a(1)]
    by (simp add: Apply_record_def Let_def)
qed

section \<open>Where rows come from\<close>

text \<open>A row stands for a record, and a row with a summary belongs to a tool call that is known.\<close>

definition from_record :: "event list \<Rightarrow> projection \<Rightarrow> row \<Rightarrow> bool" where
  "from_record es p v \<longleftrightarrow>
     (\<exists>e \<in> set es. ev_seq e = row_seq v \<and> ev_run e = ev_run (rw_event v) \<and> ev_request e = ev_request (rw_event v)) \<and>
     (rw_summary v \<noteq> None \<longrightarrow> map_of (pj_tools p) (tool_key (rw_event v)) \<noteq> None)"

definition traced :: "event list \<Rightarrow> projection \<Rightarrow> bool" where
  "traced es p \<longleftrightarrow> (\<forall>(n, u, v) \<in> set (pj_versions p). from_record es p v) \<and>
     (\<forall>n v. map_of (pj_rows p) n = Some v \<longrightarrow> from_record es p v) \<and>
     (\<forall>k v. map_of (pj_questions p) k = Some v \<longrightarrow> from_record es p v) \<and>
     (\<forall>k v. map_of (pj_tools p) k = Some v \<longrightarrow> from_record es p v \<and> tool_key (rw_event v) = k)"

lemma traced_new [simp]: "traced es new_projection"
  by (simp add: traced_def new_projection_def)

lemma from_record_more:
  assumes "from_record es p v" "\<And>k. map_of (pj_tools p) k \<noteq> None \<Longrightarrow> map_of (pj_tools q) k \<noteq> None"
  shows "from_record (es @ [e]) q v"
  using assms unfolding from_record_def by fastforce

lemma traced_more: "traced es p \<Longrightarrow> traced (es @ [e]) p"
  unfolding traced_def using from_record_more [of es p _ p e] by fastforce

lemma traced_put:
  assumes "traced es p" "from_record es p v"
  shows "traced es (put_row_version v u p)"
proof -
  have "from_record es (put_row_version v u p) = from_record es p"
    by (intro ext) (simp add: from_record_def)
  then show ?thesis using assms by (auto simp: traced_def put_row_version_def)
qed

lemma traced_fields:
  assumes "traced es p" "pj_versions q = pj_versions p" "pj_rows q = pj_rows p" "pj_questions q = pj_questions p" "pj_tools q = pj_tools p"
  shows "traced es q"
proof -
  have "from_record es q = from_record es p" using assms(5) by (intro ext) (simp add: from_record_def)
  then show ?thesis using assms by (simp add: traced_def)
qed

lemma traced_question:
  assumes "traced es p" "from_record es p v"
  shows "traced es (p\<lparr>pj_questions := AList.update k v (pj_questions p)\<rparr>)"
proof -
  have "from_record es (p\<lparr>pj_questions := AList.update k v (pj_questions p)\<rparr>) = from_record es p"
    by (intro ext) (simp add: from_record_def)
  then show ?thesis using assms by (auto simp: traced_def)
qed

lemma traced_set_tool:
  assumes t: "traced es p" and k: "tool_key (rw_event v) = k"
    and e: "\<exists>e \<in> set es. ev_seq e = row_seq v \<and> ev_run e = ev_run (rw_event v) \<and> ev_request e = ev_request (rw_event v)"
  shows "traced es (set_tool k v u p)"
proof -
  let ?p = "p\<lparr>pj_tools := AList.update k v (pj_tools p)\<rparr>"
  have more: "from_record es ?p x" if "from_record es p x" for x
    using that by (auto simp: from_record_def)
  have v: "from_record es ?p v" using e k by (simp add: from_record_def)
  have "traced es ?p" using t more v k by (auto simp: traced_def)
  then show ?thesis unfolding set_tool_def using v by (rule traced_put)
qed

lemma same_ids [simp]:
  "rw_event (with_state s v) = rw_event v" "rw_event (with_result w e v) = rw_event v"
  "tool_key (rw_event (row_summary w e)) = tool_key e" "row_seq (row_summary w e) = ev_seq e"
  "ev_run (rw_event (row_summary w e)) = ev_run e" "ev_request (rw_event (row_summary w e)) = ev_request e"
  by (simp_all add: with_state_def with_result_def row_summary_def tool_key_def Let_def)

lemma shown_event_ids [simp]: "ev_seq (shown_event w e) = ev_seq e" "ev_run (shown_event w e) = ev_run e"
  "ev_request (shown_event w e) = ev_request e"
  by (simp_all add: shown_event_def with_phase_def with_diagnostic_def without_body_def Let_def)

lemma resolved_row_ids: "from_record es p v \<Longrightarrow> from_record es p (resolved_row w e v)"
  by (simp add: from_record_def resolved_row_def tool_key_def Let_def)

lemma completion_ids: "from_record es p v \<Longrightarrow> from_record es p (with_completion c v)"
  by (simp add: from_record_def with_completion_def tool_key_def Let_def)

lemma from_plain: "e \<in> set es \<Longrightarrow> from_record es p (plain_row e)" "e \<in> set es \<Longrightarrow> from_record es p (plain_row (shown_event w e))"
  by (auto simp: from_record_def plain_row_def)

lemma traced_row: "traced es p \<Longrightarrow> e \<in> set es \<Longrightarrow> traced es (apply_row w e p)"
  by (simp add: apply_row_def traced_put from_plain)

lemma traced_known:
  assumes "traced es p" "map_of (pj_tools p) k = Some v"
  shows "tool_key (rw_event v) = k"
    "\<exists>e \<in> set es. ev_seq e = row_seq v \<and> ev_run e = ev_run (rw_event v) \<and> ev_request e = ev_request (rw_event v)"
  using assms by (auto simp: traced_def from_record_def)

lemma traced_tool:
  assumes "traced es p" "e \<in> set es"
  shows "traced es (apply_tool w no_resolve e p)"
proof -
  let ?v = "called_row w no_resolve e p"
  have "tool_key (rw_event ?v) = tool_key e \<and>
      (\<exists>e \<in> set es. ev_seq e = row_seq ?v \<and> ev_run e = ev_run (rw_event ?v) \<and> ev_request e = ev_request (rw_event ?v))"
    using traced_known [OF assms(1)] assms(2) by (auto simp: called_row_def no_resolve_def Let_def split: option.split)
  then show ?thesis
    using assms(1) by (auto simp: apply_tool_def Let_def intro!: traced_set_tool)
qed

lemma traced_set_known: "traced es p \<Longrightarrow> map_of (pj_tools p) k = Some v \<Longrightarrow> traced es (set_tool k (with_state s v) u p)"
  using traced_known [of es p k v] by (intro traced_set_tool) simp_all

lemma traced_approval:
  assumes "traced es p" "e \<in> set es"
  shows "traced es (apply_approval w e p)"
proof -
  let ?p = "p\<lparr>pj_questions := AList.update (tool_key e) (plain_row e) (pj_questions p)\<rparr>"
  have q: "traced es ?p" by (rule traced_question [OF assms(1) from_plain(1) [OF assms(2)]])
  have "traced es (?p\<lparr>pj_approvals := a\<rparr>)" for a by (rule traced_fields [OF q]) simp_all
  note a = this
  show ?thesis
    unfolding apply_approval_def Let_def
    using traced_row [OF q assms(2)] traced_row [OF a assms(2)] a traced_set_known [OF a] by (simp split: option.split)
qed

lemma traced_resolved:
  assumes "traced es p"
  shows "traced es (apply_resolved w e p)"
proof -
  have "traced es (put_row_version (resolved_row w e v) (ev_seq e)
      (p\<lparr>pj_questions := AList.update (tool_key e) (resolved_row w e v) (pj_questions p)\<rparr>))"
    if "map_of (pj_questions p) (tool_key e) = Some v" for v
  proof -
    have v: "from_record es p (resolved_row w e v)" using that assms resolved_row_ids by (auto simp: traced_def)
    then have "from_record es (p\<lparr>pj_questions := x\<rparr>) (resolved_row w e v)" for x by (simp add: from_record_def)
    then show ?thesis by (intro traced_put traced_question [OF assms v])
  qed
  then have "traced es (fold_answer w e p)" using assms by (simp add: fold_answer_def Let_def split: option.split)
  then show ?thesis
    unfolding apply_resolved_def decide_tool_def Let_def using traced_set_known by (simp split: option.split)
qed

lemma traced_turn_end:
  assumes "traced es p" "e \<in> set es"
  shows "traced es (apply_turn_end w e p)"
proof -
  have f: "traced es q \<Longrightarrow> traced es (forget_turn r q)" for q r
    by (erule traced_fields) (simp_all add: forget_turn_def)
  have "traced es (forget_turn r (put_row_version (with_completion c v) u p))" if "turn_target w e p = Some (v, c)" for r v c u
    using turn_target_row [OF that] assms(1) by (intro f traced_put completion_ids) (auto simp: traced_def)
  then show ?thesis
    using traced_row [OF f [OF assms(1)] assms(2)] by (simp add: apply_turn_end_def split: option.split)
qed

lemma traced_record:
  assumes "traced es p" "e \<in> set es"
  shows "traced es (Apply_record w no_resolve e p)"
proof -
  have i: "traced es (apply_row w e q)" if "pj_versions q = pj_versions p" "pj_rows q = pj_rows p" "pj_questions q = pj_questions p"
    "pj_tools q = pj_tools p" for q
    by (rule traced_row [OF traced_fields [OF assms(1) that] assms(2)])
  show ?thesis
    using i traced_tool [OF assms] traced_approval [OF assms] traced_resolved [OF assms(1)] traced_turn_end [OF assms] traced_row [OF assms]
    by (simp add: Apply_record_def Let_def)
qed

lemma traced_all: "traced es (Apply_all w es)"
proof (induction es rule: rev_induct)
  case (snoc e es)
  have "traced (es @ [e]) (Apply_record w no_resolve e (Apply_all w es))"
    using traced_more [OF snoc] by (intro traced_record) simp_all
  then show ?case by (simp add: Apply_all_def)
qed (simp add: Apply_all_def)

end
