(* ===== verification/Transcript_Warm.thy ===== *)
theory Transcript_Warm
  imports Transcript_Agree
begin

text \<open>
  A sync that appends to a kept reduced state publishes what a rebuild would, as long as the records
  it applies reach no row from before the floor the state was cut at.
\<close>

section \<open>Tool calls stay known\<close>

abbreviation knows :: "projection \<Rightarrow> projection \<Rightarrow> bool" where
  "knows p q \<equiv> \<forall>k. map_of (pj_tools p) k \<noteq> None \<longrightarrow> map_of (pj_tools q) k \<noteq> None"

lemma knows_same: "pj_tools q = pj_tools p \<Longrightarrow> knows p q"
  by simp

lemma knows_set_tool: "pj_tools p' = pj_tools p \<Longrightarrow> knows p (set_tool k v u p')"
  by (simp add: tools_set_tool)

lemma knows_tool: "knows p (apply_tool w R e p)"
  by (simp add: apply_tool_def Let_def tools_set_tool)

lemma knows_approval: "knows p (apply_approval w e p)"
  unfolding apply_approval_def Let_def
  by (simp add: tools_set_tool split: option.split)

lemma knows_resolved: "knows p (apply_resolved w e p)"
  unfolding apply_resolved_def decide_tool_def Let_def
  by (simp add: tools_set_tool split: option.split)

lemma knows_record: "knows p (Apply_record w R e p)"
  using knows_tool [of p w R e] knows_approval [of p w e] knows_resolved [of p w e] by (simp add: Apply_record_def Let_def)

lemma Apply_all_append: "Apply_all w (es @ es') = fold (Apply_record w no_resolve) es' (Apply_all w es)"
  by (simp add: Apply_all_def)

lemma knows_all: "knows (Apply_all w es) (Apply_all w (es @ es'))"
proof (induction es' rule: rev_induct)
  case (snoc e es')
  have "Apply_all w (es @ es' @ [e]) = Apply_record w no_resolve e (Apply_all w (es @ es'))"
    using Apply_all_append [of w "es @ es'" "[e]"] by simp
  then show ?case using snoc knows_record [of "Apply_all w (es @ es')" w no_resolve e] by (simp only:) blast
qed simp

section \<open>The tables resolve no unknown call\<close>

abbreviation record_rows :: "store_lib \<Rightarrow> string \<Rightarrow> event list \<Rightarrow> record_row list" where
  "record_rows d sid es \<equiv> map (indexed (vl_lib (sl_view d)) sid) (filter (\<lambda>e. ev_kind e \<noteq> ''raw'') es)"

lemma resolve_row_found:
  assumes "resolve_row vs rs run request \<noteq> None"
  defines "ns \<equiv> map rr_seq (filter (\<lambda>r. rr_run r = run \<and> rr_request r = request) rs)"
  shows "\<exists>v. ns \<noteq> [] \<and> find (\<lambda>v. vr_seq v = min_list ns \<and> newest_version vs v) vs = Some v \<and> rw_summary (vr_row v) \<noteq> None"
proof (cases ns)
  case Nil
  then show ?thesis using assms(1) by (simp add: resolve_row_def ns_def)
next
  case (Cons m ms)
  then have "resolve_row vs rs run request = (case find (\<lambda>v. vr_seq v = min_list ns \<and> newest_version vs v) vs of
      None \<Rightarrow> None | Some v \<Rightarrow> if rw_summary (vr_row v) = None then None else Some (vr_row v))"
    by (simp add: resolve_row_def ns_def)
  then show ?thesis using assms(1) Cons by (cases "find (\<lambda>v. vr_seq v = min_list ns \<and> newest_version vs v) vs") (auto split: if_splits)
qed

lemma least_in_map:
  fixes f :: "'a \<Rightarrow> nat"
  assumes "xs \<noteq> []"
  shows "\<exists>x \<in> set xs. f x = min_list (map f xs)"
proof -
  have "min_list (map f xs) \<in> set (map f xs)" using assms by (simp add: min_list_Min)
  then show ?thesis by auto
qed

lemma resolve_unknown:
  assumes "distinct (map ev_seq es')" "set es \<subseteq> set es'" "sorted (map ev_seq es)"
    and none: "map_of (pj_tools (Apply_all (sl_view d) es)) (identity run request) = None"
  shows "resolve_row (table sid (pj_versions (Apply_all (sl_view d) es))) (record_rows d sid es') run request = None"
proof (rule ccontr)
  let ?q = "Apply_all (sl_view d) es" and ?rs = "record_rows d sid es'"
  let ?ns = "map rr_seq (filter (\<lambda>r. rr_run r = run \<and> rr_request r = request) ?rs)"
  let ?T = "table sid (pj_versions ?q)"
  assume "resolve_row ?T ?rs run request \<noteq> None"
  from resolve_row_found [OF this] obtain v where ns: "?ns \<noteq> []"
    and v: "find (\<lambda>v. vr_seq v = min_list ?ns \<and> newest_version ?T v) ?T = Some v" and s: "rw_summary (vr_row v) \<noteq> None"
    by blast
  from v have mem: "v \<in> set ?T" and n: "vr_seq v = min_list ?ns" by (auto simp: find_Some_iff)
  from mem obtain a where a: "a \<in> set (pj_versions ?q)" "v = version_of sid a" using table_members by blast
  obtain n u x where nux: "a = (n, u, x)" by (cases a)
  have x: "from_record es ?q x" using traced_all [of es "sl_view d"] a(1) by (auto simp: traced_def nux)
  have "n = row_seq x" using Apply_all_versions(2) [OF assms(3), of "sl_view d"] a(1) by (fastforce simp: nux)
  then have v': "vr_seq v = row_seq x" "vr_row v = x" by (simp_all add: a(2) nux)
  obtain e where e: "e \<in> set es" "ev_seq e = row_seq x" "ev_run e = ev_run (rw_event x)" "ev_request e = ev_request (rw_event x)"
    using x by (auto simp: from_record_def)
  have known: "map_of (pj_tools ?q) (tool_key (rw_event x)) \<noteq> None" using x s v'(2) by (simp add: from_record_def)
  from ns have "filter (\<lambda>r. rr_run r = run \<and> rr_request r = request) ?rs \<noteq> []" by (rule contrapos_nn) (simp only: list.map)
  from least_in_map [OF this, of rr_seq] obtain r where r: "r \<in> set ?rs" "rr_run r = run" "rr_request r = request"
    "rr_seq r = min_list ?ns" unfolding set_filter by blast
  from r(1) obtain e' where "e' \<in> set es'" "r = indexed (vl_lib (sl_view d)) sid e'" unfolding set_map set_filter by blast
  with r have e': "e' \<in> set es'" "ev_seq e' = min_list ?ns" "ev_run e' = run" "ev_request e' = request"
    by (simp_all only: indexed_def record_row.simps)
  have seq: "ev_seq e = ev_seq e'" unfolding e(2) e'(2) v'(1) [symmetric] n ..
  have "inj_on ev_seq (set es')" using assms(1) by (simp only: distinct_map)
  then have "e = e'" using seq subsetD [OF assms(2) e(1)] e'(1) by (rule inj_onD)
  then have "tool_key (rw_event x) = identity run request" using e(3,4) e'(3,4) by (simp add: tool_key_def)
  then show False using known none by simp
qed

section \<open>The simulation\<close>

text \<open>The tables and the kept state against the whole state of the records so far.\<close>

definition tracks :: "store_lib \<Rightarrow> string \<Rightarrow> nat \<Rightarrow> event list \<Rightarrow> event list \<Rightarrow> index \<times> projection \<Rightarrow> bool" where
  "tracks d sid f es es' = (\<lambda>(st, p).
     rows_of st sid = table sid (pj_versions (Apply_all (sl_view d) es)) \<and> records_of st sid = record_rows d sid (es @ es') \<and>
     agree f p (Apply_all (sl_view d) (es @ es')) \<and>
     pj_versions (Apply_all (sl_view d) (es @ es')) = pj_versions (Apply_all (sl_view d) es) @ pj_versions p)"

lemma sort_key_last:
  fixes f :: "'a \<Rightarrow> nat"
  assumes "\<forall>y \<in> set xs. f y < f x"
  shows "sort_key f (xs @ [x]) = sort_key f xs @ [x]"
proof (rule properties_for_sort_key)
  show "sorted (map f (sort_key f xs @ [x]))" using assms by (auto simp: sorted_append intro: less_imp_le)
  show "filter (\<lambda>z. f k = f z) (sort_key f xs @ [x]) = filter (\<lambda>z. f k = f z) (xs @ [x])" for k
    using sort_key_stable [of f "f k" xs] by (simp add: eq_commute [of "f k"])
qed simp

lemma records_of_put:
  assumes "\<forall>r \<in> set (records_of st sid). rr_seq r < rr_seq x" "rr_session x = sid"
  shows "records_of (st\<lparr>ix_records := put_record x (ix_records st)\<rparr>) sid = records_of st sid @ [x]"
proof -
  let ?mine = "filter (\<lambda>r. rr_session r = sid) (ix_records st)"
  have old: "\<forall>r \<in> set ?mine. rr_seq r < rr_seq x" using assms(1) by (simp add: records_of_def)
  then have "filter (\<lambda>r. rr_session r = sid) (put_record x (ix_records st)) = ?mine @ [x]"
    using assms(2) by (auto simp: put_record_def intro!: filter_cong)
  then show ?thesis using sort_key_last [OF old] by (simp add: records_of_def)
qed

lemma last_above:
  fixes f :: "'a \<Rightarrow> nat"
  assumes "sorted (map f (xs @ [x]))" "distinct (map f (xs @ [x]))"
  shows "\<forall>y \<in> set xs. f y < f x"
proof
  fix y
  assume "y \<in> set xs"
  then have "f y \<le> f x" "f y \<noteq> f x" using assms by (auto simp: sorted_append dest: image_eqI [of _ f, OF sym])
  then show "f y < f x" by simp
qed

lemma tracks_step:
  assumes t: "tracks d sid f es es' (st, p)" and order: "sorted (map ev_seq (es @ es' @ [e]))" "distinct (map ev_seq (es @ es' @ [e]))"
    and i: "inside (sl_view d) f e (Apply_all (sl_view d) (es @ es'))" and k: "ev_kind e \<noteq> ''raw''"
  shows "tracks d sid f es (es' @ [e]) (apply_native d sid e (st, p))"
proof -
  let ?w = "sl_view d" and ?x = "indexed (vl_lib (sl_view d)) sid e"
  let ?st = "st\<lparr>ix_records := put_record ?x (ix_records st)\<rparr>" and ?q = "Apply_all (sl_view d) (es @ es')"
  let ?R = "resolve_row (rows_of ?st sid) (records_of ?st sid)"
  have t': "rows_of st sid = table sid (pj_versions (Apply_all ?w es))" "records_of st sid = record_rows d sid (es @ es')"
    "agree f p ?q" "pj_versions ?q = pj_versions (Apply_all ?w es) @ pj_versions p"
    using t by (simp_all only: tracks_def prod.case)
  have "\<forall>a \<in> set (es @ es'). ev_seq a < ev_seq e" by (rule last_above) (use order in \<open>simp_all only: append_assoc\<close>)
  then have "records_of ?st sid = record_rows d sid (es @ es') @ [?x]"
    unfolding t'(2) [symmetric]
    by (intro records_of_put) (auto simp: t'(2) indexed_def)
  then have rs: "records_of ?st sid = record_rows d sid (es @ es' @ [e])" using k by simp
  have rows: "rows_of ?st sid = table sid (pj_versions (Apply_all ?w es))" using t'(1) by (simp add: rows_of_def)
  have R: "?R (ev_run e) (ev_request e) = None" if "map_of (pj_tools ?q) (tool_key e) = None"
  proof -
    have "map_of (pj_tools (Apply_all ?w es)) (identity (ev_run e) (ev_request e)) = None"
      using that knows_all [of ?w es es'] unfolding tool_key_def by blast
    then show ?thesis
      unfolding rows rs using order by (intro resolve_unknown) (auto simp: sorted_append)
  qed
  have "alike f p ?q (Apply_record ?w ?R e p) (Apply_record ?w no_resolve e ?q)"
    by (rule alike_record [where R = ?R, OF t'(3) Apply_all_well_shown i R])
  moreover have "Apply_all ?w (es @ es' @ [e]) = Apply_record ?w no_resolve e ?q"
    using Apply_all_append [of ?w "es @ es'" "[e]"] by simp
  ultimately show ?thesis
    using rows rs t'(4) by (auto simp: tracks_def apply_native_def Let_def alike_def)
qed

lemma tracks_skip:
  assumes "tracks d sid f es es' s" "ev_kind e = ''raw''"
  shows "tracks d sid f es (es' @ [e]) s"
proof -
  have "Apply_all (sl_view d) (es @ es' @ [e]) = Apply_all (sl_view d) (es @ es')"
    using Apply_all_append [of "sl_view d" "es @ es'" "[e]"] assms(2) by (simp add: Apply_raw)
  then show ?thesis using assms by (simp add: tracks_def split: prod.splits)
qed

lemma tracks_fold:
  assumes "tracks d sid f es pre s" "sorted (map ev_seq (es @ pre @ es'))" "distinct (map ev_seq (es @ pre @ es'))"
    and "all_inside (sl_view d) f es' (Apply_all (sl_view d) (es @ pre))"
  shows "tracks d sid f es (pre @ es') (fold (apply_native d sid) (filter (\<lambda>e. ev_kind e \<noteq> ''raw'') es') s)"
  using assms
proof (induction es' arbitrary: pre s)
  case (Cons e es')
  let ?w = "sl_view d"
  have next_all: "Apply_all ?w (es @ pre @ [e]) = Apply_record ?w no_resolve e (Apply_all ?w (es @ pre))"
    using Apply_all_append [of ?w "es @ pre" "[e]"] by simp
  have i: "inside ?w f e (Apply_all ?w (es @ pre))" "all_inside ?w f es' (Apply_all ?w (es @ (pre @ [e])))"
    using Cons.prems(4) by (simp_all add: next_all)
  have order: "sorted (map ev_seq (es @ (pre @ [e]) @ es'))" "distinct (map ev_seq (es @ (pre @ [e]) @ es'))"
    using Cons.prems(2,3) by simp_all
  then have order': "sorted (map ev_seq (es @ pre @ [e]))" "distinct (map ev_seq (es @ pre @ [e]))"
    by (auto simp: sorted_append)
  obtain st p where s: "s = (st, p)" by (cases s)
  show ?case
  proof (cases "ev_kind e = ''raw''")
    case True
    then show ?thesis using Cons.IH [OF tracks_skip [OF Cons.prems(1) True] order i(2)] by simp
  next
    case False
    have "tracks d sid f es (pre @ [e]) (apply_native d sid e s)"
      using tracks_step [OF Cons.prems(1) [unfolded s] order' i(1) False] by (simp add: s)
    then show ?thesis using Cons.IH [OF _ order i(2)] False by simp
  qed
qed simp

section \<open>Cutting the kept state at a floor\<close>

definition keys_once :: "projection \<Rightarrow> bool" where
  "keys_once p \<longleftrightarrow> distinct (map fst (pj_tools p)) \<and> distinct (map fst (pj_questions p))"

lemma keys_once_same: "pj_tools q = pj_tools p \<Longrightarrow> pj_questions q = pj_questions p \<Longrightarrow> keys_once q = keys_once p"
  by (simp add: keys_once_def)

lemma keys_once_put [simp]: "keys_once (put_row_version v u p) = keys_once p"
  by (rule keys_once_same) (simp_all add: put_row_version_def)

lemma keys_once_question: "keys_once p \<Longrightarrow> keys_once (p\<lparr>pj_questions := AList.update k v (pj_questions p)\<rparr>)"
  by (simp add: keys_once_def distinct_update)

lemma keys_once_set_tool: "keys_once p \<Longrightarrow> keys_once (set_tool k v u p)"
  by (simp add: set_tool_def) (simp add: keys_once_def distinct_update)

lemma keys_once_row [simp]: "keys_once (apply_row w e p) = keys_once p"
  by (simp add: apply_row_def)

lemma keys_once_fields [simp]:
  "keys_once (p\<lparr>pj_input := a\<rparr>) = keys_once p" "keys_once (p\<lparr>pj_input_seq := b\<rparr>) = keys_once p" "keys_once (p\<lparr>pj_last := c\<rparr>) = keys_once p"
  "keys_once (p\<lparr>pj_approvals := g\<rparr>) = keys_once p" "keys_once (forget_turn run p) = keys_once p"
  by (rule keys_once_same; simp add: forget_turn_def)+

lemma keys_once_tool: "keys_once p \<Longrightarrow> keys_once (apply_tool w R e p)"
  by (simp add: apply_tool_def Let_def keys_once_set_tool)

lemma keys_once_approval:
  assumes "keys_once p"
  shows "keys_once (apply_approval w e p)"
proof -
  have a: "keys_once (p\<lparr>pj_questions := AList.update k v (pj_questions p)\<rparr>)" for k v by (rule keys_once_question [OF assms])
  have b: "keys_once (p\<lparr>pj_questions := AList.update k v (pj_questions p), pj_approvals := g\<rparr>)" for k v g
    using a [of k v] by (simp add: keys_once_def)
  show ?thesis
    unfolding apply_approval_def Let_def
    by (simp add: a b keys_once_set_tool split: option.split)
qed

lemma keys_once_answer: "keys_once p \<Longrightarrow> keys_once (fold_answer w e p)"
  by (simp add: fold_answer_def Let_def keys_once_question split: option.split)

lemma keys_once_decide: "keys_once p \<Longrightarrow> keys_once (decide_tool e p)"
  by (simp add: decide_tool_def Let_def keys_once_set_tool split: option.split)

lemma keys_once_turn_end: "keys_once p \<Longrightarrow> keys_once (apply_turn_end w e p)"
  by (simp add: apply_turn_end_def split: option.split)

lemma keys_once_record: "keys_once p \<Longrightarrow> keys_once (Apply_record w R e p)"
  by (simp add: Apply_record_def Let_def keys_once_tool keys_once_approval apply_resolved_def keys_once_decide keys_once_answer keys_once_turn_end)

lemma keys_once_native:
  assumes "keys_once (snd s)"
  shows "keys_once (snd (fold (apply_native d sid) es s))"
  using assms
proof (induction es arbitrary: s)
  case (Cons e es)
  have "keys_once (snd (apply_native d sid e s))" using Cons.prems by (cases s) (simp add: apply_native_def Let_def keys_once_record)
  then show ?case using Cons.IH by simp
qed simp

lemma map_of_filter_values:
  assumes "distinct (map fst xs)"
  shows "map_of (filter (\<lambda>(k, v). P v) xs) k = (case map_of xs k of None \<Rightarrow> None | Some v \<Rightarrow> if P v then Some v else None)"
  using assms
proof (induction xs)
  case (Cons x xs)
  obtain a v where x: "x = (a, v)" by (cases x)
  have "map_of xs a = None" using Cons.prems by (simp add: x map_of_eq_None_iff)
  with Cons show ?case by (cases "a = k") (simp_all add: x)
qed simp

lemma map_of_filter_keys:
  "map_of (filter (\<lambda>(k, v). P k) xs) k = (if P k then map_of xs k else None)"
  by (induction xs) auto

lemma part_of_values:
  assumes "part_of m n f"
  shows "part_of (\<lambda>k. case m k of None \<Rightarrow> None | Some v \<Rightarrow> if g \<le> row_seq v then Some v else None) n (max f g)"
proof -
  have at: "m k = None \<or> m k = n k" for k using assms unfolding part_of_def by blast
  have up: "m k = Some v" if "n k = Some v" "f \<le> row_seq v" for k v using assms that unfolding part_of_def by blast
  show ?thesis
    unfolding part_of_def
  proof (intro conjI allI impI)
    fix k
    show "(case m k of None \<Rightarrow> None | Some v \<Rightarrow> if g \<le> row_seq v then Some v else None) = None \<or>
        (case m k of None \<Rightarrow> None | Some v \<Rightarrow> if g \<le> row_seq v then Some v else None) = n k"
      using at [of k] by (cases "n k") auto
  next
    fix k v
    assume "n k = Some v" "max f g \<le> row_seq v"
    then show "(case m k of None \<Rightarrow> None | Some v \<Rightarrow> if g \<le> row_seq v then Some v else None) = Some v"
      using up [of k v] by simp
  qed
qed

lemma part_of_rows: "part_of m n f \<Longrightarrow> \<forall>k v. n k = Some v \<longrightarrow> row_seq v = k \<Longrightarrow>
    part_of (\<lambda>k. if g \<le> k then m k else None) n (max f g)"
  by (auto simp: part_of_def)

lemma agree_prune:
  assumes "agree f p q" "keys_once p" "well_shown q"
  shows "agree (max f g) (prune g p) q"
proof -
  have k: "distinct (map fst (pj_tools p))" "distinct (map fst (pj_questions p))" using assms(2) by (simp_all add: keys_once_def)
  have rows: "\<forall>n v. map_of (pj_rows q) n = Some v \<longrightarrow> row_seq v = n" using assms(3) by (auto simp: well_shown_def)
  have a: "map_of (pj_rows (prune g p)) = (\<lambda>n. if g \<le> n then map_of (pj_rows p) n else None)"
    by (rule ext) (simp add: prune_def map_of_filter_keys)
  have b: "map_of (pj_tools (prune g p)) = (\<lambda>k. case map_of (pj_tools p) k of None \<Rightarrow> None | Some v \<Rightarrow> if g \<le> row_seq v then Some v else None)"
    by (rule ext) (simp add: prune_def map_of_filter_values [OF k(1)])
  have c: "map_of (pj_questions (prune g p)) = (\<lambda>k. case map_of (pj_questions p) k of None \<Rightarrow> None | Some v \<Rightarrow> if g \<le> row_seq v then Some v else None)"
    by (rule ext) (simp add: prune_def map_of_filter_values [OF k(2)])
  have d: "map_of (pj_approvals (prune g p)) = map_of (pj_approvals q)" "map_of (pj_last (prune g p)) = map_of (pj_last q)"
    "map_of (pj_input (prune g p)) = map_of (pj_input q)"
    using assms(1) by (simp_all add: prune_def agree_def)
  have p: "part_of (map_of (pj_rows p)) (map_of (pj_rows q)) f" "part_of (map_of (pj_tools p)) (map_of (pj_tools q)) f"
    "part_of (map_of (pj_questions p)) (map_of (pj_questions q)) f"
    using assms(1) by (simp_all add: agree_def)
  show ?thesis
    unfolding agree_def a b c d using part_of_rows [OF p(1) rows] part_of_values [OF p(2)] part_of_values [OF p(3)] by simp
qed

lemma agree_less: "agree f p q \<Longrightarrow> f \<le> g \<Longrightarrow> agree g p q"
  unfolding agree_def part_of_def by fastforce

lemma keys_once_prune: "keys_once p \<Longrightarrow> keys_once (prune g p)"
  by (simp add: keys_once_def prune_def distinct_map_filter)

section \<open>A kept state and its tables\<close>

definition warm :: "store_lib \<Rightarrow> string \<Rightarrow> nat \<Rightarrow> event list \<Rightarrow> index \<Rightarrow> cache option \<Rightarrow> bool" where
  "warm d sid f es st c \<longleftrightarrow>
     rows_of st sid = table sid (pj_versions (Apply_all (sl_view d) es)) \<and> records_of st sid = record_rows d sid es \<and>
     map_of (ix_state st) sid = Some (min_or_zero (map ev_seq es), max_or_zero (map ev_seq es)) \<and>
     map_of (ix_format st) sid = Some projectionFormat \<and>
     (\<exists>p. c = Some \<lparr>ca_projection = Some p, ca_first = min_or_zero (map ev_seq es), ca_last = max_or_zero (map ev_seq es),
        ca_format = projectionFormat\<rparr> \<and> keys_once p \<and> agree f p (Apply_all (sl_view d) es))"

text \<open>What a change leaves once it is committed.\<close>

lemma commit_warm:
  assumes "decoded d sid st es" "rows_of st sid = table sid vs" "records_of st sid = record_rows d sid es"
    and "pj_versions (Apply_all (sl_view d) es) = vs @ pj_versions p" "agree f p (Apply_all (sl_view d) es)" "keys_once p"
    and "commit_sync sid (Some k) st p = (st', c')"
  shows "holds_memory d sid st' es \<and> warm d sid (max f (openTurn (record_rows d sid es))) es st' c'"
proof -
  let ?q = "Apply_all (sl_view d) es" and ?g = "openTurn (record_rows d sid es)"
  define p' where "p' = (if 0 < ?g then prune ?g p else p)"
  have p': "agree (max f ?g) p' ?q" "keys_once p'"
    using agree_prune [OF assms(5,6) Apply_all_well_shown, of ?g] assms(5,6) keys_once_prune by (simp_all add: p'_def)
  have ev: "map er_seq (events_of st sid) = map ev_seq es" by (rule decoded_seqs [OF assms(1)])
  have st': "st' = fst (commit_sync sid (Some k) st p)" using assms(7) by simp
  have e': "events_of st' sid = events_of st sid" by (simp add: st' commit_index events_of_def)
  have rs': "records_of st' sid = record_rows d sid es" using assms(3) by (simp add: st' commit_index records_of_def)
  have "put_versions sid (pj_versions p) (table sid vs) = table sid (vs @ pj_versions p)"
    by (simp add: put_versions_def table_def)
  then have rows: "rows_of st' sid = table sid (pj_versions ?q)" by (simp add: st' commit_rows assms(2,4))
  have state: "map_of (ix_state st') sid = Some (min_or_zero (map ev_seq es), max_or_zero (map ev_seq es))"
    "map_of (ix_format st') sid = Some projectionFormat"
    by (simp_all add: st' commit_index ev)
  have c': "c' = Some \<lparr>ca_projection = Some p', ca_first = min_or_zero (map ev_seq es), ca_last = max_or_zero (map ev_seq es),
      ca_format = projectionFormat\<rparr>"
    using assms(7) state(1)
    by (simp add: commit_sync_def Let_def assms(3) p'_def [symmetric] Cache_keep_def get_or_def split: prod.splits)
  show ?thesis
    using assms(1) rows rs' state c' p' by (simp add: holds_memory_def warm_def decoded_def e')
qed

lemma get_state: "map_of (ix_state st) sid = Some x \<Longrightarrow> get_or z (ix_state st) sid = x"
  by (simp add: get_or_def)

lemma new_versions [simp]: "pj_versions new_projection = []" "keys_once new_projection"
  by (simp_all add: new_projection_def keys_once_def)

lemma change_warm:
  assumes "sync_change d sid st (Some k) = Some (st1, p)" "decoded d sid st (es @ es')" "tracks d sid f es es' (st1, p)" "keys_once p"
    and "st' = fst (commit_sync sid (Some k) st1 p)" "c' = snd (commit_sync sid (Some k) st1 p)"
  shows "holds_memory d sid st' (es @ es') \<and> warm d sid (max f (openTurn (record_rows d sid (es @ es')))) (es @ es') st' c'"
proof (rule commit_warm)
  have "events_of st1 sid = events_of st sid" using sync_change_store(1) [OF assms(1)] by (simp add: events_of_def)
  then show "decoded d sid st1 (es @ es')" using assms(2) by (simp add: decoded_def)
  show "rows_of st1 sid = table sid (pj_versions (Apply_all (sl_view d) es))" "records_of st1 sid = record_rows d sid (es @ es')"
    "pj_versions (Apply_all (sl_view d) (es @ es')) = pj_versions (Apply_all (sl_view d) es) @ pj_versions p"
    "agree f p (Apply_all (sl_view d) (es @ es'))"
    using assms(3) unfolding tracks_def prod.case by blast+
  show "commit_sync sid (Some k) st1 p = (st', c')" by (simp add: assms(5,6))
qed (rule assms(4))

lemma all_inside_0: "all_inside w 0 es q"
  by (induction es arbitrary: q) (auto simp: inside_def near_def split: option.split)

text \<open>A rebuild with a cache leaves it warm.\<close>

theorem rebuild_warms:
  assumes "decoded d sid st es" "sync_plan sid st = Rebuild" "SyncWith d sid st (Some k) = (st', c', x)"
  shows "x = None \<and> holds_memory d sid st' es \<and> warm d sid (openTurn (record_rows d sid es)) es st' c'"
  using assms(3)
proof (cases rule: sync_cases)
  case (failed)
  then show ?thesis using rebuild_holds_memory [OF assms] by simp
next
  case (changed st1 p)
  let ?es = "filter (\<lambda>e. ev_kind e \<noteq> ''raw'') es" and ?base = "clear_session sid st"
  have ev: "events_of ?base sid = events_of st sid" by (simp add: events_of_def clear_session_def)
  have b: "decoded d sid ?base es" using assms(1) by (simp add: decoded_def ev)
  have rows: "rows_of ?base sid = []" "records_of ?base sid = []"
    by (simp_all add: rows_of_def records_of_def clear_session_def filter_empty_conv)
  have t: "tracks d sid 0 [] [] (?base, new_projection)"
    using rows by (simp add: tracks_def agree_def part_of_def Apply_all_def)
  have f: "(st1, p) = fold (apply_native d sid) ?es (?base, new_projection)"
    using changed(2) decoded_natives [OF b] assms(2) by (simp add: sync_change_def Let_def start_projection_def split: prod.splits)
  have order: "sorted (map ev_seq ([] @ [] @ es))" "distinct (map ev_seq ([] @ [] @ es))"
    using decoded_sorted [OF assms(1)] assms(1) by (simp_all add: decoded_def)
  have "tracks d sid 0 [] es (st1, p)" unfolding f using tracks_fold [OF t order all_inside_0] by simp
  moreover have "keys_once p" using keys_once_native [of "(?base, new_projection)" d sid ?es] by (simp add: f [symmetric])
  ultimately show ?thesis using change_warm [OF changed(2), of "[]" es 0, OF _ _ _ changed(3,4)] assms(1) changed(5) by simp
qed (use assms(2) in simp_all)

lemma max_upper: "\<forall>x \<in> set (map f xs). x \<le> max_or_zero (map f xs)"
  by (induction xs) (auto simp: max_or_zero_def)

lemma max_below: "\<forall>n \<in> set xs. n < m \<Longrightarrow> 0 < m \<Longrightarrow> max_or_zero xs < m"
  by (induction xs) (auto simp: max_or_zero_def)

text \<open>What the record table holds beyond the records already synced.\<close>

lemma decoded_rest:
  assumes "decoded d sid st (es @ es')"
  shows "natives d sid (max_or_zero (map ev_seq es)) st = Some (filter (\<lambda>e. ev_kind e \<noteq> ''raw'') es')"
proof -
  let ?l = "max_or_zero (map ev_seq es)"
  obtain rs rs' where rs: "events_of st sid = rs @ rs'" "list_all2 (body_of d) rs es" "list_all2 (body_of d) rs' es'"
    using assms by (auto simp: decoded_def list_all2_append2)
  have seqs: "map er_seq rs = map ev_seq es" "map er_seq rs' = map ev_seq es'"
    using rs(2,3) by (auto simp: list_all2_conv_all_nth list_eq_iff_nth_eq)
  have old: "\<forall>r \<in> set rs. er_seq r \<le> ?l"
    using max_upper [of er_seq rs] unfolding seqs(1) [symmetric] by simp
  have order: "sorted (map ev_seq (es @ es'))" "distinct (map ev_seq (es @ es'))"
    using decoded_sorted [OF assms] assms by (simp_all add: decoded_def)
  have pos: "\<forall>r \<in> set rs'. 0 < er_seq r" using rs(3) by (auto simp: list_all2_conv_all_nth in_set_conv_nth)
  have new: "\<forall>r \<in> set rs'. ?l < er_seq r"
  proof
    fix r
    assume r: "r \<in> set rs'"
    then have "er_seq r \<in> set (map ev_seq es')" by (simp only: seqs(2) [symmetric]) simp
    then have "\<forall>n \<in> set (map ev_seq es). n < er_seq r"
      using order by (fastforce simp: sorted_append order_less_le)
    then show "?l < er_seq r" using pos r by (intro max_below) blast+
  qed
  have "list_all2 (body_of d) xs ys \<Longrightarrow> \<forall>r \<in> set xs. ?l < er_seq r \<Longrightarrow>
    decode_all d (filter (\<lambda>r. ?l < er_seq r \<and> sl_kind d (er_data r) \<noteq> ''raw'') xs) = Some (filter (\<lambda>e. ev_kind e \<noteq> ''raw'') ys)" for xs ys
    by (induction xs ys rule: list_all2_induct) (auto simp: decode_all_def)
  moreover have "filter (\<lambda>r. ?l < er_seq r \<and> sl_kind d (er_data r) \<noteq> ''raw'') rs = []"
    using old by (auto simp: filter_empty_conv)
  ultimately show ?thesis using rs new by (simp add: natives_def)
qed

theorem warm_sync:
  assumes "warm d sid f es st c" "decoded d sid st (es @ es')" "sync_plan sid st = Append"
    and "all_inside (sl_view d) f es' (Apply_all (sl_view d) es)" "SyncWith d sid st c = (st', c', x)"
  shows "x = None \<and> holds_memory d sid st' (es @ es') \<and>
    warm d sid (max f (openTurn (record_rows d sid (es @ es')))) (es @ es') st' c'"
proof -
  let ?w = "sl_view d" and ?es = "filter (\<lambda>e. ev_kind e \<noteq> ''raw'') es'"
  let ?l = "max_or_zero (map ev_seq es)"
  obtain k p0 where k: "c = Some k" "ca_projection k = Some p0" "ca_first k = min_or_zero (map ev_seq es)" "ca_last k = ?l"
      "ca_format k = projectionFormat" "keys_once p0" "agree f p0 (Apply_all ?w es)"
    using assms(1) unfolding warm_def by fastforce
  have w: "rows_of st sid = table sid (pj_versions (Apply_all ?w es))" "records_of st sid = record_rows d sid es"
    "map_of (ix_state st) sid = Some (min_or_zero (map ev_seq es), ?l)" "map_of (ix_format st) sid = Some projectionFormat"
    using assms(1) unfolding warm_def by blast+
  let ?p = "p0\<lparr>pj_versions := []\<rparr>"
  have start: "start_projection sid st c = ?p"
    using w(3,4) k(1-5) assms(3) by (simp add: start_projection_def get_or_def Cache_use_def)
  have n: "natives d sid ?l st = Some ?es" by (rule decoded_rest [OF assms(2)])
  have change: "sync_change d sid st c = Some (fold (apply_native d sid) ?es (st, ?p))"
    using w(3) n assms(3) by (simp add: sync_change_def Let_def get_or_def start)
  have "agree f ?p (Apply_all ?w es)" using k(7) by (simp add: agree_def)
  then have t: "tracks d sid f es [] (st, ?p)" using w(1,2) by (simp add: tracks_def)
  obtain st1 p where f: "fold (apply_native d sid) ?es (st, ?p) = (st1, p)" by fastforce
  have order: "sorted (map ev_seq (es @ [] @ es'))" "distinct (map ev_seq (es @ [] @ es'))"
    using decoded_sorted [OF assms(2)] assms(2) by (simp_all add: decoded_def)
  have t1: "tracks d sid f es es' (st1, p)" using tracks_fold [OF t order] assms(4) by (simp add: f)
  have "keys_once ?p" using k(6) by (simp add: keys_once_def)
  then have kp: "keys_once p" using keys_once_native [of "(st, ?p)" d sid ?es] by (simp add: f)
  have plan: "sync_plan sid st \<in> {Rebuild, Append}" using assms(3) by simp
  have c1: "sync_change d sid st (Some k) = Some (st1, p)" using change f k(1) by simp
  have "st' = fst (commit_sync sid (Some k) st1 p)" "c' = snd (commit_sync sid (Some k) st1 p)" "x = None"
    using assms(5) unfolding SyncWith_change [OF plan] k(1) c1 by simp_all
  then show ?thesis using change_warm [OF c1 assms(2) t1 kp] by blast
qed

text \<open>C14. A sync that appends to a kept reduced state is as good as a rebuild: as long as the records that
  arrived reach no row from before the floor the state was cut at, every page, at every snapshot, and
  the details of every row are those of all records, and the state kept for the next sync is again
  good from its own floor on.\<close>

theorem warm_reads_are_memory:
  assumes "warm d sid f es st c" "decoded d sid st (es @ es')" "sync_plan sid st = Append"
    and "all_inside (sl_view d) f es' (Apply_all (sl_view d) es)" "SyncWith d sid st c = (st', c', x)" "pr_session r = sid"
  shows "x = None \<and> Page d st' r = FromEvents (sl_view d) (es @ es') r \<and>
    Details d st' sid n = DetailsFromEvents (vl_lib (sl_view d)) (es @ es') n \<and>
    warm d sid (max f (openTurn (record_rows d sid (es @ es')))) (es @ es') st' c'"
  using warm_sync [OF assms(1-5)] page_memory [OF _ assms(6)] details_memory by blast

text \<open>The tables and the cache once the first two records were synced and the third has arrived.\<close>

definition first_two :: "event list" where
  "first_two = [rec_event 1 ''input'' ''hello'' [], rec_event 2 ''assistant'' ''hi'' []]"

definition turn_over :: "event list" where
  "turn_over = [rec_event 3 ''turn_end'' ''completed'' []]"

definition two_synced :: "index \<times> cache option" where
  "two_synced = (case SyncWith (sample_history_lib grown) ''s'' (sample_history first_two) (Some empty_cache) of
     (st, c, _) \<Rightarrow> (st\<lparr>ix_events := sample_bodies grown\<rparr>, c))"

lemma warm_reads_are_memory_witness:
  "Page (sample_history_lib grown) (fst (SyncWith (sample_history_lib grown) ''s'' (fst two_synced) (snd two_synced)))
      \<lparr>pr_session = ''s'', pr_before = 0, pr_after = 1, pr_snapshot = 0, pr_limit = 2\<rparr> =
    FromEvents sample_view grown \<lparr>pr_session = ''s'', pr_before = 0, pr_after = 1, pr_snapshot = 0, pr_limit = 2\<rparr>"
proof -
  let ?d = "sample_history_lib grown" and ?st = "sample_history first_two"
  let ?r = "\<lparr>pr_session = ''s'', pr_before = 0, pr_after = 1, pr_snapshot = 0, pr_limit = 2\<rparr>"
  obtain st c x where s: "SyncWith ?d ''s'' ?st (Some empty_cache) = (st, c, x)" by (metis surj_pair)
  obtain st' c' x' where r: "SyncWith ?d ''s'' (fst two_synced) (snd two_synced) = (st', c', x')" by (metis surj_pair)
  have "decoded ?d ''s'' ?st first_two" by code_simp
  moreover have "sync_plan ''s'' ?st = Rebuild" by code_simp
  ultimately have w: "warm ?d ''s'' (openTurn (record_rows ?d ''s'' first_two)) first_two st c"
    using rebuild_warms [OF _ _ s] by blast
  have t: "fst two_synced = st\<lparr>ix_events := sample_bodies grown\<rparr>" "snd two_synced = c" by (simp_all add: two_synced_def s)
  have w': "warm ?d ''s'' (openTurn (record_rows ?d ''s'' first_two)) first_two (fst two_synced) (snd two_synced)"
    using w by (simp add: t warm_def rows_of_def records_of_def)
  have g: "first_two @ turn_over = grown" by (simp add: first_two_def turn_over_def grown_def)
  have a: "decoded ?d ''s'' (fst two_synced) (first_two @ turn_over)" by code_simp
  have b: "sync_plan ''s'' (fst two_synced) = Append" by code_simp
  have i: "all_inside (sl_view ?d) (openTurn (record_rows ?d ''s'' first_two)) turn_over (Apply_all (sl_view ?d) first_two)"
    by code_simp
  have "Page ?d st' ?r = FromEvents (sl_view ?d) (first_two @ turn_over) ?r"
    using warm_reads_are_memory [OF w' a b i r, of ?r] by simp
  then show ?thesis by (simp add: r g)
qed

end
