(* ===== verification/Quota_Share.thy ===== *)
theory Quota_Share
  imports Policy
begin

text \<open>
  \<^verbatim>\<open>internal/quotashare\<close>: one file per account, read and replaced under a lock, decides which of the
  processes sharing the account asks the provider for its quota (store.go).  The lock makes every
  exchange one step, so a run is a list of exchanges.
\<close>

section \<open>The exchange\<close>

record quota_request =
  qr_project :: string
  qr_session :: string
  qr_account :: string
  qr_lease :: string
  qr_payload :: "json option"

record quota_state =
  qt_payload :: "json option"
  qt_observed :: int
  qt_requested :: int
  qt_lease :: string

record quota_answer =
  qp_snapshot :: quota_state
  qp_poll :: bool

definition zero_quota :: quota_state where
  "zero_quota = \<lparr>qt_payload = None, qt_observed = 0, qt_requested = 0, qt_lease = []\<rparr>"

text \<open>What the operating system and \<open>core.ID\<close> answer during one exchange.\<close>

record quota_io =
  qi_locked :: bool
  qi_write :: write_outcome
  qi_fresh :: string
  qi_now :: int      \<comment> \<open>\<open>now.UnixMilli()\<close>\<close>

definition quota_json :: "quota_state \<Rightarrow> json" where
  "quota_json q = JObj [(''Payload'', case qt_payload q of None \<Rightarrow> JNull | Some j \<Rightarrow> j), (''Observed'', JInt (qt_observed q)),
     (''Requested'', JInt (qt_requested q)), (''Lease'', JStr (qt_lease q))]"

definition dec_quota :: "quota_state dec" where
  "dec_quota = dec_struct (\<lambda>kvs v.
     let (a, oka) = dec_field ''Payload'' dec_raw kvs (qt_payload v);
         (b, okb) = dec_field ''Observed'' dec_int64 kvs (qt_observed v);
         (c, okc) = dec_field ''Requested'' dec_int64 kvs (qt_requested v);
         (d, okd) = dec_field ''Lease'' dec_string kvs (qt_lease v)
     in (\<lparr>qt_payload = a, qt_observed = b, qt_requested = c, qt_lease = d\<rparr>, oka \<and> okb \<and> okc \<and> okd))"

text \<open>The state in the file; \<open>None\<close> when it cannot be read or decoded.\<close>

definition quota_file :: "policy_file \<Rightarrow> quota_state option" where
  "quota_file f =
     (case f of
        Absent \<Rightarrow> Some zero_quota
      | Denied \<Rightarrow> None
      | Document b \<Rightarrow> (case unmarshal_payload dec_quota b zero_quota of (q, ok) \<Rightarrow> if ok then Some q else None))"

definition minute :: int where "minute = 60000"

text \<open>What a request makes of the state: the new state, whether the caller polls, and whether the file
  is written.\<close>

definition quota_step :: "quota_io \<Rightarrow> quota_request \<Rightarrow> quota_state \<Rightarrow> quota_state \<times> bool \<times> bool" where
  "quota_step io r q =
     (if qr_lease r \<noteq> [] then
        (if qr_payload r \<noteq> None then (q\<lparr>qt_payload := qr_payload r, qt_observed := qi_now io\<rparr>, False, True) else (q, False, False))
      else if minute \<le> wrap64 (qi_now io - qt_requested q) \<or> qt_requested q = 0
      then (q\<lparr>qt_requested := qi_now io, qt_lease := qi_fresh io\<rparr>, True, True)
      else (q, False, False))"

definition Exchange :: "quota_io \<Rightarrow> quota_request \<Rightarrow> policy_file \<Rightarrow> quota_answer option \<times> policy_file" where
  "Exchange io r f =
     (if \<not> qi_locked io then (None, f)
      else case quota_file f of
          None \<Rightarrow> (None, f)
        | Some q \<Rightarrow>
            if qr_lease r \<noteq> [] \<and> qt_lease q \<noteq> qr_lease r
            then (Some \<lparr>qp_snapshot = q\<lparr>qt_lease := []\<rparr>, qp_poll = False\<rparr>, f)
            else
              let (q', poll, changed) = quota_step io r q;
                  (ok, f') = (if changed then WriteJSON (qi_write io) f (quota_json q') else (True, f))
              in if ok then (Some \<lparr>qp_snapshot = (if poll then q' else q'\<lparr>qt_lease := []\<rparr>), qp_poll = poll\<rparr>, f') else (None, f'))"

text \<open>The files of all accounts, by the digest of the account's name.\<close>

definition Exchange_at :: "(string \<Rightarrow> string) \<Rightarrow> quota_io \<Rightarrow> quota_request \<Rightarrow> (string \<Rightarrow> policy_file) \<Rightarrow> quota_answer option \<times> (string \<Rightarrow> policy_file)" where
  "Exchange_at digest io r fs =
     (let k = digest (qr_account r) @ ''.json''; (res, f) = Exchange io r (fs k) in (res, fs(k := f)))"

section \<open>The file and back\<close>

definition in_range :: "int \<Rightarrow> bool" where
  "in_range i \<longleftrightarrow> 0 < i \<and> i < 2 ^ 62"

definition small :: "int \<Rightarrow> bool" where
  "small i \<longleftrightarrow> - (2 ^ 63) \<le> i \<and> i < 2 ^ 63"

lemma in_range_small: "in_range i \<Longrightarrow> small i"
  by (simp add: in_range_def small_def)

lemma dec_int64_small: "small d \<Longrightarrow> small (fst (dec_int64 j d))"
  by (cases "(j, d)" rule: dec_int64.cases) (auto simp: small_def)

lemma dec_fold_small: "small d \<Longrightarrow> small (fst (dec_fold n dec_int64 kvs (d, ok)))"
proof (induction kvs arbitrary: d ok)
  case (Cons kv kvs)
  obtain k j where kv: "kv = (k, j)" by (cases kv)
  obtain v ok' where v: "dec_int64 j d = (v, ok')" by (cases "dec_int64 j d")
  then have "small v" using dec_int64_small [OF Cons.prems, of j] by simp
  then show ?case using Cons by (simp add: kv v)
qed simp

lemma quota_file_small:
  assumes "quota_file f = Some q"
  shows "small (qt_observed q) \<and> small (qt_requested q)"
proof -
  have z: "small (qt_observed zero_quota) \<and> small (qt_requested zero_quota)" by (simp add: zero_quota_def small_def)
  have "small (qt_observed (fst (dec_quota j zero_quota))) \<and> small (qt_requested (fst (dec_quota j zero_quota)))" for j
  proof (cases j)
    case (JObj kvs)
    have "small (fst (dec_field n dec_int64 kvs 0))" for n
      using dec_fold_small [of 0 n kvs True] by (simp add: dec_field_def small_def)
    then show ?thesis by (simp add: dec_quota_def JObj split_beta zero_quota_def)
  qed (use z in \<open>simp_all add: dec_quota_def\<close>)
  with z show ?thesis
    using assms by (auto simp: quota_file_def unmarshal_payload_def split: policy_file.splits prod.splits if_splits option.splits) (metis fst_conv)+
qed

lemma quota_file_written:
  assumes "small (qt_observed q)" "small (qt_requested q)"
  shows "quota_file (Document (Some (quota_json q))) =
    Some (q\<lparr>qt_payload := Some (case qt_payload q of None \<Rightarrow> JNull | Some j \<Rightarrow> j)\<rparr>)"
  using assms
  by (simp add: quota_file_def unmarshal_payload_def dec_quota_def quota_json_def zero_quota_def dec_simps key_simps small_def)

section \<open>One poll a minute\<close>

text \<open>What an exchange does to the time of the last claim.\<close>

lemma Exchange_claim:
  assumes "in_range (qi_now io)" "Exchange io r f = (res, f')"
  shows "f' = f \<and> (\<forall>p. res = Some p \<longrightarrow> \<not> qp_poll p) \<or>
    (\<exists>q q'. quota_file f = Some q \<and> quota_file f' = Some q' \<and>
      (qt_requested q' = qt_requested q \<and> (\<forall>p. res = Some p \<longrightarrow> \<not> qp_poll p) \<or>
       qt_requested q' = qi_now io \<and> (in_range (qt_requested q) \<longrightarrow> qt_requested q + minute \<le> qi_now io)))"
proof (cases "qi_locked io \<and> quota_file f \<noteq> None")
  case True
  then obtain q where q: "quota_file f = Some q" by auto
  obtain q' poll changed where s: "quota_step io r q = (q', poll, changed)" by (metis prod_cases3)
  have small: "small (qt_observed q)" "small (qt_requested q)" "small (qi_now io)"
    using quota_file_small [OF q] in_range_small [OF assms(1)] by simp_all
  then have sq': "small (qt_observed q')" "small (qt_requested q')"
    using s by (auto simp: quota_step_def split: if_splits)
  have claim: "qt_requested q' = qt_requested q \<and> \<not> poll \<or>
      changed \<and> qt_requested q' = qi_now io \<and> (in_range (qt_requested q) \<longrightarrow> qt_requested q + minute \<le> qi_now io)"
    using s assms(1) by (auto simp: quota_step_def in_range_def split: if_splits)
  obtain w where w: "quota_file (Document (Some (quota_json q'))) = Some w" "qt_requested w = qt_requested q'"
    using quota_file_written [OF sq'] by simp
  show ?thesis
    using True assms(2) q w claim
    by (cases "qi_write io") (auto simp: Exchange_def s WriteJSON_def Let_def split: if_splits)
next
  case False
  then have "Exchange io r f = (None, f)" by (auto simp: Exchange_def)
  then show ?thesis using assms(2) by simp
qed

text \<open>The times at which a run of exchanges on one file grants a poll.\<close>

fun polls :: "policy_file \<Rightarrow> (quota_io \<times> quota_request) list \<Rightarrow> int list" where
  "polls f [] = []"
| "polls f ((io, r) # xs) =
     (case Exchange io r f of (res, f') \<Rightarrow>
        (case res of Some p \<Rightarrow> if qp_poll p then [qi_now io] else [] | None \<Rightarrow> []) @ polls f' xs)"

lemma polls_after:
  assumes "\<forall>(io, r) \<in> set xs. in_range (qi_now io)" "quota_file f = Some q" "in_range (qt_requested q)" "t \<in> set (polls f xs)"
  shows "qt_requested q + minute \<le> t"
  using assms
proof (induction xs arbitrary: f q)
  case (Cons x xs)
  obtain io r where x: "x = (io, r)" by (cases x)
  obtain res f' where e: "Exchange io r f = (res, f')" by (cases "Exchange io r f")
  have now: "in_range (qi_now io)" and rest: "\<forall>(io, r) \<in> set xs. in_range (qi_now io)" using Cons.prems(1) by (auto simp: x)
  have minute: "0 < minute" by (simp add: minute_def)
  from Exchange_claim [OF now e] consider
    (same) "f' = f" "\<forall>p. res = Some p \<longrightarrow> \<not> qp_poll p"
  | (kept) q' where "quota_file f' = Some q'" "qt_requested q' = qt_requested q" "\<forall>p. res = Some p \<longrightarrow> \<not> qp_poll p"
  | (claimed) q' where "quota_file f' = Some q'" "qt_requested q' = qi_now io" "qt_requested q + minute \<le> qi_now io"
    using Cons.prems(2,3) by fastforce
  then show ?case
  proof cases
    case same
    then show ?thesis using Cons.IH [OF rest Cons.prems(2,3)] Cons.prems(4) by (auto simp: x e split: option.splits)
  next
    case kept
    then show ?thesis using Cons.IH [OF rest kept(1)] Cons.prems(3,4) by (auto simp: x e split: option.splits)
  next
    case claimed
    then have "t = qi_now io \<or> t \<in> set (polls f' xs)" using Cons.prems(4) by (auto simp: x e split: option.splits if_splits)
    then show ?thesis using Cons.IH [OF rest claimed(1)] claimed now minute by auto
  qed
qed simp

text \<open>C15. The file an account shares grants at most one poll of the provider a minute: in any run of
  exchanges on it, by whatever processes, with whatever failures of reading, decoding, locking and writing
  and with clocks that differ, the polls \<open>Exchange\<close> grants are at least a minute apart, on the clocks of
  those they were granted to.  A caller whose exchange fails is granted nothing here; it polls by its own
  clock (\<open>claimClaudeQuota\<close>, \<open>remoteQuota\<close>), which the file does not see and this does not bound.\<close>

theorem polls_a_minute_apart:
  assumes "\<forall>(io, r) \<in> set xs. in_range (qi_now io)"
  shows "sorted_wrt (\<lambda>a b. a + minute \<le> b) (polls f xs)"
  using assms
proof (induction xs arbitrary: f)
  case (Cons x xs)
  obtain io r where x: "x = (io, r)" by (cases x)
  obtain res f' where e: "Exchange io r f = (res, f')" by (cases "Exchange io r f")
  have now: "in_range (qi_now io)" and rest: "\<forall>(io, r) \<in> set xs. in_range (qi_now io)" using Cons.prems by (auto simp: x)
  have "qi_now io + minute \<le> t" if p: "res = Some p" "qp_poll p" and t: "t \<in> set (polls f' xs)" for p t
  proof -
    obtain q' where q': "quota_file f' = Some q'" "qt_requested q' = qi_now io"
    proof (rule disjE [OF Exchange_claim [OF now e]])
      assume "f' = f \<and> (\<forall>p. res = Some p \<longrightarrow> \<not> qp_poll p)"
      then show thesis using p by simp
    qed (use p that in blast)
    show ?thesis using polls_after [OF rest q'(1) _ t] q'(2) now by simp
  qed
  then show ?case using Cons.IH [OF rest] by (auto simp: x e split: option.split)
qed simp

definition sample_io :: "string \<Rightarrow> int \<Rightarrow> quota_io" where
  "sample_io fresh now = \<lparr>qi_locked = True, qi_write = Write_done, qi_fresh = fresh, qi_now = now\<rparr>"

definition sample_request :: "string \<Rightarrow> json option \<Rightarrow> quota_request" where
  "sample_request lease j = \<lparr>qr_project = ''p'', qr_session = ''s'', qr_account = ''a'', qr_lease = lease, qr_payload = j\<rparr>"

lemma polls_a_minute_apart_witness:
  "polls Absent [(sample_io ''x'' 100, sample_request [] None), (sample_io ''y'' 60099, sample_request [] None),
     (sample_io ''z'' 60100, sample_request [] None)] = [100, 60100] \<and>
   sorted_wrt (\<lambda>a b. a + minute \<le> b) (polls Absent [(sample_io ''x'' 100, sample_request [] None),
     (sample_io ''y'' 60099, sample_request [] None), (sample_io ''z'' 60100, sample_request [] None)])"
proof
  let ?xs = "[(sample_io ''x'' 100, sample_request [] None), (sample_io ''y'' 60099, sample_request [] None),
     (sample_io ''z'' 60100, sample_request [] None)]"
  have "\<forall>(io, r) \<in> set ?xs. in_range (qi_now io)" by (simp add: sample_io_def in_range_def)
  then show "sorted_wrt (\<lambda>a b. a + minute \<le> b) (polls Absent ?xs)" by (rule polls_a_minute_apart)
  show "polls Absent ?xs = [100, 60100]"
    by (simp add: Exchange_def quota_step_def sample_io_def sample_request_def quota_file_written zero_quota_def WriteJSON_def
        small_def minute_def quota_file_def [of Absent] Let_def)
qed

text \<open>C16. Only the holder of the lease publishes, only the caller that polls is given one, and what was
  published last is never erased: an exchange that changes the payload in the file carried a payload
  and the lease the file held, and a response with a lease is the grant of a poll.\<close>

theorem lease_guards_publication:
  assumes "Exchange io r f = (res, f')" "quota_file f = Some q" "quota_file f' = Some q'" "in_range (qi_now io)"
  shows "(qt_payload q' = qt_payload q \<or> qt_payload q = None \<and> qt_payload q' = Some JNull \<or>
      qr_lease r = qt_lease q \<and> qr_lease r \<noteq> [] \<and> qr_payload r \<noteq> None \<and> qt_payload q' = qr_payload r) \<and>
    (\<forall>p. res = Some p \<longrightarrow> qt_lease (qp_snapshot p) \<noteq> [] \<longrightarrow> qp_poll p \<and> qr_lease r = [] \<and> qt_lease (qp_snapshot p) = qi_fresh io) \<and>
    (qr_lease r \<noteq> [] \<longrightarrow> qr_lease r \<noteq> qt_lease q \<longrightarrow> f' = f)"
proof -
  obtain s poll changed where s: "quota_step io r q = (s, poll, changed)" by (metis prod_cases3)
  have "small (qt_observed s)" "small (qt_requested s)"
    using s quota_file_small [OF assms(2)] in_range_small [OF assms(4)] by (auto simp: quota_step_def split: if_splits)
  note w = quota_file_written [OF this]
  show ?thesis
    using assms(1-3) w s
    by (cases "qi_write io")
      (auto simp: Exchange_def WriteJSON_def Let_def quota_step_def split: if_splits option.splits)
qed

lemma lease_guards_publication_witness:
  "snd (Exchange (sample_io ''y'' 200) (sample_request ''stale'' (Some (JInt 1)))
     (Document (Some (quota_json (zero_quota\<lparr>qt_requested := 100, qt_lease := ''x''\<rparr>))))) =
   Document (Some (quota_json (zero_quota\<lparr>qt_requested := 100, qt_lease := ''x''\<rparr>)))"
proof -
  let ?q = "zero_quota\<lparr>qt_requested := 100, qt_lease := ''x''\<rparr>" and ?r = "sample_request ''stale'' (Some (JInt 1))"
  let ?f = "Document (Some (quota_json ?q))"
  have f: "quota_file ?f = Some (?q\<lparr>qt_payload := Some JNull\<rparr>)"
    by (subst quota_file_written) (simp_all add: zero_quota_def small_def)
  obtain res f' where e: "Exchange (sample_io ''y'' 200) ?r ?f = (res, f')" by (cases "Exchange (sample_io ''y'' 200) ?r ?f")
  have s: "quota_file f' = Some (?q\<lparr>qt_payload := Some JNull\<rparr>)"
    using e f by (auto simp: Exchange_def sample_io_def sample_request_def)
  have "in_range (qi_now (sample_io ''y'' 200))" by (simp add: sample_io_def in_range_def)
  from lease_guards_publication [OF e f s this] have "f' = ?f" by (simp add: sample_request_def)
  then show ?thesis by (simp only: e snd_conv)
qed

end
