(* ===== verification/Spec2Isabelle.thy ===== *)
theory Spec2Isabelle
  imports Models Idle Stream_Lines Transcript_Warm Quota_Share
begin

text \<open>
  cxz keeps a conversation with a coding agent.  A supervisor process owns one agent (Claude or
  Codex); everything the agent sends and everything a client asks becomes an event, the state a client
  sees is reduced from the events, and a reading history turns them into the rows of a transcript.
  This development models the part that makes a conversation durable and consistent, from the Go
  sources under \<^verbatim>\<open>src/internal\<close>.  Paths below are relative to it.

  \<^bold>\<open>How the parts interact.\<close>  A client's command enters \<^verbatim>\<open>executeLocked\<close> (\<open>Execute\<close>), the agent's
  lines enter \<^verbatim>\<open>consume\<close> (\<open>Supervisor\<close>, \<open>Codex\<close>).  Both change the state of the supervisor
  (\<open>Sup_State\<close>) and record events through its log (\<open>Session_Store\<close>, and \<open>Journal\<close> before it), one
  message of the agent as one batch.  Retention (\<open>History\<close>, \<open>Policy\<close>) shortens the log to a checkpoint.
  A restart reduces what is left (\<open>Replay\<close>).  The events are reduced a second time, for readers, by the
  reading history (\<open>Transcript\<close> and what follows).

  \<^bold>\<open>The library.\<close>
  \<^item> \<open>Prelude\<close>: Go maps as association lists, results as sums, generic lemmas and named collections.
  \<^item> \<open>Json\<close>, \<open>Base64\<close>, \<open>Sha256\<close>: what the sources use of Go's standard library.  Documents are
    printed and parsed byte by byte, and printing then parsing is the identity.  A Go string is the
    list of its bytes.

  \<^bold>\<open>The record and its logs.\<close>
  \<^item> \<open>Core\<close> (\<^verbatim>\<open>core\<close>): events, snapshots, checkpoints, commands, receipts and their JSON.
  \<^item> \<open>Journal\<close> (\<^verbatim>\<open>journal\<close>): the append-only file, its recovery, compaction, shedding and
    incremental reading.  The locale \<open>line_format\<close> is what its writers owe its readers.
  \<^item> \<open>Event_Log\<close>: the locale of what a supervisor relies on from its log, interpreted on the
    journal here and on the session store in its own theory.
  \<^item> \<open>Session_Store\<close> (\<^verbatim>\<open>sessionstore\<close>): the store of a session and the log over it, with what memory
    and file hold after each outcome of an operation.  The loops of \<^verbatim>\<open>log.go\<close> are definitions of their
    own, and compute what those of the journal do (\<open>Log_AppendBatch_eq\<close> and the like).
  \<^item> \<open>Replay\<close> (\<^verbatim>\<open>supervisor/supervisor.go\<close>: \<^verbatim>\<open>Replay\<close>, \<^verbatim>\<open>ReplayFrom\<close>): the fold from events to state,
    with its laws: in parts as in whole, and which requests are pending.
  \<^item> \<open>History\<close> (\<^verbatim>\<open>supervisor/history.go\<close>): records, checkpoints, and what retention chooses; a
    compaction is invisible to a replay and forgets no client id.
  \<^item> \<open>Policy\<close> (\<^verbatim>\<open>historypolicy\<close>): the limits, in 64-bit arithmetic, and the floors.

  \<^bold>\<open>What the provider says and the user answers.\<close>
  \<^item> \<open>Background\<close> (\<^verbatim>\<open>agentview/background.go\<close>): background work as telemetry reports it.
  \<^item> \<open>Questions\<close> and \<open>Answers\<close> (\<^verbatim>\<open>agentview/questions.go\<close>, \<^verbatim>\<open>elicitation.go\<close>, \<^verbatim>\<open>question_history.go\<close>,
    \<^verbatim>\<open>approval.go\<close>): the forms of both providers, the normal form of answers, the replies, what of an
    answer is kept, and which requests are approved without asking.
  \<^item> \<open>Models\<close> (\<^verbatim>\<open>agentview/models.go\<close>): the catalogs and the model in use.
  \<^item> \<open>Views\<close> (\<^verbatim>\<open>toolview\<close>, \<^verbatim>\<open>shellview\<close>, \<^verbatim>\<open>authview\<close>): what is shown of a tool call, a command and a
    failure.  Five levels are enough for \<open>auth_levels\<close>: the source stops at depth four.

  \<^bold>\<open>The supervisor.\<close>
  \<^item> \<open>Sup_State\<close>: its state as the record \<open>sup\<close>, recording an event, batches, writing to the agent,
    pending requests and the one waiting message.  The record \<open>env\<close> is what the world answers during
    one action: the clock, which writes to the agent succeed, what the database answers after the n-th
    record, the processes of the agent, the idle period an update waits for, the quota coordinator,
    brokered tokens.
  \<^item> \<open>Sup_Settings\<close> (\<^verbatim>\<open>models.go\<close>, \<^verbatim>\<open>claude_settings.go\<close>, \<^verbatim>\<open>quota.go\<close>, \<^verbatim>\<open>quota_shared.go\<close>, \<^verbatim>\<open>update.go\<close>, the
    response metadata), \<open>Codex\<close> (\<^verbatim>\<open>codex*.go\<close>), \<open>Execute\<close> (every command), \<open>Supervisor\<close> (Claude's
    frames, the stream, retention, ticks, requests, start and end of a run, and \<open>step\<close>, any of them).
    An operation of type \<open>sup option\<close> gives \<open>None\<close> where the code stops with an error of the log.
  \<^item> \<open>Machine\<close>, \<open>Refine\<close>: the abstract machine a supervisor promises (\<open>micro\<close>, \<open>advance\<close>), and that
    every operation is a path of it.  The hypothesis \<open>clock env\<close> says that the clock is after 1970 and
    fits 64 bits.
  \<^item> \<open>Ranges\<close>, \<open>Live\<close>: the events fit Go's integers, and the live state is what the log replays to,
    for every state reachable by the inductive \<open>live\<close>.
  \<^item> \<open>Fate\<close>, \<open>Frames\<close>, \<open>Instances\<close>: what lies between two states of the machine, what an event leaves
    alone (\<open>recording env\<close>: the database accepts), and concrete supervisors the witnesses run.
  \<^item> \<open>Restart\<close>, \<open>Commands\<close>, \<open>Stream_Lines\<close>: what outlives a supervisor, what a client relies on, and
    that the lines read from the agent do not depend on the size of the buffer.
  \<^item> \<open>Idle\<close>: the locale \<open>kept_by\<close>, what every action keeps for a predicate its single steps keep,
    interpreted on the clock of the last activity; so an update waits for a whole idle period after
    work.

  \<^bold>\<open>The reading history\<close> (\<^verbatim>\<open>transcripthistory\<close>).
  \<^item> \<open>Transcript\<close>: \<^verbatim>\<open>Projection.Apply\<close>, the reduction of one record into rows; the maps of the
    \<^verbatim>\<open>Projection\<close> are the fields of \<open>projection\<close>, a row is an event with a \<^verbatim>\<open>ToolSummary\<close>.
  \<^item> \<open>Transcript_Sync\<close>: the tables as the record \<open>index\<close>, \<^verbatim>\<open>SyncWith\<close> as the decision \<open>sync_plan\<close>
    followed by \<open>sync_change\<close> and \<open>commit_sync\<close>, the cache, and the readers \<^verbatim>\<open>Page\<close>, \<^verbatim>\<open>Tail\<close>, \<^verbatim>\<open>Details\<close>
    beside \<^verbatim>\<open>FromEvents\<close>, \<^verbatim>\<open>DetailsFromEvents\<close> and \<^verbatim>\<open>VersionsFromEvents\<close> of \<^verbatim>\<open>memory.go\<close>.
  \<^item> \<open>Transcript_Laws\<close>, \<open>Transcript_Memory\<close>, \<open>Transcript_Pages\<close>: a record publishes only versions of
    its own number; a table of versions shows as of a snapshot the rows of the records up to it; pages
    and details are the same from both.
  \<^item> \<open>Transcript_Walk\<close>: the locale \<open>row_source\<close> is what a reader of pages relies on, interpreted on
    the records and on the database.  The pages of \<open>read_back\<close> are counted by its first argument; the
    number of rows is enough.
  \<^item> \<open>Reading\<close>: what a sync keeps, how it ends, and two record orders in which an incremental sync
    publishes less than a rebuild (\<open>steered_answer_lost\<close>, \<open>restored_decision_lost\<close>).
  \<^item> \<open>Transcript_Agree\<close>, \<open>Transcript_Warm\<close>: a reduced state cut at a floor agrees with the whole one from
    there on, and a sync that appends to it publishes what a rebuild would, as long as the new records
    reach no row from before the floor (\<open>all_inside\<close>).
  \<^item> \<open>Quota_Share\<close> (\<^verbatim>\<open>quotashare/store.go\<close>): who asks the provider for an account's quota.

  \<^bold>\<open>Conventions.\<close>  Code outside the sources is an argument with the laws it is used by: \<open>lib\<close> (decimal
  numbers of JSON, the jsonschema package), \<open>view_lib\<close> (go-shellwords), \<open>store_lib\<close> (decoding a record's
  body), the digest of a file name.  The JSON of the generated event type and back is taken to be the
  identity where rows are stored.  Sequence numbers are natural numbers; where Go's 64 bits matter the
  bound is a hypothesis or the arithmetic is written with \<open>wrap64\<close>.  A Go map that is ranged over is
  visited in the order of its list, one of those Go allows.  The mutex of a supervisor, the lock of a
  session and the lock of a quota file make each operation one step; concurrency is a sequence of steps.

  \<^bold>\<open>Not modelled.\<close>  Generated code (protobuf, ent and the bindings over them); the server and the
  engine, which drive Docker, SQL and sockets; the terminal and web clients; accounts and login;
  installing and updating; telemetry, which only observes; memory, tasks, search and project
  configuration, services over third-party packages.  Of the supervisor: preparing the agent's process
  and the fork of a conversation, whose outcomes are arguments, and failures of single SQL statements
  of the reading history.  Percentages of quota and context windows are computed in floating point and
  are left out.
\<close>

end
